(* ===== verification/Prelude.thy ===== *)
theory Prelude
  imports Main "HOL-Library.AList" "HOL-Library.Multiset" "HOL-Library.Word"
begin

text \<open>
  Shared vocabulary of the development.

  \<^item> \<open>outcome\<close>: what a Go call can do. It returns a value, returns an error value, panics, or
    (for a recursion that the model bounds with fuel) does not return.
  \<^item> \<open>bindG\<close> and its companions: Go statements as functions from a state to an outcome and the
    next state. The state survives an error, because in Go the mutations made before an early
    return stay.
  \<^item> \<open>hoare\<close> and \<open>keeps\<close>: a partial-correctness triple with a second postcondition for the
    runs that do not return normally, and the frame property "every run relates the state before
    to the state after by \<open>R\<close>". The locale \<open>frame_rel\<close> gives the rules of \<open>keeps\<close> once for
    every reflexive and transitive \<open>R\<close>.
  \<^item> generic lemmas on association lists (Go maps), on sorting by a key, and on quorums.
\<close>

section \<open>Collections\<close>

named_theorems hoare_rules \<open>rules that decompose a triple along the program\<close>
named_theorems keeps_rules \<open>frame facts of the primitive operations\<close>
named_theorems go_defs \<open>unfolding of the statement combinators\<close>

type_synonym byte = "8 word"

section \<open>Outcomes and statements\<close>

datatype ('e, 'a) outcome = Ok 'a | Err 'e | Panic | Diverge

fun is_Ok :: "('e, 'a) outcome \<Rightarrow> bool" where
  "is_Ok (Ok a) = True"
| "is_Ok _ = False"

definition bindO :: "('e, 'a) outcome \<Rightarrow> ('a \<Rightarrow> ('e, 'b) outcome) \<Rightarrow> ('e, 'b) outcome" where
  "bindO r k = (case r of Ok a \<Rightarrow> k a | Err e \<Rightarrow> Err e | Panic \<Rightarrow> Panic | Diverge \<Rightarrow> Diverge)"

definition okG :: "'a \<Rightarrow> 's \<Rightarrow> ('e, 'a) outcome \<times> 's" where
  "okG a s = (Ok a, s)"

definition errG :: "'e \<Rightarrow> 's \<Rightarrow> ('e, 'a) outcome \<times> 's" where
  "errG e s = (Err e, s)"

definition liftO :: "('e, 'a) outcome \<Rightarrow> 's \<Rightarrow> ('e, 'a) outcome \<times> 's" where
  "liftO r s = (r, s)"

definition getsG :: "('s \<Rightarrow> 'a) \<Rightarrow> 's \<Rightarrow> ('e, 'a) outcome \<times> 's" where
  "getsG f s = (Ok (f s), s)"

definition modifyG :: "('s \<Rightarrow> 's) \<Rightarrow> 's \<Rightarrow> ('e, unit) outcome \<times> 's" where
  "modifyG f s = (Ok (), f s)"

text \<open>\<open>x, err := m; if err != nil { return err }; k(x)\<close>\<close>

definition bindG ::
  "('s \<Rightarrow> ('e, 'a) outcome \<times> 's) \<Rightarrow> ('a \<Rightarrow> 's \<Rightarrow> ('e, 'b) outcome \<times> 's)
    \<Rightarrow> 's \<Rightarrow> ('e, 'b) outcome \<times> 's" where
  "bindG m k s =
     (case m s of
        (Ok a, s') \<Rightarrow> k a s'
      | (Err e, s') \<Rightarrow> (Err e, s')
      | (Panic, s') \<Rightarrow> (Panic, s')
      | (Diverge, s') \<Rightarrow> (Diverge, s'))"

text \<open>\<open>x, err := m\<close> where the code goes on to look at \<open>err\<close>; a panic is not caught.\<close>

definition tryG ::
  "('s \<Rightarrow> ('e, 'a) outcome \<times> 's) \<Rightarrow> ('e + 'a \<Rightarrow> 's \<Rightarrow> ('e, 'b) outcome \<times> 's)
    \<Rightarrow> 's \<Rightarrow> ('e, 'b) outcome \<times> 's" where
  "tryG m k s =
     (case m s of
        (Ok a, s') \<Rightarrow> k (Inr a) s'
      | (Err e, s') \<Rightarrow> k (Inl e) s'
      | (Panic, s') \<Rightarrow> (Panic, s')
      | (Diverge, s') \<Rightarrow> (Diverge, s'))"

text \<open>\<open>for _, x := range xs { body }\<close> with an accumulator for the local variables the body
  assigns; an error inside the body is an early return from the enclosing function.\<close>

fun foldG ::
  "('x \<Rightarrow> 'a \<Rightarrow> 's \<Rightarrow> ('e, 'a) outcome \<times> 's) \<Rightarrow> 'x list \<Rightarrow> 'a
    \<Rightarrow> 's \<Rightarrow> ('e, 'a) outcome \<times> 's" where
  "foldG f [] a = okG a"
| "foldG f (x # xs) a = bindG (f x a) (foldG f xs)"

text \<open>The same with \<open>break\<close>: the body says whether the loop goes on.\<close>

datatype 'a loop = Continue 'a | Break 'a

fun loopG ::
  "('x \<Rightarrow> 'a \<Rightarrow> 's \<Rightarrow> ('e, 'a loop) outcome \<times> 's) \<Rightarrow> 'x list \<Rightarrow> 'a
    \<Rightarrow> 's \<Rightarrow> ('e, 'a) outcome \<times> 's" where
  "loopG f [] a = okG a"
| "loopG f (x # xs) a =
     bindG (f x a) (\<lambda>r. case r of Continue b \<Rightarrow> loopG f xs b | Break b \<Rightarrow> okG b)"


lemma bindO_simps [simp]:
  "bindO (Ok a) k = k a"
  "bindO (Err e) k = Err e"
  "bindO Panic k = Panic"
  "bindO Diverge k = Diverge"
  by (simp_all add: bindO_def)

lemma bindO_eq_Ok: "bindO r k = Ok b \<longleftrightarrow> (\<exists>a. r = Ok a \<and> k a = Ok b)"
  by (cases r) auto

lemma bindG_eq_Ok:
  "bindG m k s = (Ok b, s'') \<longleftrightarrow> (\<exists>a s'. m s = (Ok a, s') \<and> k a s' = (Ok b, s''))"
  by (auto simp: bindG_def split: prod.splits outcome.splits)

lemma bindG_run:
  "m s = (Ok a, s') \<Longrightarrow> bindG m k s = k a s'"
  "m s = (Err e, s') \<Longrightarrow> bindG m k s = (Err e, s')"
  "m s = (Panic, s') \<Longrightarrow> bindG m k s = (Panic, s')"
  "m s = (Diverge, s') \<Longrightarrow> bindG m k s = (Diverge, s')"
  by (simp_all add: bindG_def)

lemma bindG_cases:
  assumes "bindG m k s = (r, s'')"
  obtains (ok) a s' where "m s = (Ok a, s')" and "k a s' = (r, s'')"
  | (fail) r' where "m s = (r', s'')" and "\<not> is_Ok r'" and "\<not> is_Ok r"
proof -
  obtain r1 s1 where m: "m s = (r1, s1)" by fastforce
  show ?thesis
  proof (cases r1)
    case (Ok a)
    then show ?thesis using assms m by (intro ok [of a s1]) (simp_all add: bindG_run)
  next
    case (Err e)
    then show ?thesis using assms m by (intro fail [of r1]) (auto simp: bindG_run)
  next
    case Panic
    then show ?thesis using assms m by (intro fail [of r1]) (auto simp: bindG_run)
  next
    case Diverge
    then show ?thesis using assms m by (intro fail [of r1]) (auto simp: bindG_run)
  qed
qed

lemma bindG_Diverge:
  "bindG m k s = (Diverge, s'') \<longleftrightarrow>
     m s = (Diverge, s'') \<or> (\<exists>a s'. m s = (Ok a, s') \<and> k a s' = (Diverge, s''))"
  by (auto simp: bindG_def split: prod.splits outcome.splits)

lemma tryG_run:
  "m s = (Ok a, s') \<Longrightarrow> tryG m k s = k (Inr a) s'"
  "m s = (Err e, s') \<Longrightarrow> tryG m k s = k (Inl e) s'"
  "m s = (Panic, s') \<Longrightarrow> tryG m k s = (Panic, s')"
  "m s = (Diverge, s') \<Longrightarrow> tryG m k s = (Diverge, s')"
  by (simp_all add: tryG_def)

lemma go_run [go_defs]:
  "okG a s = (Ok a, s)"
  "errG e s = (Err e, s)"
  "liftO r s = (r, s)"
  "getsG f s = (Ok (f s), s)"
  "modifyG g s = (Ok (), g s)"
  by (simp_all add: okG_def errG_def liftO_def getsG_def modifyG_def)

lemma bindG_prim [simp]:
  "bindG (okG a) k s = k a s"
  "bindG (getsG f) k s = k (f s) s"
  "bindG (modifyG g) k' s = k' () (g s)"
  "bindG (liftO (Ok a)) k s = k a s"
  by (simp_all add: go_defs bindG_def)

lemma tryG_prim [simp]:
  "tryG (okG a) k s = k (Inr a) s"
  "tryG (errG e) k s = k (Inl e) s"
  "tryG (liftO (Ok a)) k s = k (Inr a) s"
  "tryG (liftO (Err e)) k s = k (Inl e) s"
  by (simp_all add: go_defs tryG_def)

section \<open>Triples\<close>

definition hoare ::
  "('s \<Rightarrow> bool) \<Rightarrow> ('s \<Rightarrow> ('e, 'a) outcome \<times> 's) \<Rightarrow> ('a \<Rightarrow> 's \<Rightarrow> bool) \<Rightarrow> ('s \<Rightarrow> bool) \<Rightarrow> bool" where
  "hoare P m Q E \<longleftrightarrow>
     (\<forall>s. P s \<longrightarrow> (case m s of (Ok a, s') \<Rightarrow> Q a s' | (_, s') \<Rightarrow> E s'))"

lemma hoareI:
  assumes "\<And>s a s'. P s \<Longrightarrow> m s = (Ok a, s') \<Longrightarrow> Q a s'"
    and "\<And>s r s'. P s \<Longrightarrow> m s = (r, s') \<Longrightarrow> \<not> is_Ok r \<Longrightarrow> E s'"
  shows "hoare P m Q E"
  unfolding hoare_def
proof (intro allI impI)
  fix s assume "P s"
  then show "case m s of (Ok a, s') \<Rightarrow> Q a s' | (_, s') \<Rightarrow> E s'"
    using assms by (auto split: prod.splits outcome.splits)
qed

lemma hoareD: "hoare P m Q E \<Longrightarrow> P s \<Longrightarrow> m s = (Ok a, s') \<Longrightarrow> Q a s'"
  by (auto simp: hoare_def split: prod.splits)

lemma hoareD_fail: "hoare P m Q E \<Longrightarrow> P s \<Longrightarrow> m s = (r, s') \<Longrightarrow> \<not> is_Ok r \<Longrightarrow> E s'"
  by (cases r) (auto simp: hoare_def split: prod.splits)

lemma hoare_pre: "hoare P' m Q E \<Longrightarrow> (\<And>s. P s \<Longrightarrow> P' s) \<Longrightarrow> hoare P m Q E"
  by (auto simp: hoare_def)

lemma hoare_post:
  "hoare P m Q' E' \<Longrightarrow> (\<And>a s. Q' a s \<Longrightarrow> Q a s) \<Longrightarrow> (\<And>s. E' s \<Longrightarrow> E s) \<Longrightarrow> hoare P m Q E"
  by (rule hoareI) (auto dest: hoareD hoareD_fail)

lemma hoare_ok [hoare_rules]: "hoare (Q a) (okG a) Q E"
  by (simp add: hoare_def go_defs)

lemma hoare_err [hoare_rules]: "hoare E (errG e) Q E"
  by (simp add: hoare_def go_defs)

lemma hoare_gets [hoare_rules]: "hoare (\<lambda>s. Q (f s) s) (getsG f) Q E"
  by (simp add: hoare_def go_defs)

lemma hoare_modify [hoare_rules]: "hoare (\<lambda>s. Q () (f s)) (modifyG f) Q E"
  by (simp add: hoare_def go_defs)

lemma hoare_bind [hoare_rules]:
  assumes m: "hoare P m R E" and k: "\<And>a. hoare (R a) (k a) Q E"
  shows "hoare P (bindG m k) Q E"
  unfolding hoare_def
proof (intro allI impI)
  fix s assume P: "P s"
  obtain r1 s1 where r1: "m s = (r1, s1)" by fastforce
  show "case bindG m k s of (Ok a, s') \<Rightarrow> Q a s' | (_, s') \<Rightarrow> E s'"
  proof (cases r1)
    case (Ok a)
    then have "R a s1" using m P r1 by (auto dest: hoareD)
    then show ?thesis using k [of a] Ok r1 by (simp add: hoare_def bindG_run)
  qed (use hoareD_fail [OF m P r1] r1 in \<open>auto simp: bindG_run\<close>)
qed

lemma hoare_foldG:
  assumes "\<And>x a. x \<in> set xs \<Longrightarrow> hoare (I a) (f x a) I E"
  shows "hoare (I a) (foldG f xs a) I E"
  using assms
proof (induction xs arbitrary: a)
  case Nil
  show ?case by (simp add: hoare_def go_defs)
next
  case (Cons x xs)
  then show ?case by (auto intro: hoare_bind)
qed

lemma hoare_try:
  assumes m: "hoare P m R E" and ok: "\<And>a. hoare (R a) (k (Inr a)) Q E" and err: "\<And>e. hoare E (k (Inl e)) Q E"
  shows "hoare P (tryG m k) Q E"
  unfolding hoare_def
proof (intro allI impI)
  fix s assume P: "P s"
  obtain r1 s1 where r1: "m s = (r1, s1)" by fastforce
  show "case tryG m k s of (Ok a, s') \<Rightarrow> Q a s' | (_, s') \<Rightarrow> E s'"
  proof (cases r1)
    case (Ok a)
    then have "R a s1" using m P r1 by (auto dest: hoareD)
    then show ?thesis using ok [of a] Ok r1 by (simp add: hoare_def tryG_run)
  next
    case (Err e)
    then have "E s1" using hoareD_fail [OF m P r1] by simp
    then show ?thesis using err [of e] Err r1 by (simp add: hoare_def tryG_run)
  qed (use hoareD_fail [OF m P r1] r1 in \<open>auto simp: tryG_run\<close>)
qed

lemma hoare_loopG:
  assumes body: "\<And>x a. x \<in> set xs \<Longrightarrow> hoare (I a) (f x a) (\<lambda>r. case r of Continue b \<Rightarrow> I b | Break b \<Rightarrow> J b) E"
    and exit: "\<And>a s. I a s \<Longrightarrow> J a s"
  shows "hoare (I a) (loopG f xs a) J E"
  using body
proof (induction xs arbitrary: a)
  case Nil
  show ?case using exit by (simp add: hoare_def go_defs)
next
  case (Cons x xs)
  show ?case unfolding loopG.simps
  proof (rule hoare_bind)
    show "hoare (I a) (f x a) (\<lambda>r. case r of Continue b \<Rightarrow> I b | Break b \<Rightarrow> J b) E"
      by (rule Cons.prems) simp
    fix r
    show "hoare (case r of Continue b \<Rightarrow> I b | Break b \<Rightarrow> J b)
        (case r of Continue b \<Rightarrow> loopG f xs b | Break b \<Rightarrow> okG b) J E"
    proof (cases r)
      case (Continue b)
      then show ?thesis using Cons by simp
    next
      case (Break b)
      then show ?thesis by (simp add: hoare_ok)
    qed
  qed
qed

section \<open>Frames\<close>

definition keeps :: "('s \<Rightarrow> 's \<Rightarrow> bool) \<Rightarrow> ('s \<Rightarrow> ('e, 'a) outcome \<times> 's) \<Rightarrow> bool" where
  "keeps R m \<longleftrightarrow> (\<forall>s. R s (snd (m s)))"

lemma keepsD: "keeps R m \<Longrightarrow> m s = (r, s') \<Longrightarrow> R s s'"
  by (auto simp: keeps_def dest: spec [of _ s])

lemma keepsI: "(\<And>s r s'. m s = (r, s') \<Longrightarrow> R s s') \<Longrightarrow> keeps R m"
  by (auto simp: keeps_def prod_eq_iff)

lemma hoare_keeps: "keeps R m \<Longrightarrow> (\<And>s s'. P s \<Longrightarrow> R s s' \<Longrightarrow> P s') \<Longrightarrow> hoare P m (\<lambda>_. P) P"
  by (rule hoareI) (auto dest: keepsD)

text \<open>Case distinctions between statements.\<close>

lemma keeps_if [keeps_rules]:
  "(b \<Longrightarrow> keeps R m) \<Longrightarrow> (\<not> b \<Longrightarrow> keeps R n) \<Longrightarrow> keeps R (if b then m else n)"
  by simp

lemma keeps_sum [keeps_rules]:
  "(\<And>a. keeps R (f a)) \<Longrightarrow> (\<And>b. keeps R (g b)) \<Longrightarrow> keeps R (case r of Inl a \<Rightarrow> f a | Inr b \<Rightarrow> g b)"
  by (simp split: sum.split)

lemma keeps_option [keeps_rules]:
  "keeps R f \<Longrightarrow> (\<And>b. keeps R (g b)) \<Longrightarrow> keeps R (case r of None \<Rightarrow> f | Some b \<Rightarrow> g b)"
  by (simp split: option.split)

lemma keeps_prod [keeps_rules]: "(\<And>a b. keeps R (f a b)) \<Longrightarrow> keeps R (case p of (a, b) \<Rightarrow> f a b)"
  by (simp split: prod.split)

lemma keeps_prod1 [keeps_rules]:
  "(\<And>a b. keeps R (f a b c)) \<Longrightarrow> keeps R ((case p of (a, b) \<Rightarrow> f a b) c)"
  by (simp split: prod.split)

lemma keeps_let [keeps_rules]: "(\<And>x. keeps R (f x)) \<Longrightarrow> keeps R (let x = a in f x)"
  by simp

lemma keeps_run: "(\<And>s. keeps R (m s)) \<Longrightarrow> keeps R (\<lambda>s. m s s)"
  by (simp add: keeps_def)

locale frame_rel =
  fixes R :: "'s \<Rightarrow> 's \<Rightarrow> bool"
  assumes frame_refl: "R s s"
    and frame_trans: "R s t \<Longrightarrow> R t u \<Longrightarrow> R s u"
begin

lemma keeps_ok: "keeps R (okG a)"
  by (simp add: keeps_def frame_refl go_defs)

lemma keeps_err: "keeps R (errG e)"
  by (simp add: keeps_def frame_refl go_defs)

lemma keeps_lift: "keeps R (liftO r)"
  by (simp add: keeps_def frame_refl go_defs)

lemma keeps_gets: "keeps R (getsG f)"
  by (simp add: keeps_def frame_refl go_defs)

lemma keeps_modify: "(\<And>s. R s (f s)) \<Longrightarrow> keeps R (modifyG f)"
  by (simp add: keeps_def go_defs)

text \<open>The continuation may use what is known of the result.\<close>

lemma keeps_bind_res:
  assumes "keeps R m" and "\<And>a s s'. m s = (Ok a, s') \<Longrightarrow> keeps R (k a)"
  shows "keeps R (bindG m k)"
proof (rule keepsI)
  fix s r s'
  assume run: "bindG m k s = (r, s')"
  obtain r1 s1 where m: "m s = (r1, s1)" by fastforce
  have "R s s1" using assms(1) m by (rule keepsD)
  moreover have "R s1 s'"
    using run m assms(2) by (cases r1) (auto simp: bindG_def frame_refl dest: keepsD)
  ultimately show "R s s'" by (rule frame_trans)
qed

lemma keeps_bind:
  assumes "keeps R m" and "\<And>a. keeps R (k a)"
  shows "keeps R (bindG m k)"
  using assms by (rule keeps_bind_res)

lemma keeps_try:
  assumes "keeps R m" and "\<And>a. keeps R (k a)"
  shows "keeps R (tryG m k)"
proof (rule keepsI)
  fix s r s'
  assume run: "tryG m k s = (r, s')"
  obtain r1 s1 where m: "m s = (r1, s1)" by fastforce
  have "R s s1" using assms(1) m by (rule keepsD)
  moreover have "R s1 s'"
    using run m assms(2) by (cases r1) (auto simp: tryG_def frame_refl dest: keepsD)
  ultimately show "R s s'" by (rule frame_trans)
qed

lemma keeps_foldG:
  assumes "\<And>x a. keeps R (f x a)"
  shows "keeps R (foldG f xs a)"
proof (induction xs arbitrary: a)
  case Nil
  show ?case by (simp add: keeps_ok)
next
  case (Cons x xs)
  then show ?case by (simp add: keeps_bind assms)
qed

lemma keeps_loopG:
  assumes "\<And>x a. keeps R (f x a)"
  shows "keeps R (loopG f xs a)"
proof (induction xs arbitrary: a)
  case Nil
  show ?case by (simp add: keeps_ok)
next
  case (Cons x xs)
  then show ?case
    by (auto intro!: keeps_bind assms keeps_ok split: loop.splits)
qed

lemmas keeps_basic =
  keeps_ok keeps_err keeps_lift keeps_gets keeps_bind keeps_try keeps_foldG keeps_loopG

end

section \<open>Go maps as association lists\<close>

lemma map_of_delete_simp [simp]:
  "map_of (AList.delete k al) k' = (if k' = k then None else map_of al k')"
  by (simp add: AList.delete_conv')

lemma map_of_update_simp [simp]:
  "map_of (AList.update k v al) k' = (if k' = k then Some v else map_of al k')"
  by (simp add: AList.update_conv')

lemma distinct_fst_delete: "distinct (map fst al) \<Longrightarrow> distinct (map fst (AList.delete k al))"
  by (rule AList.distinct_delete)

lemma set_delete_simp [simp]:
  "x \<in> set (AList.delete k al) \<longleftrightarrow> x \<in> set al \<and> fst x \<noteq> k"
  by (auto simp: AList.delete_eq)

lemma length_delete_absent: "map_of al k = None \<Longrightarrow> AList.delete k al = al"
  by (induction al) (auto split: if_splits)

lemma length_delete_present:
  "distinct (map fst al) \<Longrightarrow> map_of al k = Some v \<Longrightarrow>
   Suc (length (AList.delete k al)) = length al"
proof (induction al)
  case Nil
  then show ?case by simp
next
  case (Cons a al)
  then show ?case
    by (cases "fst a = k") (auto simp: length_delete_absent map_of_eq_None_iff)
qed

lemma map_of_SomeD_mem: "map_of al k = Some v \<Longrightarrow> (k, v) \<in> set al"
  by (rule map_of_SomeD)

lemma find_append:
  "find P (xs @ ys) = (case find P xs of Some x \<Rightarrow> Some x | None \<Rightarrow> find P ys)"
  by (induction xs) auto

section \<open>Quorums\<close>

text \<open>Two sets whose sizes add up to more than the universe meet, and the overlap has at least
  the excess.\<close>

lemma quorum_overlap:
  assumes "finite U" and "A \<subseteq> U" and "B \<subseteq> U"
  shows "card A + card B \<le> card U + card (A \<inter> B)"
proof -
  have fin: "finite A" "finite B" using assms finite_subset by blast+
  have "card (A \<union> B) \<le> card U" using assms by (intro card_mono) auto
  moreover have "card A + card B = card (A \<union> B) + card (A \<inter> B)"
    using fin by (rule card_Un_Int)
  ultimately show ?thesis by simp
qed

end
