(* ===== verification/Common.thy ===== *)
theory Common
  imports Prelude "HOL-Library.Signed_Division"
begin

text \<open>
  The small parts of \<open>src/src/common\<close>: the store errors (\<open>store_errors.go\<close>), three-valued
  fame (\<open>trilean.go\<close>), the hexadecimal codec (\<open>hex.go\<close>) and the median of timestamps
  (\<open>median.go\<close>), with the pieces of Go's \<open>strconv\<close> and \<open>encoding/hex\<close> they use.

  \<open>go_error\<close> is the type of every error value in the development: a \<open>StoreErr\<close>, a
  \<open>SelfParentError\<close>, or a \<open>fmt.Errorf\<close> error carrying the fixed text of its format.
\<close>

section \<open>Printing and parsing numbers\<close>

definition digit_char :: "nat \<Rightarrow> char" where
  "digit_char d = (if d < 10 then char_of (48 + d) else char_of (87 + d))"

definition digit_val :: "char \<Rightarrow> nat option" where
  "digit_val c =
     (let n = of_char c :: nat in
      if 48 \<le> n \<and> n \<le> 57 then Some (n - 48)
      else if 97 \<le> n \<and> n \<le> 122 then Some (n - 87)
      else if 65 \<le> n \<and> n \<le> 90 then Some (n - 55)
      else None)"

fun show_base :: "nat \<Rightarrow> nat \<Rightarrow> string" where
  "show_base b n =
     (if n < b \<or> b < 2 then [digit_char n]
      else show_base b (n div b) @ [digit_char (n mod b)])"

declare show_base.simps [simp del]

definition parse_step :: "nat \<Rightarrow> nat option \<Rightarrow> char \<Rightarrow> nat option" where
  "parse_step b acc c =
     (case (acc, digit_val c) of
        (Some n, Some d) \<Rightarrow> if d < b then Some (n * b + d) else None
      | _ \<Rightarrow> None)"

definition parse_base :: "nat \<Rightarrow> string \<Rightarrow> nat option" where
  "parse_base b s = (if s = [] then None else foldl (parse_step b) (Some 0) s)"

text \<open>\<open>strconv.Itoa\<close> and \<open>fmt\<close>'s \<open>%d\<close>.\<close>

definition itoa :: "int \<Rightarrow> string" where
  "itoa i = (if i < 0 then CHR ''-'' # show_base 10 (nat (- i)) else show_base 10 (nat i))"

text \<open>The same over integers, where evaluation works with binary numerals.\<close>

function show_int_base :: "int \<Rightarrow> int \<Rightarrow> string" where
  "show_int_base b i =
     (if i < b \<or> b < 2 then [digit_char (nat i)]
      else show_int_base b (i div b) @ [digit_char (nat (i mod b))])"
  by auto
termination
proof (relation "measure (\<lambda>(b, i). nat i)")
  fix b i :: int
  assume "\<not> (i < b \<or> b < 2)"
  then have "i div b < i" "0 < i" by (auto intro: int_div_less_self)
  then show "((b, i div b), b, i) \<in> measure (\<lambda>(b, i). nat i)" by simp
qed simp

declare show_int_base.simps [simp del]

lemma show_base_int: "show_base b n = show_int_base (int b) (int n)"
proof (induction b n rule: show_base.induct)
  case (1 b n)
  then show ?case
    by (simp add: show_base.simps [of b n] show_int_base.simps [of "int b" "int n"]
        zdiv_int [symmetric] zmod_int [symmetric])
qed

lemma itoa_code [code]: "itoa i = (if i < 0 then CHR ''-'' # show_int_base 10 (- i) else show_int_base 10 i)"
  by (simp add: itoa_def show_base_int)

lemma digit_val_char: "d < 36 \<Longrightarrow> digit_val (digit_char d) = Some d"
  by (auto simp: digit_val_def digit_char_def Let_def)

lemma show_base_nonempty [simp]: "show_base b n \<noteq> []"
  by (subst show_base.simps) simp

lemma parse_step_digit:
  "d < b \<Longrightarrow> b \<le> 36 \<Longrightarrow> parse_step b (Some n) (digit_char d) = Some (n * b + d)"
  by (simp add: parse_step_def digit_val_char)

lemma foldl_parse_show:
  assumes "2 \<le> b" and "b \<le> 36"
  shows "foldl (parse_step b) (Some 0) (show_base b n) = Some n"
  using assms
proof (induction b n rule: show_base.induct)
  case (1 b n)
  show ?case
  proof (cases "n < b \<or> b < 2")
    case True
    then show ?thesis
      using "1.prems" by (subst show_base.simps) (auto simp: parse_step_digit)
  next
    case False
    then show ?thesis
      using 1 by (subst show_base.simps) (auto simp: parse_step_digit)
  qed
qed

lemma parse_show: "2 \<le> b \<Longrightarrow> b \<le> 36 \<Longrightarrow> parse_base b (show_base b n) = Some n"
  by (simp add: parse_base_def foldl_parse_show)

lemma show_base_inj: "2 \<le> b \<Longrightarrow> b \<le> 36 \<Longrightarrow> show_base b m = show_base b n \<Longrightarrow> m = n"
  by (metis option.inject parse_show)

lemma digit_char_not_special:
  "d < 36 \<Longrightarrow> digit_char d \<noteq> CHR ''-'' \<and> digit_char d \<noteq> CHR ''|'' \<and> digit_char d \<noteq> CHR ''+''"
  using digit_val_char [of d] by (auto simp: digit_val_def Let_def)

lemma show_base_chars:
  assumes "2 \<le> b" and "b \<le> 36" and "c \<in> set (show_base b n)"
  shows "\<exists>d < 36. c = digit_char d"
  using assms
proof (induction b n rule: show_base.induct)
  case (1 b n)
  show ?case
  proof (cases "n < b \<or> b < 2")
    case True
    then show ?thesis
      using "1.prems" by (auto simp: show_base.simps [of b n] intro!: exI [of _ n])
  next
    case False
    then show ?thesis
      using "1.IH" "1.prems" less_le_trans [of "n mod b" b 36]
      by (auto simp: show_base.simps [of b n])
  qed
qed

section \<open>Store errors\<close>

datatype StoreErrType =
  KeyNotFound | TooLate | SkippedIndex | UnknownParticipant | Empty | KeyAlreadyExists

record StoreErr =
  se_dataType :: string
  se_errType :: StoreErrType
  se_key :: string

datatype go_error =
    StoreError StoreErr
  | SelfParentErr string bool
  | Errorf string

type_synonym 'a res = "(go_error, 'a) outcome"
type_synonym ('s, 'a) go = "'s \<Rightarrow> (go_error, 'a) outcome \<times> 's"

definition NewStoreErr :: "string \<Rightarrow> StoreErrType \<Rightarrow> string \<Rightarrow> go_error" where
  "NewStoreErr dataType errType k =
     StoreError \<lparr>se_dataType = dataType, se_errType = errType, se_key = k\<rparr>"

fun errType_text :: "StoreErrType \<Rightarrow> string" where
  "errType_text KeyNotFound = ''Not Found''"
| "errType_text TooLate = ''Too Late''"
| "errType_text SkippedIndex = ''Skipped Index''"
| "errType_text UnknownParticipant = ''Unknown Participant''"
| "errType_text Empty = ''Empty''"
| "errType_text KeyAlreadyExists = ''Key Already Exists''"

definition StoreErr_Error :: "StoreErr \<Rightarrow> string" where
  "StoreErr_Error e =
     se_dataType e @ '', '' @ se_key e @ '', '' @ errType_text (se_errType e)"

fun error_text :: "go_error \<Rightarrow> string" where
  "error_text (StoreError e) = StoreErr_Error e"
| "error_text (SelfParentErr msg normal) = msg"
| "error_text (Errorf msg) = msg"

fun IsStore :: "go_error \<Rightarrow> StoreErrType \<Rightarrow> bool" where
  "IsStore (StoreError e) t = (se_errType e = t)"
| "IsStore _ t = False"

lemma IsStore_New [simp]: "IsStore (NewStoreErr d t k) t' \<longleftrightarrow> t = t'"
  by (simp add: NewStoreErr_def)

section \<open>Trilean\<close>

datatype Trilean = Undefined | TTrue | TFalse

fun Trilean_String :: "Trilean \<Rightarrow> string" where
  "Trilean_String Undefined = ''Undefined''"
| "Trilean_String TTrue = ''True''"
| "Trilean_String TFalse = ''False''"

section \<open>Hexadecimal strings\<close>

definition hex_char :: "nat \<Rightarrow> char" where
  "hex_char d = (if d < 10 then char_of (48 + d) else char_of (55 + d))"

definition from_hex_char :: "char \<Rightarrow> nat option" where
  "from_hex_char c =
     (let n = of_char c :: nat in
      if 48 \<le> n \<and> n \<le> 57 then Some (n - 48)
      else if 97 \<le> n \<and> n \<le> 102 then Some (n - 87)
      else if 65 \<le> n \<and> n \<le> 70 then Some (n - 55)
      else None)"

definition hex_byte :: "byte \<Rightarrow> string" where
  "hex_byte b = [hex_char (unat b div 16), hex_char (unat b mod 16)]"

text \<open>\<open>fmt.Sprintf("0X%X", hexBytes)\<close>\<close>

definition EncodeToString :: "byte list \<Rightarrow> string" where
  "EncodeToString hexBytes = ''0X'' @ concat (map hex_byte hexBytes)"

text \<open>\<open>hex.DecodeString\<close> returns the bytes decoded before the first error, and the error.\<close>

fun hex_DecodeString :: "string \<Rightarrow> byte list \<times> go_error option" where
  "hex_DecodeString [] = ([], None)"
| "hex_DecodeString [c] =
     ([], Some (case from_hex_char c of
                  None \<Rightarrow> Errorf ''encoding/hex: invalid byte''
                | Some _ \<Rightarrow> Errorf ''encoding/hex: odd length hex string''))"
| "hex_DecodeString (c # d # s) =
     (case (from_hex_char c, from_hex_char d) of
        (Some x, Some y) \<Rightarrow>
          (let (bs, err) = hex_DecodeString s in (of_nat (16 * x + y) # bs, err))
      | _ \<Rightarrow> ([], Some (Errorf ''encoding/hex: invalid byte'')))"

text \<open>\<open>hex.DecodeString(hexString[2:])\<close>; slicing a string shorter than two bytes panics.\<close>

definition DecodeFromString :: "string \<Rightarrow> (byte list \<times> go_error option) res" where
  "DecodeFromString hexString =
     (if length hexString < 2 then Panic else Ok (hex_DecodeString (drop 2 hexString)))"

lemma from_hex_char_hex_char: "d < 16 \<Longrightarrow> from_hex_char (hex_char d) = Some d"
  by (auto simp: from_hex_char_def hex_char_def Let_def)

lemma hex_DecodeString_bytes: "hex_DecodeString (concat (map hex_byte bs)) = (bs, None)"
proof (induction bs)
  case Nil
  show ?case by simp
next
  case (Cons b bs)
  have "unat b < 2 ^ LENGTH(8)" by (rule unsigned_less)
  then have "unat b div 16 < 16" by simp
  moreover have "(of_nat (16 * (unat b div 16) + unat b mod 16) :: byte) = b"
    by simp
  ultimately show ?case
    using Cons by (simp add: hex_byte_def from_hex_char_hex_char)
qed

lemma Decode_Encode: "DecodeFromString (EncodeToString bs) = Ok (bs, None)"
  by (simp add: DecodeFromString_def EncodeToString_def hex_DecodeString_bytes)

lemma EncodeToString_inj: "EncodeToString a = EncodeToString b \<Longrightarrow> a = b"
  by (metis Decode_Encode outcome.inject(1) prod.inject)

section \<open>The median of timestamps\<close>

text \<open>\<open>int64\<close> arithmetic: results are reduced to the signed 64-bit range; division truncates
  towards zero.\<close>

definition wrap64 :: "int \<Rightarrow> int" where
  "wrap64 x = (x + 2 ^ 63) mod 2 ^ 64 - 2 ^ 63"

definition Median :: "int list \<Rightarrow> int" where
  "Median input =
     (let s = sort input; l = length s in
      if l = 0 then 0
      else if l mod 2 = 0 then
        (let mid = l div 2 - 1 in wrap64 (s ! mid + s ! (mid + 1)) sdiv 2)
      else s ! (l div 2))"

lemma wrap64_id: "- (2 ^ 63) \<le> x \<Longrightarrow> x < 2 ^ 63 \<Longrightarrow> wrap64 x = x"
  by (simp add: wrap64_def)

lemma length_filter_sort: "length (filter P (sort xs)) = length (filter P xs)"
  by (metis mset_filter mset_sort size_mset)

lemma sorted_low_count:
  assumes "sorted s" and "k < length s" and "s ! k < (lo :: int)"
  shows "k < length (filter (\<lambda>x. x < lo) s)"
proof -
  have "x < lo" if x: "x \<in> set (take (Suc k) s)" for x
  proof -
    from x assms(2) obtain i where "i < Suc k" and xi: "x = s ! i"
      by (auto simp: in_set_conv_nth)
    then have i: "i \<le> k" "x = s ! i" by simp_all
    have "s ! i \<le> s ! k" using assms(1) i(1) assms(2) by (rule sorted_nth_mono)
    then show ?thesis using i assms(3) by simp
  qed
  then have "length (filter (\<lambda>x. x < lo) (take (Suc k) s)) = Suc k"
    using assms(2) by (simp add: filter_id_conv [THEN iffD2])
  moreover have "length (filter (\<lambda>x. x < lo) (take (Suc k) s))
      + length (filter (\<lambda>x. x < lo) (drop (Suc k) s)) = length (filter (\<lambda>x. x < lo) s)"
    by (metis append_take_drop_id filter_append length_append)
  ultimately show ?thesis by simp
qed

lemma sorted_high_count:
  assumes "sorted s" and "k < length s" and "(hi :: int) < s ! k"
  shows "length s \<le> length (filter (\<lambda>x. hi < x) s) + k"
proof -
  have "hi < x" if x: "x \<in> set (drop k s)" for x
  proof -
    from x assms(2) obtain i where "i < length s - k" and xi: "x = s ! (k + i)"
      by (auto simp: in_set_conv_nth)
    then have i: "k + i < length s" "x = s ! (k + i)" by simp_all
    have "s ! k \<le> s ! (k + i)" using assms(1) _ i(1) by (rule sorted_nth_mono) simp
    then show ?thesis using i assms(3) by simp
  qed
  then have "length (filter (\<lambda>x. hi < x) (drop k s)) = length s - k"
    by (simp add: filter_id_conv [THEN iffD2])
  moreover have "length (filter (\<lambda>x. hi < x) (take k s))
      + length (filter (\<lambda>x. hi < x) (drop k s)) = length (filter (\<lambda>x. hi < x) s)"
    by (metis append_take_drop_id filter_append length_append)
  ultimately show ?thesis by simp
qed

lemma sorted_middle_range:
  assumes "sorted s" and "k < length s"
    and "length (filter (\<lambda>x. x < lo) s) \<le> k"
    and "length (filter (\<lambda>x. hi < x) s) + k < length s"
  shows "(lo :: int) \<le> s ! k \<and> s ! k \<le> hi"
  using assms sorted_low_count [of s k lo] sorted_high_count [of s k hi] by fastforce

lemma sdiv2_range:
  assumes "lo \<le> (x :: int)" and "x \<le> hi" and "lo \<le> y" and "y \<le> hi"
  shows "lo \<le> (x + y) sdiv 2 \<and> (x + y) sdiv 2 \<le> hi"
proof -
  have "(x + y) sdiv 2 = (if 0 \<le> x + y then (x + y) div 2 else - (- (x + y) div 2))"
    by (simp add: signed_divide_int_def sgn_if)
  moreover have "lo \<le> (x + y) div 2 \<and> (x + y) div 2 \<le> hi" using assms by linarith
  moreover have "- hi \<le> - (x + y) div 2 \<and> - (x + y) div 2 \<le> - lo" using assms by linarith
  ultimately show ?thesis by auto
qed

lemma Median_in_range:
  assumes minority: "2 * length (filter (\<lambda>t. t < lo \<or> hi < t) ts) < length ts"
    and "- (2 ^ 62) \<le> lo" and "hi < 2 ^ 62"
  shows "lo \<le> Median ts \<and> Median ts \<le> hi"
proof -
  define s where "s = sort ts"
  define l where "l = length s"
  have len: "l = length ts" by (simp add: l_def s_def)
  have "length (filter (\<lambda>t. t < lo) ts) \<le> length (filter (\<lambda>t. t < lo \<or> hi < t) ts)"
    "length (filter (\<lambda>t. hi < t) ts) \<le> length (filter (\<lambda>t. t < lo \<or> hi < t) ts)"
    by (induction ts) auto
  then have bad: "2 * length (filter (\<lambda>t. t < lo) s) < l" "2 * length (filter (\<lambda>t. hi < t) s) < l"
    using minority by (simp_all add: s_def length_filter_sort l_def)
  have mid: "lo \<le> s ! k \<and> s ! k \<le> hi" if "l \<le> 2 * k + 2" "2 * k \<le> l" "k < l" for k
    using that bad by (intro sorted_middle_range) (auto simp: s_def l_def)
  have pos: "0 < l" using minority len by (cases ts) auto
  then have "s \<noteq> []" by (auto simp: l_def)
  then have M: "Median ts = (if l mod 2 = 0
      then wrap64 (s ! (l div 2 - 1) + s ! (l div 2 - 1 + 1)) sdiv 2 else s ! (l div 2))"
    unfolding Median_def Let_def s_def [symmetric] l_def [symmetric]
    using \<open>0 < l\<close> by simp
  show ?thesis
  proof (cases "l mod 2 = 0")
    case False
    then have "l \<le> 2 * (l div 2) + 2" "2 * (l div 2) \<le> l" "l div 2 < l" using pos by auto
    then show ?thesis using mid [of "l div 2"] False by (simp add: M)
  next
    case True
    define m where "m = l div 2 - 1"
    have m: "l = 2 * m + 2" using True pos by (auto simp: m_def)
    have a: "lo \<le> s ! m \<and> s ! m \<le> hi" and b: "lo \<le> s ! (m + 1) \<and> s ! (m + 1) \<le> hi"
      using mid [of m] mid [of "m + 1"] m by auto
    then have "wrap64 (s ! m + s ! (m + 1)) = s ! m + s ! (m + 1)"
      using assms(2,3) by (intro wrap64_id) auto
    then have "Median ts = (s ! m + s ! (m + 1)) sdiv 2"
      using True unfolding M m_def by simp
    then show ?thesis using a b sdiv2_range [of lo "s ! m" hi "s ! (m + 1)"] by metis
  qed
qed

section \<open>Properties\<close>

text \<open>The median of timestamps lies between the bounds that a majority of them respects, whatever
  the minority says: fewer than half of the timestamps outside of an interval (within the range where
  the sum of two does not overflow) cannot move the median out of it.\<close>

theorem median_resists_minority:
  assumes "2 * length (filter (\<lambda>t. t < lo \<or> hi < t) ts) < length ts"
    and "- (2 ^ 62) \<le> lo" and "hi < 2 ^ 62"
  shows "lo \<le> Median ts \<and> Median ts \<le> hi"
  using assms by (rule Median_in_range)

theorem median_resists_minority_witness:
  "10 \<le> Median [10, 12, 99999, 11, -5] \<and> Median [10, 12, 99999, 11, -5] \<le> 12"
  using median_resists_minority [of 10 12 "[10, 12, 99999, 11, -5]"] by simp

text \<open>With timestamps beyond \<open>2^62\<close> the sum of the two middle values overflows: the median of
  two large equal timestamps is negative.\<close>

theorem median_overflow: "Median [2 ^ 62, 2 ^ 62] = - (2 ^ 62)"
  by (simp add: Median_def Let_def wrap64_def signed_divide_int_def)

end
