(* ===== verification/Keys.thy ===== *)
theory Keys
  imports Common
begin

text \<open>
  \<open>src/src/crypto/keys\<close>: the textual form of signatures (\<open>signature.go\<close>) and the numeric
  identifier of a public key (\<open>public_key.go\<close>), with the \<open>math/big\<close> and \<open>hash/fnv\<close> operations
  they use. The elliptic-curve primitives are parameters (theory \<open>Types\<close>).
\<close>

section \<open>Signatures as text\<close>

text \<open>\<open>big.Int.Text(36)\<close> and \<open>big.Int.SetString(s, 36)\<close>; \<open>None\<close> is the nil pointer that
  \<open>SetString\<close> returns when the text is not a number.\<close>

definition big_Text :: "int \<Rightarrow> string" where
  "big_Text i = (if i < 0 then CHR ''-'' # show_base 36 (nat (- i)) else show_base 36 (nat i))"

definition big_SetString :: "string \<Rightarrow> int option" where
  "big_SetString s =
     (case s of
        [] \<Rightarrow> None
      | c # t \<Rightarrow>
          if c = CHR ''-'' then map_option (\<lambda>n. - int n) (parse_base 36 t)
          else if c = CHR ''+'' then map_option int (parse_base 36 t)
          else map_option int (parse_base 36 s))"

text \<open>\<open>strings.Split(sig, "|")\<close>\<close>

fun split_bar :: "string \<Rightarrow> string list" where
  "split_bar [] = [[]]"
| "split_bar (c # s) =
     (if c = CHR ''|'' then [] # split_bar s
      else (case split_bar s of [] \<Rightarrow> [[c]] | p # ps \<Rightarrow> (c # p) # ps))"

definition EncodeSignature :: "int \<Rightarrow> int \<Rightarrow> string" where
  "EncodeSignature r s = big_Text r @ ''|'' @ big_Text s"

definition DecodeSignature :: "string \<Rightarrow> (int option \<times> int option) res" where
  "DecodeSignature sig =
     (case split_bar sig of
        [v0, v1] \<Rightarrow> Ok (big_SetString v0, big_SetString v1)
      | _ \<Rightarrow> Err (Errorf ''wrong number of values in signature''))"

lemma big_Text_chars: "CHR ''|'' \<notin> set (big_Text i)"
proof -
  have "CHR ''|'' \<notin> set (show_base 36 n)" for n
    using show_base_chars [of 36 "CHR ''|''" n] digit_char_not_special by fastforce
  then show ?thesis by (simp add: big_Text_def)
qed

lemma show_base36_head:
  "show_base 36 n = c # t \<Longrightarrow> c \<noteq> CHR ''-'' \<and> c \<noteq> CHR ''+''"
  using show_base_chars [of 36 c n] digit_char_not_special by fastforce

lemma big_SetString_Text: "big_SetString (big_Text i) = Some i"
proof (cases "i < 0")
  case True
  then show ?thesis by (simp add: big_Text_def big_SetString_def parse_show)
next
  case False
  obtain c t where ct: "show_base 36 (nat i) = c # t"
    by (cases "show_base 36 (nat i)") auto
  have "parse_base 36 (c # t) = Some (nat i)" by (simp add: ct [symmetric] parse_show)
  then show ?thesis using False ct show_base36_head [OF ct]
    by (simp add: big_Text_def big_SetString_def)
qed

lemma split_bar_no_bar: "CHR ''|'' \<notin> set s \<Longrightarrow> split_bar s = [s]"
  by (induction s) auto

lemma split_bar_append: "CHR ''|'' \<notin> set s \<Longrightarrow> split_bar (s @ CHR ''|'' # t) = s # split_bar t"
  by (induction s) auto

lemma Decode_EncodeSignature: "DecodeSignature (EncodeSignature r s) = Ok (Some r, Some s)"
  by (simp add: DecodeSignature_def EncodeSignature_def split_bar_append split_bar_no_bar
      big_Text_chars big_SetString_Text)

text \<open>\<open>DecodeSignature\<close> checks the number of parts and nothing else.\<close>

lemma DecodeSignature_Ok_iff: "is_Ok (DecodeSignature sig) \<longleftrightarrow> length (split_bar sig) = 2"
  by (auto simp: DecodeSignature_def length_Suc_conv numeral_2_eq_2 split: list.splits)

section \<open>Public key identifiers\<close>

text \<open>\<open>hash/fnv\<close>'s 32-bit FNV-1a: exclusive-or with the byte, then multiply, modulo \<open>2^32\<close>.\<close>

unbundle bit_operations_syntax

definition hash32 :: "byte list \<Rightarrow> 32 word" where
  "hash32 data = foldl (\<lambda>h c. (h XOR ucast c) * 16777619) 2166136261 data"

definition PublicKeyID :: "byte list \<Rightarrow> 32 word" where
  "PublicKeyID pubBytes = hash32 pubBytes"

section \<open>Properties\<close>

text \<open>A signature that is encoded as text and decoded again is the same pair of integers, and the
  text of one pair is never the text of another.\<close>

theorem signature_text_roundtrip:
  "DecodeSignature (EncodeSignature r s) = Ok (Some r, Some s) \<and>
   (EncodeSignature r s = EncodeSignature r' s' \<longleftrightarrow> r = r' \<and> s = s')"
  by (metis Decode_EncodeSignature Pair_inject option.inject outcome.inject(1))

end
