(* ===== verification/LRU_Cache.thy ===== *)
theory LRU_Cache
  imports Common
begin

text \<open>
  \<open>src/src/common/lru.go\<close>: the fixed-size least-recently-used cache.

  Go keeps a doubly linked \<open>evictList\<close> (front: most recently used) and a map \<open>items\<close> from a key
  to its list element. The model keeps the list; an element of \<open>items\<close> is the position of the
  key in it, so \<open>c.items[key]\<close> is \<open>map_of\<close> on the list. Operations that call \<open>onEvict\<close> return
  the entries the callback receives, in order, beside the new cache.

  The locale \<open>memo_cache\<close> is what the hashgraph relies on when it memoises a predicate: a hit is
  a value that was added. \<open>lru\<close> interprets it on this cache.
\<close>

section \<open>The cache\<close>

record ('k, 'v) LRU =
  lru_size :: nat
  lru_evictList :: "('k \<times> 'v) list"

definition NewLRU :: "nat \<Rightarrow> ('k, 'v) LRU" where
  "NewLRU n = \<lparr>lru_size = n, lru_evictList = []\<rparr>"

definition lru_lookup :: "('k, 'v) LRU \<Rightarrow> 'k \<Rightarrow> 'v option" where
  "lru_lookup c = map_of (lru_evictList c)"

definition Purge :: "('k, 'v) LRU \<Rightarrow> ('k, 'v) LRU \<times> ('k \<times> 'v) list" where
  "Purge c = (c\<lparr>lru_evictList := []\<rparr>, lru_evictList c)"

definition removeElement :: "'k \<Rightarrow> 'v \<Rightarrow> ('k, 'v) LRU \<Rightarrow> ('k, 'v) LRU \<times> ('k \<times> 'v) list" where
  "removeElement k v c = (c\<lparr>lru_evictList := AList.delete k (lru_evictList c)\<rparr>, [(k, v)])"

definition removeOldest :: "('k, 'v) LRU \<Rightarrow> ('k, 'v) LRU \<times> ('k \<times> 'v) list" where
  "removeOldest c =
     (case rev (lru_evictList c) of
        [] \<Rightarrow> (c, [])
      | (k, v) # _ \<Rightarrow> removeElement k v c)"

definition lru_Add :: "'k \<Rightarrow> 'v \<Rightarrow> ('k, 'v) LRU \<Rightarrow> bool \<times> ('k, 'v) LRU \<times> ('k \<times> 'v) list" where
  "lru_Add k v c =
     (case lru_lookup c k of
        Some _ \<Rightarrow>
          (False, c\<lparr>lru_evictList := (k, v) # AList.delete k (lru_evictList c)\<rparr>, [])
      | None \<Rightarrow>
          (let c' = c\<lparr>lru_evictList := (k, v) # lru_evictList c\<rparr>;
               evict = lru_size c' < length (lru_evictList c')
           in if evict then (evict, removeOldest c') else (evict, c', [])))"

definition lru_Get :: "'k \<Rightarrow> ('k, 'v) LRU \<Rightarrow> 'v option \<times> ('k, 'v) LRU" where
  "lru_Get k c =
     (case lru_lookup c k of
        Some v \<Rightarrow>
          (Some v, c\<lparr>lru_evictList := (k, v) # AList.delete k (lru_evictList c)\<rparr>)
      | None \<Rightarrow> (None, c))"

definition Contains :: "'k \<Rightarrow> ('k, 'v) LRU \<Rightarrow> bool" where
  "Contains k c \<longleftrightarrow> lru_lookup c k \<noteq> None"

definition Peek :: "'k \<Rightarrow> ('k, 'v) LRU \<Rightarrow> 'v option" where
  "Peek k c = lru_lookup c k"

definition lru_Remove :: "'k \<Rightarrow> ('k, 'v) LRU \<Rightarrow> bool \<times> ('k, 'v) LRU \<times> ('k \<times> 'v) list" where
  "lru_Remove k c =
     (case lru_lookup c k of
        Some v \<Rightarrow> (True, removeElement k v c)
      | None \<Rightarrow> (False, c, []))"

definition RemoveOldest ::
  "('k, 'v) LRU \<Rightarrow> ('k \<times> 'v) option \<times> ('k, 'v) LRU \<times> ('k \<times> 'v) list" where
  "RemoveOldest c =
     (case rev (lru_evictList c) of
        [] \<Rightarrow> (None, c, [])
      | (k, v) # _ \<Rightarrow> (Some (k, v), removeElement k v c))"

definition GetOldest :: "('k, 'v) LRU \<Rightarrow> ('k \<times> 'v) option" where
  "GetOldest c = (case rev (lru_evictList c) of [] \<Rightarrow> None | kv # _ \<Rightarrow> Some kv)"

definition lru_Keys :: "('k, 'v) LRU \<Rightarrow> 'k list" where
  "lru_Keys c = map fst (rev (lru_evictList c))"

definition lru_Len :: "('k, 'v) LRU \<Rightarrow> nat" where
  "lru_Len c = length (lru_evictList c)"

text \<open>A caller that holds a pointer obtained with \<open>Get\<close> and mutates the object changes the cached
  value without touching the recency order. \<open>lru_poke\<close> is that write.\<close>

definition lru_poke :: "'k \<Rightarrow> 'v \<Rightarrow> ('k, 'v) LRU \<Rightarrow> ('k, 'v) LRU" where
  "lru_poke k v c =
     c\<lparr>lru_evictList := map (\<lambda>(k', v'). if k' = k then (k', v) else (k', v')) (lru_evictList c)\<rparr>"

text \<open>The cache after a call whose results are not used.\<close>

abbreviation lru_add :: "'k \<Rightarrow> 'v \<Rightarrow> ('k, 'v) LRU \<Rightarrow> ('k, 'v) LRU" where
  "lru_add k v c \<equiv> fst (snd (lru_Add k v c))"

abbreviation lru_touch :: "'k \<Rightarrow> ('k, 'v) LRU \<Rightarrow> ('k, 'v) LRU" where
  "lru_touch k c \<equiv> snd (lru_Get k c)"

section \<open>Invariant and laws\<close>

definition lru_inv :: "('k, 'v) LRU \<Rightarrow> bool" where
  "lru_inv c \<longleftrightarrow> distinct (map fst (lru_evictList c)) \<and> length (lru_evictList c) \<le> lru_size c"

lemma removeOldest_list:
  assumes "distinct (map fst (lru_evictList c))"
  shows "lru_evictList (fst (removeOldest c)) = butlast (lru_evictList c)"
proof (cases "lru_evictList c" rule: rev_cases)
  case Nil
  then show ?thesis by (simp add: removeOldest_def)
next
  case (snoc xs x)
  then have "AList.delete (fst x) xs = xs"
    using assms by (intro length_delete_absent) (auto simp: map_of_eq_None_iff)
  then show ?thesis using snoc
    by (cases x) (simp add: removeOldest_def removeElement_def AList.delete_eq)
qed

lemma removeOldest_size [simp]: "lru_size (fst (removeOldest c)) = lru_size c"
  by (auto simp: removeOldest_def removeElement_def split: list.splits prod.splits)

lemma lru_Add_size [simp]: "lru_size (lru_add k v c) = lru_size c"
  by (auto simp: lru_Add_def Let_def split: option.splits)

lemma lru_Get_size [simp]: "lru_size (lru_touch k c) = lru_size c"
  by (auto simp: lru_Get_def split: option.splits)

lemma lru_poke_size [simp]: "lru_size (lru_poke k v c) = lru_size c"
  by (simp add: lru_poke_def)

lemma lru_inv_New: "lru_inv (NewLRU n)"
  by (simp add: lru_inv_def NewLRU_def)

text \<open>The list after \<open>Add\<close>: a hit moves the entry to the front, a miss pushes it and drops the
  last entry when the cache is full.\<close>

lemma lru_Add_list:
  assumes "lru_inv c"
  shows "lru_evictList (lru_add k v c) =
    (if lru_lookup c k \<noteq> None then (k, v) # AList.delete k (lru_evictList c)
     else if length (lru_evictList c) < lru_size c then (k, v) # lru_evictList c
     else butlast ((k, v) # lru_evictList c))"
proof (cases "lru_lookup c k")
  case (Some w)
  then show ?thesis by (simp add: lru_Add_def)
next
  case None
  then have "distinct (map fst ((k, v) # lru_evictList c))"
    using assms by (auto simp: lru_inv_def lru_lookup_def map_of_eq_None_iff)
  then show ?thesis using None
    by (auto simp: lru_Add_def Let_def removeOldest_list)
qed

lemma lru_inv_Add:
  assumes "lru_inv c"
  shows "lru_inv (lru_add k v c)"
proof (cases "lru_lookup c k")
  case (Some w)
  then show ?thesis
    using assms length_delete_present [of "lru_evictList c" k w]
    by (auto simp: lru_inv_def lru_Add_list [OF assms] lru_lookup_def distinct_fst_delete)
next
  case None
  define l where "l = (k, v) # lru_evictList c"
  have d: "distinct (map fst l)"
    using assms None by (auto simp: l_def lru_inv_def lru_lookup_def map_of_eq_None_iff)
  then have "distinct (map fst (butlast l))" by (simp add: map_butlast distinct_butlast)
  moreover have "length (butlast l) = length (lru_evictList c)"
    by (simp only: l_def length_butlast) simp
  moreover have "lru_evictList (lru_add k v c) =
      (if length (lru_evictList c) < lru_size c then l else butlast l)"
    using None by (simp only: lru_Add_list [OF assms] l_def) simp
  moreover have "length l = Suc (length (lru_evictList c))" by (simp add: l_def)
  ultimately show ?thesis using assms d by (auto simp: lru_inv_def)
qed

lemma lru_Get_list:
  "lru_evictList (lru_touch k c) =
    (case lru_lookup c k of None \<Rightarrow> lru_evictList c
     | Some v \<Rightarrow> (k, v) # AList.delete k (lru_evictList c))"
  by (auto simp: lru_Get_def split: option.splits)

lemma lru_lookup_touch [simp]: "lru_lookup (lru_touch k c) = lru_lookup c"
  by (rule ext) (auto simp: lru_lookup_def lru_Get_def split: option.splits)

lemma lru_Get_fst [simp]: "fst (lru_Get k c) = lru_lookup c k"
  by (auto simp: lru_Get_def split: option.splits)

lemma lru_inv_Get: "lru_inv c \<Longrightarrow> lru_inv (lru_touch k c)"
  using length_delete_present [of "lru_evictList c" k]
  by (auto simp: lru_inv_def lru_Get_list lru_lookup_def distinct_fst_delete split: option.splits)

lemma lru_touch_length: "lru_inv c \<Longrightarrow> lru_Len (lru_touch k c) = lru_Len c"
  using length_delete_present [of "lru_evictList c" k]
  by (auto simp: lru_Len_def lru_inv_def lru_Get_list lru_lookup_def split: option.splits)

lemma lru_poke_keys [simp]: "map fst (lru_evictList (lru_poke k v c)) = map fst (lru_evictList c)"
  by (auto simp: lru_poke_def)

lemma lru_poke_Len [simp]: "lru_Len (lru_poke k v c) = lru_Len c"
  by (simp add: lru_Len_def lru_poke_def)

lemma lru_inv_poke: "lru_inv c \<Longrightarrow> lru_inv (lru_poke k v c)"
  by (metis lru_inv_def lru_poke_keys lru_poke_size length_map)

lemma map_of_poke:
  "map_of (map (\<lambda>(k', v'). if k' = k then (k', v) else (k', v')) l) k' =
    (if k' = k \<and> map_of l k \<noteq> None then Some v else map_of l k')"
  by (induction l) auto

lemma lru_lookup_poke [simp]:
  "lru_lookup (lru_poke k v c) k' =
    (if k' = k \<and> lru_lookup c k \<noteq> None then Some v else lru_lookup c k')"
  by (simp add: lru_lookup_def lru_poke_def map_of_poke)

lemma map_of_butlast_Some:
  assumes "distinct (map fst l)" and "map_of (butlast l) k = Some v"
  shows "map_of l k = Some v"
proof (cases l rule: rev_cases)
  case (snoc xs x)
  then show ?thesis using assms
    by (auto simp: map_add_def map_of_eq_None_iff split: option.splits dest: map_of_SomeD)
qed (use assms in simp)

text \<open>A hit after \<open>Add\<close> is the added entry or an old one; with room, nothing is lost.\<close>

lemma lru_lookup_Add_sound:
  assumes "lru_inv c" and "lru_lookup (lru_add k v c) k' = Some w"
  shows "(k' = k \<and> w = v) \<or> (k' \<noteq> k \<and> lru_lookup c k' = Some w)"
proof (cases "lru_lookup c k \<noteq> None")
  case True
  then show ?thesis using assms lru_Add_list [OF assms(1), of k v]
    by (auto simp: lru_lookup_def split: if_splits)
next
  case False
  then have "distinct (map fst ((k, v) # lru_evictList c))"
    using assms by (auto simp: lru_inv_def lru_lookup_def map_of_eq_None_iff)
  then show ?thesis
    using assms False lru_Add_list [OF assms(1), of k v]
      map_of_butlast_Some [of "(k, v) # lru_evictList c" k' w]
    by (auto simp: lru_lookup_def split: if_splits)
qed

lemma lru_lookup_Add_room:
  assumes "lru_inv c" and "lru_Len c < lru_size c \<or> lru_lookup c k \<noteq> None"
  shows "lru_lookup (lru_add k v c) = (lru_lookup c)(k \<mapsto> v)"
  using assms lru_Add_list [OF assms(1), of k v]
  by (intro ext) (auto simp: lru_lookup_def lru_Len_def)

lemma lru_Add_Len:
  assumes "lru_inv c"
  shows "lru_Len (lru_add k v c) =
    (if lru_lookup c k \<noteq> None \<or> \<not> lru_Len c < lru_size c then lru_Len c else Suc (lru_Len c))"
  using assms length_delete_present [of "lru_evictList c" k]
  by (auto simp: lru_Len_def lru_Add_list lru_inv_def lru_lookup_def)

section \<open>The contract of a memo table\<close>

locale memo_cache =
  fixes lookup :: "'c \<Rightarrow> 'k \<Rightarrow> 'v option"
    and add :: "'k \<Rightarrow> 'v \<Rightarrow> 'c \<Rightarrow> 'c"
    and touch :: "'k \<Rightarrow> 'c \<Rightarrow> 'c"
    and invar :: "'c \<Rightarrow> bool"
  assumes hit_was_added:
      "invar c \<Longrightarrow> lookup (add k v c) k' = Some w \<Longrightarrow>
        (k' = k \<and> w = v) \<or> (k' \<noteq> k \<and> lookup c k' = Some w)"
    and lookup_touch: "lookup (touch k c) = lookup c"
    and invar_add: "invar c \<Longrightarrow> invar (add k v c)"
    and invar_touch: "invar c \<Longrightarrow> invar (touch k c)"
begin

text \<open>If every cached value satisfies \<open>Q\<close> and the added one does, every cached value still does,
  whatever was evicted.\<close>

lemma coherent_add:
  assumes "invar c" and "\<And>k w. lookup c k = Some w \<Longrightarrow> Q k w" and "Q k v"
    and "lookup (add k v c) k' = Some w"
  shows "Q k' w"
  using hit_was_added [OF assms(1,4)] assms(2,3) by blast

lemma coherent_touch:
  assumes "\<And>k w. lookup c k = Some w \<Longrightarrow> Q k w" and "lookup (touch k c) k' = Some w"
  shows "Q k' w"
  using assms by (simp add: lookup_touch)

end

interpretation lru: memo_cache lru_lookup lru_add lru_touch lru_inv
  by unfold_locales
    (auto dest: lru_lookup_Add_sound intro: lru_inv_Add lru_inv_Get)

section \<open>Tables of known results\<close>

text \<open>A table whose entries all satisfy \<open>F\<close>, and whose recency list is in order.\<close>

definition memo_ok :: "('k \<Rightarrow> 'v \<Rightarrow> bool) \<Rightarrow> ('k, 'v) LRU \<Rightarrow> bool" where
  "memo_ok F c \<longleftrightarrow> lru_inv c \<and> (\<forall>k v. lru_lookup c k = Some v \<longrightarrow> F k v)"

lemma memo_okD: "memo_ok F c \<Longrightarrow> lru_lookup c k = Some v \<Longrightarrow> F k v"
  by (simp add: memo_ok_def)

lemma memo_ok_New: "memo_ok F (NewLRU n)"
  by (simp add: memo_ok_def lru_inv_New) (simp add: lru_lookup_def NewLRU_def)

lemma memo_ok_touch: "memo_ok F c \<Longrightarrow> memo_ok F (lru_touch k c)"
  using lru.coherent_touch [of c F k] by (auto simp: memo_ok_def lru_inv_Get)

lemma memo_ok_add:
  assumes "memo_ok F c" and "F k v"
  shows "memo_ok F (lru_add k v c)"
  using assms lru.coherent_add [of c F k v] by (simp add: memo_ok_def lru_inv_Add)

lemma memo_ok_mono: "memo_ok F c \<Longrightarrow> (\<And>k v. F k v \<Longrightarrow> G k v) \<Longrightarrow> memo_ok G c"
  by (auto simp: memo_ok_def)

section \<open>Runs of the cache\<close>

text \<open>The calls that change a cache, and the unbounded map that a cache forgets from.\<close>

datatype ('k, 'v) lru_op = OpAdd 'k 'v | OpGet 'k | OpRemove 'k | OpRemoveOldest | OpPurge

fun lru_step :: "('k, 'v) lru_op \<Rightarrow> ('k, 'v) LRU \<Rightarrow> ('k, 'v) LRU" where
  "lru_step (OpAdd k v) c = fst (snd (lru_Add k v c))"
| "lru_step (OpGet k) c = snd (lru_Get k c)"
| "lru_step (OpRemove k) c = fst (snd (lru_Remove k c))"
| "lru_step OpRemoveOldest c = fst (snd (RemoveOldest c))"
| "lru_step OpPurge c = fst (Purge c)"

fun map_step :: "('k, 'v) lru_op \<Rightarrow> ('k \<Rightarrow> 'v option) \<Rightarrow> 'k \<Rightarrow> 'v option" where
  "map_step (OpAdd k v) m = m(k \<mapsto> v)"
| "map_step (OpRemove k) m = m(k := None)"
| "map_step OpPurge m = Map.empty"
| "map_step _ m = m"

lemma lru_delete_facts:
  assumes "lru_inv c"
  shows "lru_inv (c\<lparr>lru_evictList := AList.delete k (lru_evictList c)\<rparr>)"
    and "lru_lookup (c\<lparr>lru_evictList := AList.delete k (lru_evictList c)\<rparr>) = (lru_lookup c)(k := None)"
  using assms length_delete_le [of k "lru_evictList c"]
  by (auto simp: lru_inv_def lru_lookup_def distinct_fst_delete fun_eq_iff)

lemma lru_step_simulates:
  assumes inv: "lru_inv c" and le: "lru_lookup c \<subseteq>\<^sub>m m"
  shows "lru_inv (lru_step op c) \<and> lru_size (lru_step op c) = lru_size c \<and>
    lru_lookup (lru_step op c) \<subseteq>\<^sub>m map_step op m"
proof (cases op)
  case (OpAdd k v)
  have "lru_lookup (lru_add k v c) \<subseteq>\<^sub>m m(k \<mapsto> v)"
    using lru_lookup_Add_sound [OF inv, of k v] le by (fastforce simp: map_le_def dom_def)
  then show ?thesis using inv OpAdd by (simp add: lru_inv_Add)
next
  case (OpGet k)
  then show ?thesis using inv le by (simp add: lru_inv_Get)
next
  case (OpRemove k)
  then show ?thesis using lru_delete_facts [OF inv, of k] le
    by (auto simp: lru_Remove_def removeElement_def inv map_le_def split: option.splits)
next
  case OpRemoveOldest
  then show ?thesis using lru_delete_facts [OF inv] le
    by (auto simp: RemoveOldest_def removeElement_def inv map_le_def split: list.splits if_splits)
      (metis domI)
next
  case OpPurge
  then show ?thesis by (simp add: Purge_def lru_inv_def lru_lookup_def)
qed

text \<open>Through any run of calls, a cache of size \<open>n\<close> never holds more than \<open>n\<close> entries, and it
  is a forgetful map: whatever it answers is the value that an unbounded map would answer after the
  same calls.\<close>

theorem lru_refines_map:
  fixes ops :: "('k, 'v) lru_op list"
  shows "lru_Len (fold lru_step ops (NewLRU n)) \<le> n \<and>
    lru_lookup (fold lru_step ops (NewLRU n)) \<subseteq>\<^sub>m fold map_step ops Map.empty"
proof -
  have "lru_inv (fold lru_step ops c) \<and> lru_size (fold lru_step ops c) = lru_size c \<and>
      lru_lookup (fold lru_step ops c) \<subseteq>\<^sub>m fold map_step ops m"
    if "lru_inv c" "lru_lookup c \<subseteq>\<^sub>m m" for c :: "('k, 'v) LRU" and m
    using that
  proof (induction ops arbitrary: c m)
    case (Cons op ops)
    then show ?case using lru_step_simulates [of c m op] by auto
  qed simp
  from this [of "NewLRU n" Map.empty] show ?thesis
    by (simp add: lru_inv_New) (simp add: lru_inv_def lru_Len_def lru_lookup_def NewLRU_def)
qed

text \<open>When a full cache takes a new key, the entry it drops is the least recently used one, and
  every other entry stays.\<close>

theorem lru_evicts_oldest:
  assumes "lru_inv c" and "lru_lookup c k = None" and "lru_Len c = lru_size c" and "0 < lru_size c"
    and "GetOldest c = Some (k0, v0)"
  shows "lru_lookup (fst (snd (lru_Add k v c))) = (lru_lookup c)(k0 := None, k \<mapsto> v) \<and>
    fst (lru_Add k v c) \<and> snd (snd (lru_Add k v c)) = [(k0, v0)]"
proof -
  obtain xs where xs: "lru_evictList c = xs @ [(k0, v0)]"
    using assms(5) by (auto simp: GetOldest_def split: list.splits)
  have dist: "distinct (map fst (xs @ [(k0, v0)]))" using assms(1) xs by (simp add: lru_inv_def)
  then have del: "AList.delete k0 (xs @ [(k0, v0)]) = xs"
    by (simp add: AList.delete_eq) (force intro: filter_True)
  have k: "k \<noteq> k0" using assms(2) xs by (auto simp: lru_lookup_def map_add_def split: option.splits)
  have run: "lru_Add k v c = (True, c\<lparr>lru_evictList := (k, v) # xs\<rparr>, [(k0, v0)])"
    using assms(2-4) k del
    by (simp add: lru_Add_def Let_def removeOldest_def removeElement_def xs lru_Len_def)
  have "map_of xs k0 = None" using dist by (auto simp: map_of_eq_None_iff)
  then show ?thesis using k by (auto simp: run lru_lookup_def xs fun_eq_iff map_add_def split: option.splits)
qed

theorem lru_evicts_oldest_witness:
  "lru_lookup (fst (snd (lru_Add 3 ''c'' (lru_add 2 ''b'' (lru_add 1 ''a'' (NewLRU 2)))))) =
     (lru_lookup (lru_add 2 ''b'' (lru_add 1 ''a'' (NewLRU 2))))(1 := None, (3 :: nat) \<mapsto> ''c'')"
  using lru_evicts_oldest [of "lru_add 2 ''b'' (lru_add 1 ''a'' (NewLRU 2))" "3 :: nat" 1 "''a''" "''c''"]
  by (simp add: lru_inv_Add lru_inv_New)
    (simp add: lru_lookup_def lru_Len_def GetOldest_def lru_Add_def NewLRU_def)

end
