(* ===== verification/Rolling_Index.thy ===== *)
theory Rolling_Index
  imports Common
begin

text \<open>
  \<open>src/src/common/rolling_index.go\<close> and \<open>rolling_index_map.go\<close>: a FIFO window of items with
  consecutive indexes, which drops its older half when it is full, and a collection of such
  windows by key.

  \<open>ri_abs\<close> reads a window as a partial sequence from indexes to items. The functional
  behaviour of every operation is stated against it, and the locale \<open>append_window\<close> gives the
  callers' view: appending at \<open>last + 1\<close> always works and makes the item the last one.
\<close>

section \<open>RollingIndex\<close>

record 'v RollingIndex =
  ri_name :: string
  ri_size :: nat
  ri_lastIndex :: int
  ri_items :: "'v list"

definition NewRollingIndex :: "string \<Rightarrow> nat \<Rightarrow> 'v RollingIndex" where
  "NewRollingIndex name n =
     \<lparr>ri_name = name, ri_size = n, ri_lastIndex = -1, ri_items = []\<rparr>"

definition GetLastWindow :: "'v RollingIndex \<Rightarrow> 'v list \<times> int" where
  "GetLastWindow r = (ri_items r, ri_lastIndex r)"

definition ri_Get :: "'v RollingIndex \<Rightarrow> int \<Rightarrow> 'v list res" where
  "ri_Get r skipIndex =
     (if skipIndex > ri_lastIndex r then Ok []
      else
        (let cachedItems = int (length (ri_items r));
             oldestCachedIndex = ri_lastIndex r - cachedItems + 1
         in if skipIndex + 1 < oldestCachedIndex
            then Err (NewStoreErr (ri_name r) TooLate (itoa skipIndex))
            else (let start = skipIndex - oldestCachedIndex + 1
                  in Ok (drop (nat start) (ri_items r)))))"

definition ri_GetItem :: "'v RollingIndex \<Rightarrow> int \<Rightarrow> 'v res" where
  "ri_GetItem r index =
     (let items = int (length (ri_items r));
          oldestCached = ri_lastIndex r - items + 1
      in if index < oldestCached
         then Err (NewStoreErr (ri_name r) TooLate (itoa index))
         else (let findex = index - oldestCached
               in if findex \<ge> items
                  then Err (NewStoreErr (ri_name r) KeyNotFound (itoa index))
                  else Ok (ri_items r ! nat findex)))"

definition roll :: "'v RollingIndex \<Rightarrow> 'v RollingIndex" where
  "roll r = r\<lparr>ri_items := drop (ri_size r div 2) (ri_items r)\<rparr>"

definition ri_Set :: "'v \<Rightarrow> int \<Rightarrow> ('v RollingIndex, unit) go" where
  "ri_Set item index r =
     (if 0 \<le> ri_lastIndex r \<and> index > ri_lastIndex r + 1
      then (Err (NewStoreErr (ri_name r) SkippedIndex (itoa index)), r)
      else if ri_lastIndex r < 0 \<or> index = ri_lastIndex r + 1
      then (let r' = (if length (ri_items r) \<ge> ri_size r then roll r else r)
            in (Ok (), r'\<lparr>ri_items := ri_items r' @ [item], ri_lastIndex := index\<rparr>))
      else
        (let cachedItems = int (length (ri_items r));
             oldestCachedIndex = ri_lastIndex r - cachedItems + 1
         in if index < oldestCachedIndex
            then (Err (NewStoreErr (ri_name r) TooLate (itoa index)), r)
            else (let position = index - oldestCachedIndex
                  in (Ok (), r\<lparr>ri_items := (ri_items r)[nat position := item]\<rparr>))))"

subsection \<open>The window as a partial sequence\<close>

definition ri_oldest :: "'v RollingIndex \<Rightarrow> int" where
  "ri_oldest r = ri_lastIndex r - int (length (ri_items r)) + 1"

definition ri_abs :: "'v RollingIndex \<Rightarrow> int \<Rightarrow> 'v option" where
  "ri_abs r i =
     (if ri_oldest r \<le> i \<and> i \<le> ri_lastIndex r
      then Some (ri_items r ! nat (i - ri_oldest r)) else None)"

definition ri_wf :: "'v RollingIndex \<Rightarrow> bool" where
  "ri_wf r \<longleftrightarrow> (ri_items r = [] \<longleftrightarrow> ri_lastIndex r = -1) \<and> -1 \<le> ri_lastIndex r \<and> 0 \<le> ri_oldest r"

lemma ri_wf_New: "ri_wf (NewRollingIndex name n)"
  by (simp add: ri_wf_def NewRollingIndex_def ri_oldest_def)

text \<open>\<open>GetItem\<close> is a lookup in the sequence: a hit exactly inside the window, \<open>TooLate\<close> below it,
  \<open>KeyNotFound\<close> above it.\<close>

lemma ri_GetItem_abs:
  "ri_GetItem r i =
     (case ri_abs r i of
        Some v \<Rightarrow> Ok v
      | None \<Rightarrow> Err (NewStoreErr (ri_name r)
                     (if i < ri_oldest r then TooLate else KeyNotFound) (itoa i)))"
  by (auto simp: ri_GetItem_def ri_abs_def ri_oldest_def Let_def)

text \<open>\<open>Get\<close> returns the items after \<open>skipIndex\<close>, in index order, and fails exactly when some of
  them were evicted.\<close>

lemma ri_Get_cases:
  assumes "skip \<le> ri_lastIndex r"
  shows "ri_Get r skip =
     (if skip + 1 < ri_oldest r then Err (NewStoreErr (ri_name r) TooLate (itoa skip))
      else Ok (drop (nat (skip + 1 - ri_oldest r)) (ri_items r)))"
  using assms unfolding ri_Get_def Let_def ri_oldest_def [symmetric]
  by (simp add: diff_add_eq)

lemma ri_Get_nth:
  assumes "ri_Get r skip = Ok xs"
  shows "int (length xs) = max 0 (ri_lastIndex r - skip)"
    and "k < length xs \<Longrightarrow> ri_abs r (skip + 1 + int k) = Some (xs ! k)"
proof -
  show "int (length xs) = max 0 (ri_lastIndex r - skip)"
  proof (cases "skip \<le> ri_lastIndex r")
    case True
    then show ?thesis using assms
      by (auto simp: ri_Get_cases ri_oldest_def split: if_splits)
  next
    case False
    then show ?thesis using assms by (auto simp: ri_Get_def)
  qed
  assume k: "k < length xs"
  then have skip: "skip \<le> ri_lastIndex r" using assms by (cases "skip \<le> ri_lastIndex r") (auto simp: ri_Get_def)
  then have "ri_oldest r \<le> skip + 1" and xs: "xs = drop (nat (skip + 1 - ri_oldest r)) (ri_items r)"
    using assms by (auto simp: ri_Get_cases split: if_splits)
  moreover have "nat (skip + 1 + int k - ri_oldest r) = nat (skip + 1 - ri_oldest r) + k"
    using \<open>ri_oldest r \<le> skip + 1\<close> by simp
  moreover have "skip + 1 + int k \<le> ri_lastIndex r"
    using k xs \<open>ri_oldest r \<le> skip + 1\<close> by (simp add: ri_oldest_def)
  ultimately show "ri_abs r (skip + 1 + int k) = Some (xs ! k)"
    using k by (simp add: ri_abs_def)
qed

lemma ri_Set_append:
  assumes "ri_lastIndex r < 0 \<or> index = ri_lastIndex r + 1"
  shows "ri_Set item index r =
    (Ok (), r\<lparr>ri_items := drop (if length (ri_items r) \<ge> ri_size r then ri_size r div 2 else 0)
                          (ri_items r) @ [item],
             ri_lastIndex := index\<rparr>)"
  using assms by (auto simp: ri_Set_def Let_def roll_def)

text \<open>Appending keeps every item that stays in the window and puts the new one at the end.\<close>

lemma ri_Set_append_abs:
  assumes "ri_wf r" and "index = ri_lastIndex r + 1" and "ri_Set item index r = (Ok (), r')"
  shows "ri_abs r' = (\<lambda>i. if i = index then Some item
           else if ri_oldest r' \<le> i then ri_abs r i else None)"
    and "ri_lastIndex r' = index" and "ri_oldest r \<le> ri_oldest r'" and "ri_wf r'"
proof -
  define d where "d = (if length (ri_items r) \<ge> ri_size r then ri_size r div 2 else 0)"
  have r': "r' = r\<lparr>ri_items := drop d (ri_items r) @ [item], ri_lastIndex := index\<rparr>"
    using assms(2,3) by (simp add: ri_Set_append d_def)
  have d: "d \<le> length (ri_items r)" by (auto simp: d_def)
  show last: "ri_lastIndex r' = index" by (simp add: r')
  have old: "ri_oldest r' = ri_oldest r + int d"
    using d assms(2) by (simp add: r' ri_oldest_def)
  then show "ri_oldest r \<le> ri_oldest r'" by simp
  show "ri_wf r'" using assms(1,2) d old last by (auto simp: ri_wf_def r' ri_oldest_def)
  show "ri_abs r' = (\<lambda>i. if i = index then Some item
           else if ri_oldest r' \<le> i then ri_abs r i else None)"
  proof (rule ext)
    fix i
    have len: "int (length (ri_items r)) = ri_lastIndex r - ri_oldest r + 1"
      by (simp add: ri_oldest_def)
    have split: "nat (i - ri_oldest r) = d + nat (i - ri_oldest r')" if "ri_oldest r' \<le> i"
      using that by (simp add: old)
    have nth: "(drop d (ri_items r) @ [item]) ! nat (i - ri_oldest r') =
        (if i = index then item else ri_items r ! nat (i - ri_oldest r))"
      if "ri_oldest r' \<le> i" "i \<le> index"
    proof -
      have "nat (i - ri_oldest r') < length (ri_items r) - d \<longleftrightarrow> i \<noteq> index"
        using that d len assms(2) by (auto simp: old)
      moreover have "nat (index - ri_oldest r') = length (ri_items r) - d"
        using d len assms(2) by (simp add: old nat_diff_distrib)
      ultimately show ?thesis
        using d split [OF that(1)] by (auto simp: nth_append)
    qed
    then show "ri_abs r' i = (if i = index then Some item
           else if ri_oldest r' \<le> i then ri_abs r i else None)"
      using last old len d assms(2) unfolding ri_abs_def by (auto simp: r')
  qed
qed

text \<open>Writing inside the window replaces one item and nothing else.\<close>

lemma ri_Set_replace_abs:
  assumes "0 \<le> ri_lastIndex r" and "ri_oldest r \<le> index" and "index \<le> ri_lastIndex r"
  shows "\<exists>r'. ri_Set item index r = (Ok (), r') \<and> ri_abs r' = (ri_abs r)(index \<mapsto> item)
    \<and> ri_lastIndex r' = ri_lastIndex r \<and> ri_oldest r' = ri_oldest r"
proof -
  define r' where "r' = r\<lparr>ri_items := (ri_items r)[nat (index - ri_oldest r) := item]\<rparr>"
  have "ri_Set item index r = (Ok (), r')"
    using assms by (simp add: ri_Set_def ri_oldest_def Let_def r'_def)
  moreover have old: "ri_oldest r' = ri_oldest r" by (simp add: r'_def ri_oldest_def)
  moreover have "ri_abs r' = (ri_abs r)(index \<mapsto> item)"
  proof (rule ext)
    fix i
    have "nat (index - ri_oldest r) < length (ri_items r)"
      using assms by (simp add: ri_oldest_def)
    moreover have "ri_items r' = (ri_items r)[nat (index - ri_oldest r) := item]"
        "ri_lastIndex r' = ri_lastIndex r"
      by (simp_all add: r'_def)
    ultimately show "ri_abs r' i = ((ri_abs r)(index \<mapsto> item)) i"
      using assms by (auto simp: ri_abs_def old nth_list_update eq_nat_nat_iff)
  qed
  ultimately show ?thesis by (auto simp: r'_def)
qed

text \<open>The window never holds more than \<open>size\<close> items, provided \<open>size\<close> is at least two: \<open>roll\<close>
  drops \<open>size/2\<close> items, which is nothing for a smaller size.\<close>

lemma ri_Set_bounded:
  assumes "2 \<le> ri_size r" and "length (ri_items r) \<le> ri_size r" and "ri_Set item index r = (res, r')"
  shows "length (ri_items r') \<le> ri_size r' \<and> ri_size r' = ri_size r"
  using assms by (auto simp: ri_Set_def Let_def roll_def split: if_splits)

section \<open>The callers' contract\<close>

locale append_window =
  fixes abs_seq :: "'r \<Rightarrow> int \<Rightarrow> 'v option"
    and last_ix :: "'r \<Rightarrow> int"
    and put :: "'v \<Rightarrow> int \<Rightarrow> 'r \<Rightarrow> unit res \<times> 'r"
    and wf :: "'r \<Rightarrow> bool"
  assumes put_next: "wf r \<Longrightarrow> \<exists>r'. put v (last_ix r + 1) r = (Ok (), r') \<and> wf r'
      \<and> last_ix r' = last_ix r + 1 \<and> abs_seq r' (last_ix r + 1) = Some v"
begin

fun put_all :: "'v list \<Rightarrow> 'r \<Rightarrow> 'r" where
  "put_all [] r = r"
| "put_all (v # vs) r = put_all vs (snd (put v (last_ix r + 1) r))"

text \<open>A run of appends never fails; its last item is where the next reader looks for it.\<close>

lemma put_all_last:
  assumes "wf r"
  shows "wf (put_all vs r) \<and> last_ix (put_all vs r) = last_ix r + int (length vs)
    \<and> (vs \<noteq> [] \<longrightarrow> abs_seq (put_all vs r) (last_ix (put_all vs r)) = Some (last vs))"
  using assms
proof (induction vs arbitrary: r)
  case Nil
  then show ?case by simp
next
  case (Cons v vs)
  obtain r' where r': "put v (last_ix r + 1) r = (Ok (), r')" "wf r'"
      "last_ix r' = last_ix r + 1" "abs_seq r' (last_ix r + 1) = Some v"
    using put_next [OF Cons.prems] by blast
  show ?case using Cons.IH [OF r'(2)] r' by auto
qed

end

interpretation rolling: append_window ri_abs ri_lastIndex ri_Set ri_wf
proof unfold_locales
  fix r :: "'b RollingIndex" and v
  assume wf: "ri_wf r"
  obtain r' where r': "ri_Set v (ri_lastIndex r + 1) r = (Ok (), r')"
    by (simp add: ri_Set_append)
  note facts = ri_Set_append_abs [OF wf refl r']
  then show "\<exists>r'. ri_Set v (ri_lastIndex r + 1) r = (Ok (), r') \<and> ri_wf r'
      \<and> ri_lastIndex r' = ri_lastIndex r + 1 \<and> ri_abs r' (ri_lastIndex r + 1) = Some v"
    using r' by simp
qed

section \<open>RollingIndexMap\<close>

record 'v RollingIndexMap =
  rim_name :: string
  rim_size :: nat
  rim_keys :: "32 word list"
  rim_mapping :: "(32 word \<times> 'v RollingIndex) list"

definition show_u32 :: "32 word \<Rightarrow> string" where
  "show_u32 k = show_base 10 (unat k)"

lemma show_u32_code [code]: "show_u32 w = show_int_base 10 (uint w)"
  by (simp add: show_u32_def show_base_int)

definition NewRollingIndexMap :: "string \<Rightarrow> nat \<Rightarrow> 'v RollingIndexMap" where
  "NewRollingIndexMap name n =
     \<lparr>rim_name = name, rim_size = n, rim_keys = [], rim_mapping = []\<rparr>"

definition rim_fresh :: "32 word \<Rightarrow> 'v RollingIndexMap \<Rightarrow> 'v RollingIndex" where
  "rim_fresh k rim = NewRollingIndex (rim_name rim @ ''['' @ show_u32 k @ '']'') (rim_size rim)"

definition AddKey :: "32 word \<Rightarrow> ('v RollingIndexMap, unit) go" where
  "AddKey k rim =
     (if map_of (rim_mapping rim) k \<noteq> None
      then (Err (NewStoreErr (rim_name rim) KeyAlreadyExists (show_u32 k)), rim)
      else (Ok (), rim\<lparr>rim_keys := rim_keys rim @ [k],
                      rim_mapping := AList.update k (rim_fresh k rim) (rim_mapping rim)\<rparr>))"

definition rim_Get :: "'v RollingIndexMap \<Rightarrow> 32 word \<Rightarrow> int \<Rightarrow> 'v list res" where
  "rim_Get rim k skipIndex =
     (case map_of (rim_mapping rim) k of
        None \<Rightarrow> Err (NewStoreErr (rim_name rim) KeyNotFound (show_u32 k))
      | Some items \<Rightarrow> ri_Get items skipIndex)"

text \<open>\<open>rim.mapping[key].GetItem(index)\<close>: a missing key is a nil pointer, whose use panics.\<close>

definition rim_GetItem :: "'v RollingIndexMap \<Rightarrow> 32 word \<Rightarrow> int \<Rightarrow> 'v res" where
  "rim_GetItem rim k index =
     (case map_of (rim_mapping rim) k of
        None \<Rightarrow> Panic
      | Some items \<Rightarrow> ri_GetItem items index)"

definition rim_GetLast :: "'v RollingIndexMap \<Rightarrow> 32 word \<Rightarrow> 'v res" where
  "rim_GetLast rim k =
     (case map_of (rim_mapping rim) k of
        None \<Rightarrow> Err (NewStoreErr (rim_name rim) KeyNotFound (show_u32 k))
      | Some pe \<Rightarrow>
          (let (cached, _) = GetLastWindow pe
           in if cached = [] then Err (NewStoreErr (rim_name rim) Empty (show_u32 k))
              else Ok (last cached)))"

definition rim_Set :: "32 word \<Rightarrow> 'v \<Rightarrow> int \<Rightarrow> ('v RollingIndexMap, unit) go" where
  "rim_Set k item index rim =
     (let items = (case map_of (rim_mapping rim) k of None \<Rightarrow> rim_fresh k rim | Some r \<Rightarrow> r);
          (res, items') = ri_Set item index items
      in (res, rim\<lparr>rim_mapping := AList.update k items' (rim_mapping rim)\<rparr>))"

definition rim_Known :: "'v RollingIndexMap \<Rightarrow> (32 word \<times> int) list" where
  "rim_Known rim = map (\<lambda>(k, items). (k, snd (GetLastWindow items))) (rim_mapping rim)"

text \<open>The last item of a key is the item at its last index.\<close>

lemma ri_last_abs:
  assumes "ri_items r \<noteq> []"
  shows "ri_abs r (ri_lastIndex r) = Some (last (ri_items r))"
proof -
  have "ri_lastIndex r - ri_oldest r = int (length (ri_items r) - 1)"
    using assms by (simp add: ri_oldest_def of_nat_diff Suc_leI)
  moreover have "ri_oldest r \<le> ri_lastIndex r"
    using assms by (simp add: ri_oldest_def Suc_leI)
  ultimately show ?thesis
    using assms by (simp add: ri_abs_def last_conv_nth)
qed

lemma rim_GetLast_Ok:
  assumes "rim_GetLast rim k = Ok v"
  obtains r where "map_of (rim_mapping rim) k = Some r" and "ri_abs r (ri_lastIndex r) = Some v"
  using assms that ri_last_abs
  by (auto simp: rim_GetLast_def GetLastWindow_def Let_def split: option.splits if_splits)

lemma rim_Known_lookup: "map_of (rim_Known rim) k = map_option ri_lastIndex (map_of (rim_mapping rim) k)"
  by (simp add: rim_Known_def GetLastWindow_def map_of_map)

section \<open>Properties\<close>

definition ri_appends :: "'v list \<Rightarrow> 'v RollingIndex \<Rightarrow> 'v RollingIndex" where
  "ri_appends vs r = foldl (\<lambda>r v. snd (ri_Set v (ri_lastIndex r + 1) r)) r vs"

lemma ri_appends_facts:
  assumes "2 \<le> n"
  shows "let r = ri_appends vs (NewRollingIndex name n) in
    ri_wf r \<and> ri_size r = n \<and> ri_lastIndex r = int (length vs) - 1 \<and> length (ri_items r) \<le> n \<and>
    min (n div 2) (length vs) \<le> length (ri_items r) \<and>
    ri_items r = drop (length vs - length (ri_items r)) vs"
proof (induction vs rule: rev_induct)
  case Nil
  show ?case by (simp add: ri_appends_def ri_wf_New) (simp add: NewRollingIndex_def)
next
  case (snoc v vs)
  define r where "r = ri_appends vs (NewRollingIndex name n)"
  have IH: "ri_wf r" "ri_size r = n" "ri_lastIndex r = int (length vs) - 1" "length (ri_items r) \<le> n"
    "min (n div 2) (length vs) \<le> length (ri_items r)"
    "ri_items r = drop (length vs - length (ri_items r)) vs"
    using snoc by (simp_all add: r_def Let_def)
  define d where "d = (if n \<le> length (ri_items r) then n div 2 else 0)"
  define r' where "r' = r\<lparr>ri_items := drop d (ri_items r) @ [v], ri_lastIndex := int (length vs)\<rparr>"
  have set: "ri_Set v (ri_lastIndex r + 1) r = (Ok (), r')"
    using ri_Set_append [of r "ri_lastIndex r + 1" v] IH by (simp add: r'_def d_def)
  then have app: "ri_appends (vs @ [v]) (NewRollingIndex name n) = r'"
    by (simp add: ri_appends_def r_def)
  have "ri_wf r'" using ri_Set_append_abs(4) [OF IH(1) refl set] .
  moreover have len: "length (ri_items r) \<le> length vs" using IH(6) by (metis diff_le_self length_drop)
  moreover have items: "drop d (ri_items r) = drop (length vs - (length (ri_items r) - d)) vs"
  proof -
    have "drop d (ri_items r) = drop (d + (length vs - length (ri_items r))) vs"
      by (subst IH(6)) (simp add: add.commute)
    moreover have "d + (length vs - length (ri_items r)) = length vs - (length (ri_items r) - d)"
      using len IH(4) by (simp add: d_def)
    ultimately show ?thesis by simp
  qed
  moreover have "n div 2 \<le> length (ri_items r) - d \<or> length (ri_items r) = length vs \<and> d = 0 \<or>
      n div 2 \<le> length (ri_items r) \<and> d = 0"
    using IH(4,5) len by (auto simp: d_def min_def split: if_splits)
  ultimately show ?case
    using IH(2,4) assms by (auto simp: app r'_def Let_def d_def min_def split: if_splits)
qed

text \<open>C35: After appending a list of items to an empty window of size \<open>n\<close>, the window holds the last
  items of the list, at least half of \<open>n\<close> of them and at most \<open>n\<close>, and \<open>GetItem\<close> returns the item of
  every index in the window, \<open>TooLate\<close> below it and \<open>KeyNotFound\<close> above it.\<close>

theorem rolling_window_is_suffix:
  assumes "2 \<le> n" and "r = ri_appends vs (NewRollingIndex name n)"
  shows "length (ri_items r) \<le> n \<and> min (n div 2) (length vs) \<le> length (ri_items r) \<and>
    (\<forall>i. ri_GetItem r i =
       (if i < int (length vs) - int (length (ri_items r)) then Err (NewStoreErr name TooLate (itoa i))
        else if i < int (length vs) then Ok (vs ! nat i)
        else Err (NewStoreErr name KeyNotFound (itoa i))))"
proof -
  have r: "ri_lastIndex r = int (length vs) - 1" "length (ri_items r) \<le> n"
    "min (n div 2) (length vs) \<le> length (ri_items r)"
    "ri_items r = drop (length vs - length (ri_items r)) vs"
    using ri_appends_facts [OF assms(1), of vs name] by (simp_all add: assms(2) Let_def)
  have name: "ri_name r = name"
  proof -
    have "ri_name (ri_appends vs r0) = ri_name r0" for r0 :: "'a RollingIndex"
      unfolding ri_appends_def
      by (induction vs arbitrary: r0) (auto simp: ri_Set_def Let_def roll_def)
    then show ?thesis by (simp add: assms(2) NewRollingIndex_def)
  qed
  have le: "length (ri_items r) \<le> length vs" using r(4) by (metis diff_le_self length_drop)
  have nth: "ri_items r ! nat (i - (int (length vs) - int (length (ri_items r)))) = vs ! nat i"
    if "int (length vs) - int (length (ri_items r)) \<le> i" "i < int (length vs)" for i
  proof -
    define k where "k = length vs - length (ri_items r)"
    have "ri_items r ! (nat i - k) = drop k vs ! (nat i - k)" using r(4) by (simp add: k_def)
    also have "\<dots> = vs ! nat i" using that le by (subst nth_drop) (simp_all add: k_def)
    finally show ?thesis using that le by (simp add: k_def nat_diff_distrib of_nat_diff)
  qed
  show ?thesis using r(2,3) nth by (auto simp: ri_GetItem_def Let_def r(1) name)
qed

theorem rolling_window_is_suffix_witness:
  "ri_GetItem (ri_appends [''a'', ''b'', ''c'', ''d'', ''e''] (NewRollingIndex ''w'' 4)) 4 = Ok ''e'' \<and>
   ri_GetItem (ri_appends [''a'', ''b'', ''c'', ''d'', ''e''] (NewRollingIndex ''w'' 4)) 0 =
     Err (NewStoreErr ''w'' TooLate ''0'')"
proof -
  let ?vs = "[''a'', ''b'', ''c'', ''d'', ''e'']"
  have "length (ri_items (ri_appends ?vs (NewRollingIndex ''w'' 4))) = 3" "itoa 0 = ''0''" by code_simp+
  then show ?thesis using rolling_window_is_suffix [of 4 _ ?vs "''w''", OF _ refl] by simp
qed

end
