(* ===== verification/Types.thy ===== *)
theory Types
  imports Keys LRU_Cache Rolling_Index
begin

text \<open>
  The structs of \<open>src/src/peers\<close> and \<open>src/src/hashgraph\<close> as records, and the record of
  parameters that stand for the cryptographic primitives and the encoders.

  Conventions: a Go map is an association list, a Go slice is a list (a nil slice and an empty
  one are the same list), a pointer that may be nil is an \<open>option\<close>. Fields that only cache the
  result of a pure method (\<open>Event.hash\<close>, \<open>Event.hex\<close>, \<open>Event.creator\<close>, \<open>Block.hash\<close>,
  \<open>Block.hex\<close>, \<open>Peer.id\<close>, the cached values of a \<open>PeerSet\<close>) have no counterpart: the method is
  recomputed.
\<close>

section \<open>Peers\<close>

record Peer =
  p_NetAddr :: string
  p_PubKeyHex :: string
  p_Moniker :: string

record PeerSet =
  ps_Peers :: "Peer list"
  ps_ByPubKey :: "(string \<times> Peer) list"
  ps_ByID :: "(32 word \<times> Peer) list"

section \<open>Internal transactions\<close>

datatype TransactionType = PEER_ADD | PEER_REMOVE | UnknownType nat

record InternalTransactionBody =
  itb_Type :: TransactionType
  itb_Peer :: Peer

record InternalTransaction =
  it_Body :: InternalTransactionBody
  it_Signature :: string

record InternalTransactionReceipt =
  itr_InternalTransaction :: InternalTransaction
  itr_Accepted :: bool

section \<open>Block signatures\<close>

record BlockSignature =
  bs_Validator :: "byte list"
  bs_Index :: int
  bs_Signature :: string

record WireBlockSignature =
  wbs_Index :: int
  wbs_Signature :: string

section \<open>Events\<close>

record EventBody =
  eb_Transactions :: "byte list list"
  eb_InternalTransactions :: "InternalTransaction list"
  eb_Parents :: "string list"
  eb_Creator :: "byte list"
  eb_Index :: int
  eb_BlockSignatures :: "BlockSignature list"
  eb_Timestamp :: int
  eb_creatorID :: "32 word"
  eb_otherParentCreatorID :: "32 word"
  eb_selfParentIndex :: int
  eb_otherParentIndex :: int

record EventCoordinates =
  ec_Hash :: string
  ec_Index :: int

type_synonym CoordinatesMap = "(string \<times> EventCoordinates) list"

record Event =
  ev_Body :: EventBody
  ev_Signature :: string
  ev_topologicalIndex :: int
  ev_round :: "int option"
  ev_lamportTimestamp :: "int option"
  ev_roundReceived :: "int option"
  ev_lastAncestors :: CoordinatesMap
  ev_firstDescendants :: CoordinatesMap

record WireBody =
  wb_Transactions :: "byte list list"
  wb_InternalTransactions :: "InternalTransaction list"
  wb_BlockSignatures :: "WireBlockSignature list"
  wb_CreatorID :: "32 word"
  wb_OtherParentCreatorID :: "32 word"
  wb_Index :: int
  wb_SelfParentIndex :: int
  wb_OtherParentIndex :: int
  wb_Timestamp :: int

record WireEvent =
  we_Body :: WireBody
  we_Signature :: string

record FrameEvent =
  fe_Core :: Event
  fe_Round :: int
  fe_LamportTimestamp :: int
  fe_Witness :: bool

section \<open>Roots, frames, blocks\<close>

record Root =
  rt_Events :: "FrameEvent list"

record Frame =
  fr_Round :: int
  fr_Peers :: "Peer list"
  fr_Roots :: "(string \<times> Root) list"
  fr_Events :: "FrameEvent list"
  fr_PeerSets :: "(int \<times> Peer list) list"
  fr_Timestamp :: int

record BlockBody =
  bb_Index :: int
  bb_RoundReceived :: int
  bb_Timestamp :: int
  bb_StateHash :: "byte list"
  bb_FrameHash :: "byte list"
  bb_PeersHash :: "byte list"
  bb_Transactions :: "byte list list"
  bb_InternalTransactions :: "InternalTransaction list"
  bb_InternalTransactionReceipts :: "InternalTransactionReceipt list"

record Block =
  bl_Body :: BlockBody
  bl_Signatures :: "(string \<times> string) list"
  bl_peerSet :: PeerSet

section \<open>Primitives\<close>

text \<open>
  What the program calls but does not implement: SHA-256, the encoders that turn a struct into the
  bytes that are hashed (\<open>encoding/json\<close> for bodies, the canonical codec for frames), and ECDSA
  over a key given by its bytes. \<open>cp_Verify\<close> is \<open>ecdsa.Verify\<close> on a decoded public key and
  non-nil integers. A private key is identified with the public key bytes it controls.
\<close>

record crypto =
  cp_SHA256 :: "byte list \<Rightarrow> byte list"
  cp_EventBody :: "EventBody \<Rightarrow> byte list"
  cp_ItxBody :: "InternalTransactionBody \<Rightarrow> byte list"
  cp_BlockBody :: "BlockBody \<Rightarrow> byte list"
  cp_Frame :: "Frame \<Rightarrow> byte list"
  cp_Verify :: "byte list \<Rightarrow> byte list \<Rightarrow> int \<Rightarrow> int \<Rightarrow> bool"
  cp_Sign :: "byte list \<Rightarrow> byte list \<Rightarrow> int \<times> int"

text \<open>\<open>crypto.SimpleHashFromTwoHashes\<close>\<close>

definition SimpleHashFromTwoHashes :: "crypto \<Rightarrow> byte list \<Rightarrow> byte list \<Rightarrow> byte list" where
  "SimpleHashFromTwoHashes P left right = cp_SHA256 P (left @ right)"

text \<open>\<open>keys.Verify(keys.ToPublicKey(pub), data, r, s)\<close>. \<open>ToPublicKey\<close> returns nil for an empty key
  and \<open>ecdsa.Verify\<close> dereferences the key and both integers: a nil one panics. Non-positive
  integers are rejected.\<close>

definition keys_Verify ::
  "crypto \<Rightarrow> byte list \<Rightarrow> byte list \<Rightarrow> int option \<Rightarrow> int option \<Rightarrow> bool res" where
  "keys_Verify P pub data r s =
     (case (r, s) of
        (Some r', Some s') \<Rightarrow>
          if pub = [] then Panic
          else if r' \<le> 0 \<or> s' \<le> 0 then Ok False
          else Ok (cp_Verify P pub data r' s')
      | _ \<Rightarrow> Panic)"

text \<open>The pattern shared by the three \<open>Verify\<close> methods: decode the signature, then verify.\<close>

definition verify_signature :: "crypto \<Rightarrow> byte list \<Rightarrow> byte list \<Rightarrow> string \<Rightarrow> bool res" where
  "verify_signature P pub data sig =
     bindO (DecodeSignature sig) (\<lambda>(r, s). keys_Verify P pub data r s)"

definition sign_text :: "crypto \<Rightarrow> byte list \<Rightarrow> byte list \<Rightarrow> string" where
  "sign_text P key data = (case cp_Sign P key data of (r, s) \<Rightarrow> EncodeSignature r s)"

text \<open>Correctness of the signature scheme: what a key signs verifies under it, with positive
  integers, as ECDSA guarantees.\<close>

definition signing_ok :: "crypto \<Rightarrow> bool" where
  "signing_ok P \<longleftrightarrow>
     (\<forall>key data. case cp_Sign P key data of (r, s) \<Rightarrow>
        0 < r \<and> 0 < s \<and> cp_Verify P key data r s)"

lemma verify_sign:
  "signing_ok P \<Longrightarrow> key \<noteq> [] \<Longrightarrow> verify_signature P key data (sign_text P key data) = Ok True"
  by (auto simp: verify_signature_def sign_text_def signing_ok_def keys_Verify_def
      Decode_EncodeSignature split: prod.splits) (metis case_prodD linorder_not_less)+

end
