(* ===== verification/Peers.thy ===== *)
theory Peers
  imports Types
begin

text \<open>
  \<open>src/src/peers\<close>: \<open>peer.go\<close> and \<open>peer_set.go\<close>.

  \<open>PubKeyBytes\<close> discards the decoding error, as the code does. A \<open>PubKeyHex\<close> shorter than the
  two bytes of its \<open>0X\<close> prefix makes the slice expression of \<open>DecodeFromString\<close> panic; here it
  counts as no bytes, and the statements about such peers are left out by \<open>peer_wf\<close>.

  Shown: the lookup maps agree with the slice of peers, adding and removing peers, and the two
  thresholds the consensus relies on: any two super-majorities of a peer-set share more than a
  third of it, and more signatures than \<open>TrustCount\<close> are signatures from more than a third.
\<close>

section \<open>Peers\<close>

definition ToUpper_char :: "char \<Rightarrow> char" where
  "ToUpper_char c =
     (let n = of_char c :: nat in if 97 \<le> n \<and> n \<le> 122 then char_of (n - 32) else c)"

definition ToUpper :: "string \<Rightarrow> string" where
  "ToUpper s = map ToUpper_char s"

definition NewPeer :: "string \<Rightarrow> string \<Rightarrow> string \<Rightarrow> Peer" where
  "NewPeer pubKeyHex netAddr moniker =
     \<lparr>p_NetAddr = netAddr, p_PubKeyHex = pubKeyHex, p_Moniker = moniker\<rparr>"

definition PubKeyString :: "Peer \<Rightarrow> string" where
  "PubKeyString p = ToUpper (p_PubKeyHex p)"

definition PubKeyBytes :: "Peer \<Rightarrow> byte list" where
  "PubKeyBytes p = (case DecodeFromString (p_PubKeyHex p) of Ok (res, _) \<Rightarrow> res | _ \<Rightarrow> [])"

definition peer_ID :: "Peer \<Rightarrow> 32 word" where
  "peer_ID p = PublicKeyID (PubKeyBytes p)"

definition peer_wf :: "Peer \<Rightarrow> bool" where
  "peer_wf p \<longleftrightarrow> (\<exists>key. p_PubKeyHex p = EncodeToString key)"

fun ExcludePeer_loop :: "int \<Rightarrow> Peer list \<Rightarrow> 32 word \<Rightarrow> int \<Rightarrow> Peer list \<Rightarrow> int \<times> Peer list" where
  "ExcludePeer_loop i [] peer index otherPeers = (index, otherPeers)"
| "ExcludePeer_loop i (p # ps) peer index otherPeers =
     (if peer_ID p \<noteq> peer then ExcludePeer_loop (i + 1) ps peer index (otherPeers @ [p])
      else ExcludePeer_loop (i + 1) ps peer i otherPeers)"

definition ExcludePeer :: "Peer list \<Rightarrow> 32 word \<Rightarrow> int \<times> Peer list" where
  "ExcludePeer peers peer = ExcludePeer_loop 0 peers peer (-1) []"

section \<open>Peer sets\<close>

definition initMaps :: "PeerSet \<Rightarrow> PeerSet" where
  "initMaps peerSet =
     peerSet\<lparr>ps_ByPubKey := foldl (\<lambda>m peer. AList.update (PubKeyString peer) peer m) [] (ps_Peers peerSet),
             ps_ByID := foldl (\<lambda>m peer. AList.update (peer_ID peer) peer m) [] (ps_Peers peerSet)\<rparr>"

definition NewPeerSet :: "Peer list \<Rightarrow> PeerSet" where
  "NewPeerSet peers = initMaps \<lparr>ps_Peers = peers, ps_ByPubKey = [], ps_ByID = []\<rparr>"

definition WithNewPeer :: "PeerSet \<Rightarrow> Peer \<Rightarrow> PeerSet" where
  "WithNewPeer peerSet peer =
     (let peers = (if map_of (ps_ByID peerSet) (peer_ID peer) = None
                   then ps_Peers peerSet @ [peer] else ps_Peers peerSet)
      in NewPeerSet peers)"

definition WithRemovedPeer :: "PeerSet \<Rightarrow> Peer \<Rightarrow> PeerSet" where
  "WithRemovedPeer peerSet peer =
     NewPeerSet (filter (\<lambda>p. p_PubKeyHex p \<noteq> p_PubKeyHex peer) (ps_Peers peerSet))"

definition PubKeys :: "PeerSet \<Rightarrow> string list" where
  "PubKeys peerSet = map PubKeyString (ps_Peers peerSet)"

definition IDs :: "PeerSet \<Rightarrow> 32 word list" where
  "IDs peerSet = map peer_ID (ps_Peers peerSet)"

definition ps_Len :: "PeerSet \<Rightarrow> nat" where
  "ps_Len peerSet = length (ps_ByPubKey peerSet)"

definition PeerSet_Hash :: "crypto \<Rightarrow> PeerSet \<Rightarrow> byte list" where
  "PeerSet_Hash P peerSet =
     foldl (\<lambda>hash p. SimpleHashFromTwoHashes P hash (PubKeyBytes p)) [] (ps_Peers peerSet)"

definition PeerSet_Hex :: "crypto \<Rightarrow> PeerSet \<Rightarrow> string" where
  "PeerSet_Hex P peerSet = EncodeToString (PeerSet_Hash P peerSet)"

definition SuperMajority :: "PeerSet \<Rightarrow> nat" where
  "SuperMajority peerSet = 2 * ps_Len peerSet div 3 + 1"

text \<open>\<open>int(math.Ceil(float64(n) / float64(3)))\<close> is the integer ceiling for every length a slice
  can have.\<close>

definition TrustCount :: "PeerSet \<Rightarrow> nat" where
  "TrustCount peerSet =
     (if 1 < length (ps_Peers peerSet) then (ps_Len peerSet + 2) div 3 else 0)"

section \<open>The lookup maps\<close>

definition ps_wf :: "PeerSet \<Rightarrow> bool" where
  "ps_wf ps \<longleftrightarrow> ps = NewPeerSet (ps_Peers ps)"

lemma ps_wf_New [simp]: "ps_wf (NewPeerSet peers)"
  by (simp add: ps_wf_def NewPeerSet_def initMaps_def)

lemma ps_Peers_New [simp]: "ps_Peers (NewPeerSet peers) = peers"
  by (simp add: NewPeerSet_def initMaps_def)

lemma foldl_update_lookup:
  "map_of (foldl (\<lambda>m x. AList.update (f x) x m) al xs) k =
     (case find (\<lambda>x. f x = k) (rev xs) of Some x \<Rightarrow> Some x | None \<Rightarrow> map_of al k)"
proof (induction xs arbitrary: al)
  case Nil
  show ?case by simp
next
  case (Cons a xs)
  show ?case
    by (simp add: Cons.IH find_append split: option.splits)
qed

lemma foldl_update_distinct:
  "distinct (map fst al) \<Longrightarrow>
   distinct (map fst (foldl (\<lambda>m x. AList.update (f x) x m) al xs))"
  by (induction xs arbitrary: al) (auto intro: AList.distinct_update)

lemma foldl_update_keys:
  "fst ` set (foldl (\<lambda>m x. AList.update (f x) x m) al xs) = fst ` set al \<union> f ` set xs"
  by (induction xs arbitrary: al) (auto simp: AList.dom_update)

lemma ByPubKey_New_SomeD:
  assumes "map_of (ps_ByPubKey (NewPeerSet peers)) k = Some p"
  shows "p \<in> set peers \<and> PubKeyString p = k"
  using assms
  by (auto simp: NewPeerSet_def initMaps_def foldl_update_lookup find_Some_iff split: option.splits)
    (metis length_rev nth_mem set_rev)

lemma ByPubKey_dom:
  "fst ` set (ps_ByPubKey (NewPeerSet peers)) = PubKeyString ` set peers"
  by (simp add: NewPeerSet_def initMaps_def foldl_update_keys)

lemma ByID_dom: "fst ` set (ps_ByID (NewPeerSet peers)) = peer_ID ` set peers"
  by (simp add: NewPeerSet_def initMaps_def foldl_update_keys)

lemma ByPubKey_distinct: "distinct (map fst (ps_ByPubKey (NewPeerSet peers)))"
  by (simp add: NewPeerSet_def initMaps_def foldl_update_distinct)

lemma ByPubKey_None_iff:
  "map_of (ps_ByPubKey (NewPeerSet peers)) k = None \<longleftrightarrow> k \<notin> PubKeyString ` set peers"
  by (simp add: map_of_eq_None_iff ByPubKey_dom)

lemma ByID_None_iff:
  "map_of (ps_ByID (NewPeerSet peers)) k = None \<longleftrightarrow> k \<notin> peer_ID ` set peers"
  by (simp add: map_of_eq_None_iff ByID_dom)

lemma ps_Len_New: "ps_Len (NewPeerSet peers) = card (PubKeyString ` set peers)"
  using ByPubKey_distinct [of peers]
  by (metis ByPubKey_dom distinct_card length_map list.set_map ps_Len_def)

lemma ps_Len_card: "ps_wf ps \<Longrightarrow> ps_Len ps = card (fst ` set (ps_ByPubKey ps))"
  by (metis ByPubKey_dom ps_Len_New ps_wf_def)

section \<open>Thresholds\<close>

lemma super_majority_overlap:
  assumes "finite U" and "card U \<le> ps_Len ps" and "A \<subseteq> U" and "B \<subseteq> U"
    and "SuperMajority ps \<le> card A" and "SuperMajority ps \<le> card B"
  shows "ps_Len ps < 3 * card (A \<inter> B)"
proof -
  have "card A + card B \<le> card U + card (A \<inter> B)"
    using assms(1,3,4) by (rule quorum_overlap)
  then show ?thesis using assms(2,5,6) unfolding SuperMajority_def by linarith
qed

lemma trust_count_third:
  "1 < length (ps_Peers ps) \<Longrightarrow> TrustCount ps < n \<Longrightarrow> ps_Len ps < 3 * n"
  by (simp add: TrustCount_def)

lemma trust_count_attainable:
  assumes "ps_Len ps = length (ps_Peers ps)" and "1 \<le> ps_Len ps"
  shows "TrustCount ps < SuperMajority ps"
  using assms unfolding TrustCount_def SuperMajority_def by auto

section \<open>Adding and removing\<close>

lemma WithNewPeer_Peers:
  assumes "ps_wf ps"
  shows "ps_Peers (WithNewPeer ps p) =
    (if peer_ID p \<in> peer_ID ` set (ps_Peers ps) then ps_Peers ps else ps_Peers ps @ [p])"
  using assms ByID_None_iff [of "ps_Peers ps" "peer_ID p"]
  by (auto simp: WithNewPeer_def Let_def ps_wf_def)

lemma WithRemovedPeer_Peers:
  "ps_Peers (WithRemovedPeer ps p) = filter (\<lambda>q. p_PubKeyHex q \<noteq> p_PubKeyHex p) (ps_Peers ps)"
  by (simp add: WithRemovedPeer_def)

lemma PubKeyBytes_wf: "p_PubKeyHex p = EncodeToString key \<Longrightarrow> PubKeyBytes p = key"
  by (simp add: PubKeyBytes_def Decode_Encode)

lemma ExcludePeer_loop_snd:
  "snd (ExcludePeer_loop i ps k index acc) = acc @ filter (\<lambda>p. peer_ID p \<noteq> k) ps"
  by (induction ps arbitrary: i index acc) auto

lemma ExcludePeer_snd: "snd (ExcludePeer ps k) = filter (\<lambda>p. peer_ID p \<noteq> k) ps"
  by (simp add: ExcludePeer_def ExcludePeer_loop_snd)

section \<open>Letter case\<close>

text \<open>Decoding ignores letter case, so the identifier of a peer is a function of its upper-case key,
  and the text of a key is in upper case already.\<close>

lemma from_hex_char_ToUpper [simp]: "from_hex_char (ToUpper_char c) = from_hex_char c"
  by (auto simp: from_hex_char_def ToUpper_char_def Let_def)

lemma hex_DecodeString_ToUpper: "hex_DecodeString (map ToUpper_char s) = hex_DecodeString s"
  by (induction s rule: hex_DecodeString.induct) (auto split: option.splits)

lemma DecodeFromString_ToUpper [simp]: "DecodeFromString (ToUpper s) = DecodeFromString s"
  by (simp add: DecodeFromString_def ToUpper_def hex_DecodeString_ToUpper drop_map)

lemma peer_ID_cong: "PubKeyString p = PubKeyString q \<Longrightarrow> peer_ID p = peer_ID q"
  unfolding peer_ID_def PubKeyBytes_def PubKeyString_def by (metis DecodeFromString_ToUpper)

lemma ToUpper_hex_char: "d < 16 \<Longrightarrow> ToUpper_char (hex_char d) = hex_char d"
  by (auto simp: ToUpper_char_def hex_char_def Let_def)

lemma ToUpper_hex_byte: "map ToUpper_char (hex_byte b) = hex_byte b"
proof -
  have "unat b < 2 ^ LENGTH(8)" by (rule unsigned_less)
  then show ?thesis by (simp add: hex_byte_def ToUpper_hex_char)
qed

lemma ToUpper_EncodeToString [simp]: "ToUpper (EncodeToString bs) = EncodeToString bs"
proof -
  have "map ToUpper_char (concat (map hex_byte bs)) = concat (map hex_byte bs)"
    by (induction bs) (simp_all add: ToUpper_hex_byte)
  moreover have "map ToUpper_char ''0X'' = ''0X''" by (simp add: ToUpper_char_def)
  ultimately show ?thesis by (simp add: EncodeToString_def ToUpper_def)
qed

lemma ByPubKey_append:
  "map_of (ps_ByPubKey (NewPeerSet (peers @ [p]))) k =
     (if k = PubKeyString p then Some p else map_of (ps_ByPubKey (NewPeerSet peers)) k)"
  by (simp add: NewPeerSet_def initMaps_def)

lemma ByID_append:
  "map_of (ps_ByID (NewPeerSet (peers @ [p]))) k =
     (if k = peer_ID p then Some p else map_of (ps_ByID (NewPeerSet peers)) k)"
  by (simp add: NewPeerSet_def initMaps_def)

section \<open>Properties\<close>

text \<open>Two super-majorities of a peer-set have more than a third of the peers in common, and at
  least \<open>TrustCount\<close> of them: with fewer than a third of faulty
  peers, they share an honest one.\<close>

theorem super_majorities_share_a_third:
  assumes "set A \<subseteq> fst ` set (ps_ByPubKey ps)" and "set B \<subseteq> fst ` set (ps_ByPubKey ps)"
    and "distinct A" and "distinct B" and "SuperMajority ps \<le> length A" and "SuperMajority ps \<le> length B"
    and "ps_wf ps"
  shows "ps_Len ps < 3 * card (set A \<inter> set B) \<and> TrustCount ps \<le> card (set A \<inter> set B)"
proof -
  have "ps_Len ps < 3 * card (set A \<inter> set B)"
    using assms by (intro super_majority_overlap [of "fst ` set (ps_ByPubKey ps)"])
      (auto simp: ps_Len_card distinct_card)
  then show ?thesis by (auto simp: TrustCount_def)
qed

definition four_peers :: PeerSet where
  "four_peers = NewPeerSet [NewPeer ''0X01'' [] [], NewPeer ''0X02'' [] [], NewPeer ''0X03'' [] [],
     NewPeer ''0X04'' [] []]"

lemma four_peers_keys:
  "map fst (ps_ByPubKey four_peers) = [''0X01'', ''0X02'', ''0X03'', ''0X04''] \<and> SuperMajority four_peers = 3"
  by code_simp

theorem super_majorities_share_a_third_witness:
  "ps_Len four_peers < 3 * card (set [''0X01'', ''0X02'', ''0X03''] \<inter> set [''0X02'', ''0X03'', ''0X04'']) \<and>
   TrustCount four_peers \<le> card (set [''0X01'', ''0X02'', ''0X03''] \<inter> set [''0X02'', ''0X03'', ''0X04''])"
proof (rule super_majorities_share_a_third)
  have "fst ` set (ps_ByPubKey four_peers) = set [''0X01'', ''0X02'', ''0X03'', ''0X04'']"
    using four_peers_keys by (metis list.set_map)
  then show "set [''0X01'', ''0X02'', ''0X03''] \<subseteq> fst ` set (ps_ByPubKey four_peers)"
    "set [''0X02'', ''0X03'', ''0X04''] \<subseteq> fst ` set (ps_ByPubKey four_peers)" by auto
  show "ps_wf four_peers" by (simp add: four_peers_def)
qed (use four_peers_keys in simp_all)

text \<open>The text of a public key decodes to the key, also after a change to upper case, so peers
  written in different letter cases are the same peer for the maps and identifiers.\<close>

theorem key_text_roundtrip:
  "DecodeFromString (EncodeToString key) = Ok (key, None) \<and>
   DecodeFromString (ToUpper text) = DecodeFromString text \<and>
   peer_ID \<lparr>p_NetAddr = a, p_PubKeyHex = ToUpper text, p_Moniker = m\<rparr> =
     peer_ID \<lparr>p_NetAddr = a', p_PubKeyHex = text, p_Moniker = m'\<rparr>"
  by (simp add: Decode_Encode peer_ID_def PubKeyBytes_def)

end
