(* ===== verification/Events.thy ===== *)
theory Events
  imports Peers "HOL-Library.Product_Lexorder"
begin

text \<open>
  \<open>src/src/hashgraph/internal_transaction.go\<close>, the signature part of \<open>block.go\<close>, and
  \<open>event.go\<close>: internal transactions and their receipts, block signatures and their wire form,
  events, their hashes and signatures, the database and wire representations, and the two
  orders on events.

  \<open>sort.Sort\<close> does not promise an order among elements that compare equal; the model uses a
  stable sort, and the statements about order assume distinct keys where it matters.
\<close>

section \<open>Internal transactions\<close>

fun TransactionType_String :: "TransactionType \<Rightarrow> string" where
  "TransactionType_String PEER_ADD = ''PEER_ADD''"
| "TransactionType_String PEER_REMOVE = ''PEER_REMOVE''"
| "TransactionType_String (UnknownType n) = ''Unknown TransactionType''"

definition itb_Hash :: "crypto \<Rightarrow> InternalTransactionBody \<Rightarrow> byte list" where
  "itb_Hash P i = cp_SHA256 P (cp_ItxBody P i)"

definition NewInternalTransaction :: "TransactionType \<Rightarrow> Peer \<Rightarrow> InternalTransaction" where
  "NewInternalTransaction tType peer =
     \<lparr>it_Body = \<lparr>itb_Type = tType, itb_Peer = peer\<rparr>, it_Signature = []\<rparr>"

definition NewInternalTransactionJoin :: "Peer \<Rightarrow> InternalTransaction" where
  "NewInternalTransactionJoin peer = NewInternalTransaction PEER_ADD peer"

definition NewInternalTransactionLeave :: "Peer \<Rightarrow> InternalTransaction" where
  "NewInternalTransactionLeave peer = NewInternalTransaction PEER_REMOVE peer"

definition it_Sign :: "crypto \<Rightarrow> byte list \<Rightarrow> InternalTransaction \<Rightarrow> InternalTransaction" where
  "it_Sign P privKey t = t\<lparr>it_Signature := sign_text P privKey (itb_Hash P (it_Body t))\<rparr>"

definition it_Verify :: "crypto \<Rightarrow> InternalTransaction \<Rightarrow> bool res" where
  "it_Verify P t =
     verify_signature P (PubKeyBytes (itb_Peer (it_Body t))) (itb_Hash P (it_Body t)) (it_Signature t)"

text \<open>\<open>string(hash)\<close>: a string of the same bytes.\<close>

definition bytes_string :: "byte list \<Rightarrow> string" where
  "bytes_string bs = map (\<lambda>b. char_of (unat b)) bs"

definition HashString :: "crypto \<Rightarrow> InternalTransaction \<Rightarrow> string" where
  "HashString P t = bytes_string (itb_Hash P (it_Body t))"

definition AsAccepted :: "InternalTransaction \<Rightarrow> InternalTransactionReceipt" where
  "AsAccepted t = \<lparr>itr_InternalTransaction = t, itr_Accepted = True\<rparr>"

definition AsRefused :: "InternalTransaction \<Rightarrow> InternalTransactionReceipt" where
  "AsRefused t = \<lparr>itr_InternalTransaction = t, itr_Accepted = False\<rparr>"

section \<open>Block signatures\<close>

definition ValidatorHex :: "BlockSignature \<Rightarrow> string" where
  "ValidatorHex bs = EncodeToString (bs_Validator bs)"

definition bs_ToWire :: "BlockSignature \<Rightarrow> WireBlockSignature" where
  "bs_ToWire bs = \<lparr>wbs_Index = bs_Index bs, wbs_Signature = bs_Signature bs\<rparr>"

definition bs_Key :: "BlockSignature \<Rightarrow> string" where
  "bs_Key bs = itoa (bs_Index bs) @ ''-'' @ ValidatorHex bs"

section \<open>Events\<close>

text \<open>The encoders see the exported fields only.\<close>

definition eb_exported :: "EventBody \<Rightarrow> EventBody" where
  "eb_exported b =
     b\<lparr>eb_creatorID := 0, eb_otherParentCreatorID := 0, eb_selfParentIndex := 0,
       eb_otherParentIndex := 0\<rparr>"

definition eb_Hash :: "crypto \<Rightarrow> EventBody \<Rightarrow> byte list" where
  "eb_Hash P b = cp_SHA256 P (cp_EventBody P (eb_exported b))"

definition NewEvent ::
  "byte list list \<Rightarrow> InternalTransaction list \<Rightarrow> BlockSignature list \<Rightarrow> string list
    \<Rightarrow> byte list \<Rightarrow> int \<Rightarrow> int \<Rightarrow> Event" where
  "NewEvent transactions internalTransactions blockSignatures parents creator index now =
     \<lparr>ev_Body =
        \<lparr>eb_Transactions = transactions, eb_InternalTransactions = internalTransactions,
         eb_Parents = parents, eb_Creator = creator, eb_Index = index,
         eb_BlockSignatures = blockSignatures, eb_Timestamp = now,
         eb_creatorID = 0, eb_otherParentCreatorID = 0, eb_selfParentIndex = 0,
         eb_otherParentIndex = 0\<rparr>,
      ev_Signature = [], ev_topologicalIndex = 0, ev_round = None, ev_lamportTimestamp = None,
      ev_roundReceived = None, ev_lastAncestors = [], ev_firstDescendants = []\<rparr>"

definition Creator :: "Event \<Rightarrow> string" where
  "Creator e = EncodeToString (eb_Creator (ev_Body e))"

definition SelfParent :: "Event \<Rightarrow> string res" where
  "SelfParent e = (case eb_Parents (ev_Body e) of p # _ \<Rightarrow> Ok p | [] \<Rightarrow> Panic)"

definition OtherParent :: "Event \<Rightarrow> string res" where
  "OtherParent e = (case eb_Parents (ev_Body e) of _ # p # _ \<Rightarrow> Ok p | _ \<Rightarrow> Panic)"

abbreviation ev_Index :: "Event \<Rightarrow> int" where
  "ev_Index e \<equiv> eb_Index (ev_Body e)"

definition IsLoaded :: "Event \<Rightarrow> bool" where
  "IsLoaded e \<longleftrightarrow>
     (if ev_Index e = 0 then True
      else (let hasTransactions = 0 < length (eb_Transactions (ev_Body e));
                hasInternalTransactions = 0 < length (eb_InternalTransactions (ev_Body e))
            in hasTransactions \<or> hasInternalTransactions))"

definition ev_Sign :: "crypto \<Rightarrow> byte list \<Rightarrow> Event \<Rightarrow> Event" where
  "ev_Sign P privKey e = e\<lparr>ev_Signature := sign_text P privKey (eb_Hash P (ev_Body e))\<rparr>"

fun verify_itxs :: "crypto \<Rightarrow> InternalTransaction list \<Rightarrow> unit res" where
  "verify_itxs P [] = Ok ()"
| "verify_itxs P (itx # itxs) =
     bindO (it_Verify P itx) (\<lambda>ok.
       if \<not> ok then Err (Errorf ''invalid signature on internal transaction'')
       else verify_itxs P itxs)"

definition ev_Verify :: "crypto \<Rightarrow> Event \<Rightarrow> bool res" where
  "ev_Verify P e =
     bindO (verify_itxs P (eb_InternalTransactions (ev_Body e))) (\<lambda>_.
       verify_signature P (eb_Creator (ev_Body e)) (eb_Hash P (ev_Body e)) (ev_Signature e))"

definition ev_Hash :: "crypto \<Rightarrow> Event \<Rightarrow> byte list" where
  "ev_Hash P e = eb_Hash P (ev_Body e)"

definition Hex :: "crypto \<Rightarrow> Event \<Rightarrow> string" where
  "Hex P e = EncodeToString (ev_Hash P e)"

definition SetRound_ev :: "int \<Rightarrow> Event \<Rightarrow> Event" where
  "SetRound_ev r e = e\<lparr>ev_round := Some r\<rparr>"

definition SetLamportTimestamp :: "int \<Rightarrow> Event \<Rightarrow> Event" where
  "SetLamportTimestamp t e = e\<lparr>ev_lamportTimestamp := Some t\<rparr>"

definition SetRoundReceived :: "int \<Rightarrow> Event \<Rightarrow> Event" where
  "SetRoundReceived rr e = e\<lparr>ev_roundReceived := Some rr\<rparr>"

definition ev_SetWireInfo :: "int \<Rightarrow> 32 word \<Rightarrow> int \<Rightarrow> 32 word \<Rightarrow> Event \<Rightarrow> Event" where
  "ev_SetWireInfo selfParentIndex otherParentCreatorID otherParentIndex creatorID e =
     e\<lparr>ev_Body := (ev_Body e)\<lparr>eb_selfParentIndex := selfParentIndex,
         eb_otherParentCreatorID := otherParentCreatorID,
         eb_otherParentIndex := otherParentIndex,
         eb_creatorID := creatorID\<rparr>\<rparr>"

section \<open>Database representation\<close>

text \<open>\<open>MarshalDB\<close> and \<open>UnmarshalDB\<close> go through a wrapper with the private fields that are kept.
  The JSON text of the wrapper carries the exported fields of the body.\<close>

record eventWrapper =
  ew_Body :: EventBody
  ew_Signature :: string
  ew_CreatorID :: "32 word"
  ew_OtherParentCreatorID :: "32 word"
  ew_SelfParentIndex :: int
  ew_OtherParentIndex :: int
  ew_TopologicalIndex :: int
  ew_LastAncestors :: CoordinatesMap
  ew_FirstDescendants :: CoordinatesMap

definition MarshalDB :: "Event \<Rightarrow> eventWrapper" where
  "MarshalDB e =
     \<lparr>ew_Body = eb_exported (ev_Body e),
      ew_Signature = ev_Signature e,
      ew_CreatorID = eb_creatorID (ev_Body e),
      ew_OtherParentCreatorID = eb_otherParentCreatorID (ev_Body e),
      ew_SelfParentIndex = eb_selfParentIndex (ev_Body e),
      ew_OtherParentIndex = eb_otherParentIndex (ev_Body e),
      ew_TopologicalIndex = ev_topologicalIndex e,
      ew_LastAncestors = ev_lastAncestors e,
      ew_FirstDescendants = ev_firstDescendants e\<rparr>"

definition UnmarshalDB :: "eventWrapper \<Rightarrow> Event" where
  "UnmarshalDB w =
     \<lparr>ev_Body = (ew_Body w)\<lparr>eb_creatorID := ew_CreatorID w,
        eb_otherParentCreatorID := ew_OtherParentCreatorID w,
        eb_selfParentIndex := ew_SelfParentIndex w,
        eb_otherParentIndex := ew_OtherParentIndex w\<rparr>,
      ev_Signature = ew_Signature w,
      ev_topologicalIndex = ew_TopologicalIndex w,
      ev_round = None, ev_lamportTimestamp = None, ev_roundReceived = None,
      ev_lastAncestors = ew_LastAncestors w,
      ev_firstDescendants = ew_FirstDescendants w\<rparr>"

section \<open>Wire representation\<close>

definition WireBlockSignatures :: "Event \<Rightarrow> WireBlockSignature list" where
  "WireBlockSignatures e = map bs_ToWire (eb_BlockSignatures (ev_Body e))"

definition ToWire :: "Event \<Rightarrow> WireEvent" where
  "ToWire e =
     \<lparr>we_Body =
        \<lparr>wb_Transactions = eb_Transactions (ev_Body e),
         wb_InternalTransactions = eb_InternalTransactions (ev_Body e),
         wb_BlockSignatures = WireBlockSignatures e,
         wb_CreatorID = eb_creatorID (ev_Body e),
         wb_OtherParentCreatorID = eb_otherParentCreatorID (ev_Body e),
         wb_Index = eb_Index (ev_Body e),
         wb_SelfParentIndex = eb_selfParentIndex (ev_Body e),
         wb_OtherParentIndex = eb_otherParentIndex (ev_Body e),
         wb_Timestamp = eb_Timestamp (ev_Body e)\<rparr>,
      we_Signature = ev_Signature e\<rparr>"

definition we_BlockSignatures :: "WireEvent \<Rightarrow> byte list \<Rightarrow> BlockSignature list" where
  "we_BlockSignatures we validator =
     map (\<lambda>bs. \<lparr>bs_Validator = validator, bs_Index = wbs_Index bs, bs_Signature = wbs_Signature bs\<rparr>)
       (wb_BlockSignatures (we_Body we))"

section \<open>Orders\<close>

definition ByTopologicalOrder :: "Event list \<Rightarrow> Event list" where
  "ByTopologicalOrder es = sort_key ev_topologicalIndex es"

text \<open>\<open>SortedFrameEvents\<close>: by Lamport timestamp, ties by the first integer of the signature. A
  signature without a first integer is a nil pointer. It is compared, and panics, exactly when
  another event has the same timestamp: neighbours in the result must have been compared.\<close>

definition sig_R :: "FrameEvent \<Rightarrow> int option" where
  "sig_R e = (case DecodeSignature (ev_Signature (fe_Core e)) of Ok (r, _) \<Rightarrow> r | _ \<Rightarrow> None)"

definition fe_key :: "FrameEvent \<Rightarrow> int \<times> int" where
  "fe_key e = (fe_LamportTimestamp e, case sig_R e of Some r \<Rightarrow> r | None \<Rightarrow> 0)"

definition compares_nil :: "FrameEvent list \<Rightarrow> FrameEvent \<Rightarrow> bool" where
  "compares_nil es e \<longleftrightarrow>
     sig_R e = None \<and>
     1 < length (filter (\<lambda>e'. fe_LamportTimestamp e' = fe_LamportTimestamp e) es)"

definition SortFrameEvents :: "FrameEvent list \<Rightarrow> FrameEvent list res" where
  "SortFrameEvents es =
     (if list_ex (compares_nil es) es then Panic else Ok (sort_key fe_key es))"

section \<open>Facts\<close>

lemma eb_Hash_wire [simp]:
  "eb_Hash P (b\<lparr>eb_selfParentIndex := a, eb_otherParentCreatorID := c,
     eb_otherParentIndex := d, eb_creatorID := i\<rparr>) = eb_Hash P b"
  by (simp add: eb_Hash_def eb_exported_def)

lemma Hex_SetWireInfo [simp]: "Hex P (ev_SetWireInfo a b c d e) = Hex P e"
  by (simp add: Hex_def ev_Hash_def ev_SetWireInfo_def)

lemma UnmarshalDB_MarshalDB:
  "UnmarshalDB (MarshalDB e) =
     e\<lparr>ev_round := None, ev_lamportTimestamp := None, ev_roundReceived := None\<rparr>"
  by (simp add: UnmarshalDB_def MarshalDB_def eb_exported_def)

text \<open>Block signatures lose their validator on the wire and get it back from the creator.\<close>

lemma WireBlockSignatures_roundtrip:
  assumes "\<And>bs. bs \<in> set (eb_BlockSignatures (ev_Body e)) \<Longrightarrow> bs_Validator bs = v"
  shows "we_BlockSignatures (ToWire e) v = eb_BlockSignatures (ev_Body e)"
  using assms
  by (auto simp: we_BlockSignatures_def ToWire_def WireBlockSignatures_def bs_ToWire_def
      intro: map_idI)

lemma show_base10_no_dash: "CHR ''-'' \<notin> set (show_base 10 n)"
  using show_base_chars [of 10 "CHR ''-''" n] digit_char_not_special by fastforce

lemma append_sep_inj:
  "x \<notin> set a \<Longrightarrow> x \<notin> set b \<Longrightarrow> a @ x # c = b @ x # d \<Longrightarrow> a = b \<and> c = d"
proof (induction a arbitrary: b)
  case Nil
  then show ?case by (cases b) auto
next
  case (Cons y a)
  then show ?case by (cases b) auto
qed

text \<open>The key of a pool entry identifies the block and the signer.\<close>

lemma bs_Key_inj:
  assumes "bs_Key a = bs_Key b"
  shows "bs_Index a = bs_Index b \<and> bs_Validator a = bs_Validator b"
proof -
  define x where "x = bs_Index a"
  define y where "y = bs_Index b"
  have key: "itoa x @ CHR ''-'' # ValidatorHex a = itoa y @ CHR ''-'' # ValidatorHex b"
    using assms by (simp add: bs_Key_def x_def y_def)
  have hd: "hd (show_base 10 n) \<noteq> CHR ''-''" for n
    by (metis hd_in_set show_base10_no_dash show_base_nonempty)
  have sgn: "x < 0 \<longleftrightarrow> y < 0"
    using key hd by (auto simp: itoa_def split: if_splits) (metis hd_append2 list.sel(1) show_base_nonempty)+
  have "show_base 10 (nat \<bar>x\<bar>) @ CHR ''-'' # ValidatorHex a =
        show_base 10 (nat \<bar>y\<bar>) @ CHR ''-'' # ValidatorHex b"
    using key sgn by (auto simp: itoa_def split: if_splits)
  then have "show_base 10 (nat \<bar>x\<bar>) = show_base 10 (nat \<bar>y\<bar>) \<and> ValidatorHex a = ValidatorHex b"
    by (intro append_sep_inj) (simp_all add: show_base10_no_dash)
  then have "nat \<bar>x\<bar> = nat \<bar>y\<bar>" and "ValidatorHex a = ValidatorHex b"
    using show_base_inj [of 10] by auto
  then show ?thesis
    using sgn by (auto simp: x_def y_def ValidatorHex_def dest: EncodeToString_inj)
qed

lemma SortFrameEvents_Ok:
  assumes "SortFrameEvents es = Ok out"
  shows "mset out = mset es" and "sorted (map fe_key out)"
  using assms by (auto simp: SortFrameEvents_def split: if_splits)

text \<open>Nodes that hold the same events in different orders sort them the same way.\<close>

lemma SortFrameEvents_perm:
  assumes "mset es = mset es'" and "inj_on fe_key (set es)"
  shows "SortFrameEvents es = SortFrameEvents es'"
proof -
  have filt: "length (filter Q es) = length (filter Q es')" for Q
    by (metis assms(1) mset_filter size_mset)
  have "set es = set es'" using assms(1) by (rule mset_eq_setD)
  then have "list_ex (compares_nil es) es \<longleftrightarrow> list_ex (compares_nil es') es'"
    by (simp add: list_ex_iff compares_nil_def filt)
  moreover have "sort_key fe_key es = sort_key fe_key es'"
    using assms by (intro sort_key_inj_key_eq) simp_all
  ultimately show ?thesis by (simp add: SortFrameEvents_def)
qed

section \<open>Properties\<close>

text \<open>Two nodes that hold the same frame events in different orders sort them into the same list,
  as long as no two of them agree on both the Lamport timestamp and the first integer of the
  signature; the result is a permutation in increasing order of that key.\<close>

theorem frame_order_deterministic:
  assumes "mset es = mset es'" and "inj_on fe_key (set es)" and "SortFrameEvents es = Ok out"
  shows "SortFrameEvents es' = Ok out \<and> mset out = mset es' \<and> sorted (map fe_key out)"
  using SortFrameEvents_perm [OF assms(1,2)] SortFrameEvents_Ok [OF assms(3)] assms(1,3) by simp

definition sample_frame_event :: "int \<Rightarrow> string \<Rightarrow> FrameEvent" where
  "sample_frame_event t sig =
     \<lparr>fe_Core = (NewEvent [] [] [] ['''', ''''] [1] 0 0)\<lparr>ev_Signature := sig\<rparr>, fe_Round = 0,
      fe_LamportTimestamp = t, fe_Witness = True\<rparr>"

theorem frame_order_deterministic_witness:
  "\<exists>out. SortFrameEvents [sample_frame_event 4 ''7|1'', sample_frame_event 4 ''2|1''] = Ok out \<and>
     SortFrameEvents [sample_frame_event 4 ''2|1'', sample_frame_event 4 ''7|1''] = Ok out"
proof -
  let ?a = "sample_frame_event 4 ''2|1''" and ?b = "sample_frame_event 4 ''7|1''"
  have keys: "fe_key ?a = (4, 2)" "fe_key ?b = (4, 7)" "is_Ok (SortFrameEvents [?b, ?a])" by code_simp+
  then obtain out where "SortFrameEvents [?b, ?a] = Ok out" by (cases "SortFrameEvents [?b, ?a]") auto
  moreover have "inj_on fe_key (set [?b, ?a])" using keys(1,2) by (auto simp: inj_on_def)
  ultimately show ?thesis using frame_order_deterministic [of "[?b, ?a]" "[?a, ?b]" out] by simp
qed

text \<open>An event that is written to the database and read back is the same event without the
  consensus fields (round, timestamp, round received); its hash is the same.\<close>

theorem event_database_roundtrip:
  "UnmarshalDB (MarshalDB e) =
     e\<lparr>ev_round := None, ev_lamportTimestamp := None, ev_roundReceived := None\<rparr> \<and>
   Hex P (UnmarshalDB (MarshalDB e)) = Hex P e"
  by (simp add: UnmarshalDB_MarshalDB Hex_def ev_Hash_def)

text \<open>The key under which a block signature is kept in the pool identifies the block and the
  validator: different ones never overwrite each other.\<close>

theorem signature_key_injective:
  "bs_Key a = bs_Key b \<longleftrightarrow> bs_Index a = bs_Index b \<and> bs_Validator a = bs_Validator b"
  using bs_Key_inj [of a b] by (auto simp: bs_Key_def ValidatorHex_def)

end
