(* ===== verification/Blocks.thy ===== *)
theory Blocks
  imports Events "HOL-Library.List_Lexorder" "HOL-Library.Char_ord"
begin

text \<open>
  \<open>src/src/hashgraph/root.go\<close>, \<open>frame.go\<close> and \<open>block.go\<close>: roots, frames and their hash, blocks
  assembled from frames, and the signatures a block collects.
\<close>

section \<open>Roots\<close>

definition NewRoot :: Root where
  "NewRoot = \<lparr>rt_Events = []\<rparr>"

definition rt_Insert :: "FrameEvent \<Rightarrow> Root \<Rightarrow> Root" where
  "rt_Insert frameEvent r = r\<lparr>rt_Events := rt_Events r @ [frameEvent]\<rparr>"

section \<open>Frames\<close>

text \<open>\<open>Frame.SortedFrameEvents\<close>: the events of all the roots, then those of the frame, sorted.\<close>

definition fr_SortedFrameEvents :: "Frame \<Rightarrow> FrameEvent list res" where
  "fr_SortedFrameEvents f =
     SortFrameEvents (concat (map (\<lambda>(_, r). rt_Events r) (fr_Roots f)) @ fr_Events f)"

text \<open>The canonical encoding of a frame sees the exported fields of its events only, and the keys
  of its maps in increasing order.\<close>

definition ev_exported :: "Event \<Rightarrow> Event" where
  "ev_exported e =
     \<lparr>ev_Body = eb_exported (ev_Body e), ev_Signature = ev_Signature e, ev_topologicalIndex = 0,
      ev_round = None, ev_lamportTimestamp = None, ev_roundReceived = None,
      ev_lastAncestors = [], ev_firstDescendants = []\<rparr>"

definition fe_exported :: "FrameEvent \<Rightarrow> FrameEvent" where
  "fe_exported fe = fe\<lparr>fe_Core := ev_exported (fe_Core fe)\<rparr>"

definition canonical_roots :: "(string \<times> Root) list \<Rightarrow> (string \<times> Root) list" where
  "canonical_roots rs =
     map (\<lambda>(k, r). (k, r\<lparr>rt_Events := map fe_exported (rt_Events r)\<rparr>))
       (sort_key fst rs)"

definition fr_exported :: "Frame \<Rightarrow> Frame" where
  "fr_exported f =
     f\<lparr>fr_Roots := canonical_roots (fr_Roots f),
       fr_Events := map fe_exported (fr_Events f),
       fr_PeerSets := sort_key fst (fr_PeerSets f)\<rparr>"

definition fr_Hash :: "crypto \<Rightarrow> Frame \<Rightarrow> byte list" where
  "fr_Hash P f = cp_SHA256 P (cp_Frame P (fr_exported f))"

section \<open>Blocks\<close>

definition bb_Hash :: "crypto \<Rightarrow> BlockBody \<Rightarrow> byte list" where
  "bb_Hash P bb = cp_SHA256 P (cp_BlockBody P bb)"

definition NewBlock ::
  "crypto \<Rightarrow> int \<Rightarrow> int \<Rightarrow> byte list \<Rightarrow> Peer list \<Rightarrow> byte list list \<Rightarrow> InternalTransaction list
    \<Rightarrow> int \<Rightarrow> Block" where
  "NewBlock P blockIndex roundReceived frameHash peerSlice txs itxs timestamp =
     (let peerSet = NewPeerSet peerSlice
      in \<lparr>bl_Body =
            \<lparr>bb_Index = blockIndex, bb_RoundReceived = roundReceived, bb_Timestamp = timestamp,
             bb_StateHash = [], bb_FrameHash = frameHash, bb_PeersHash = PeerSet_Hash P peerSet,
             bb_Transactions = txs, bb_InternalTransactions = itxs,
             bb_InternalTransactionReceipts = []\<rparr>,
          bl_Signatures = [], bl_peerSet = peerSet\<rparr>)"

definition NewBlockFromFrame :: "crypto \<Rightarrow> int \<Rightarrow> Frame \<Rightarrow> Block" where
  "NewBlockFromFrame P blockIndex frame =
     (let (transactions, internalTransactions) =
        foldl (\<lambda>(txs, itxs) e.
            (txs @ eb_Transactions (ev_Body (fe_Core e)),
             itxs @ eb_InternalTransactions (ev_Body (fe_Core e))))
          ([], []) (fr_Events frame)
      in NewBlock P blockIndex (fr_Round frame) (fr_Hash P frame) (fr_Peers frame)
           transactions internalTransactions (fr_Timestamp frame))"

abbreviation bl_Index :: "Block \<Rightarrow> int" where
  "bl_Index b \<equiv> bb_Index (bl_Body b)"

abbreviation bl_RoundReceived :: "Block \<Rightarrow> int" where
  "bl_RoundReceived b \<equiv> bb_RoundReceived (bl_Body b)"

text \<open>\<open>validatorBytes, _ := common.DecodeFromString(val)\<close>: the error is dropped.\<close>

definition validator_bytes :: "string \<Rightarrow> byte list res" where
  "validator_bytes val = bindO (DecodeFromString val) (\<lambda>(bs, _). Ok bs)"

fun GetSignatures_loop :: "int \<Rightarrow> (string \<times> string) list \<Rightarrow> BlockSignature list res" where
  "GetSignatures_loop i [] = Ok []"
| "GetSignatures_loop i ((val, sig) # rest) =
     bindO (validator_bytes val) (\<lambda>v.
       bindO (GetSignatures_loop i rest) (\<lambda>res.
         Ok (\<lparr>bs_Validator = v, bs_Index = i, bs_Signature = sig\<rparr> # res)))"

definition GetSignatures :: "Block \<Rightarrow> BlockSignature list res" where
  "GetSignatures b = GetSignatures_loop (bl_Index b) (bl_Signatures b)"

definition GetSignature :: "Block \<Rightarrow> string \<Rightarrow> BlockSignature res" where
  "GetSignature b validator =
     (case map_of (bl_Signatures b) validator of
        None \<Rightarrow> Err (Errorf ''signature not found'')
      | Some sig \<Rightarrow>
          bindO (validator_bytes validator) (\<lambda>v.
            Ok \<lparr>bs_Validator = v, bs_Index = bl_Index b, bs_Signature = sig\<rparr>))"

definition AppendTransactions :: "byte list list \<Rightarrow> Block \<Rightarrow> Block" where
  "AppendTransactions txs b =
     b\<lparr>bl_Body := (bl_Body b)\<lparr>bb_Transactions := bb_Transactions (bl_Body b) @ txs\<rparr>\<rparr>"

definition bl_Sign :: "crypto \<Rightarrow> byte list \<Rightarrow> Block \<Rightarrow> BlockSignature" where
  "bl_Sign P privKey b =
     \<lparr>bs_Validator = privKey, bs_Index = bl_Index b,
      bs_Signature = sign_text P privKey (bb_Hash P (bl_Body b))\<rparr>"

definition SetSignature :: "BlockSignature \<Rightarrow> Block \<Rightarrow> Block" where
  "SetSignature bs b =
     b\<lparr>bl_Signatures := AList.update (ValidatorHex bs) (bs_Signature bs) (bl_Signatures b)\<rparr>"

definition bl_Verify :: "crypto \<Rightarrow> Block \<Rightarrow> BlockSignature \<Rightarrow> bool res" where
  "bl_Verify P b sig =
     verify_signature P (bs_Validator sig) (bb_Hash P (bl_Body b)) (bs_Signature sig)"

section \<open>Facts\<close>

lemma foldl_payload:
  "foldl (\<lambda>(txs, itxs) e. (txs @ f e, itxs @ g e)) (a, b) es =
     (a @ concat (map f es), b @ concat (map g es))"
  by (induction es arbitrary: a b) auto

lemma NewBlockFromFrame_Body:
  "bl_Body (NewBlockFromFrame P i f) =
     \<lparr>bb_Index = i, bb_RoundReceived = fr_Round f, bb_Timestamp = fr_Timestamp f,
      bb_StateHash = [], bb_FrameHash = fr_Hash P f,
      bb_PeersHash = PeerSet_Hash P (NewPeerSet (fr_Peers f)),
      bb_Transactions = concat (map (\<lambda>e. eb_Transactions (ev_Body (fe_Core e))) (fr_Events f)),
      bb_InternalTransactions =
        concat (map (\<lambda>e. eb_InternalTransactions (ev_Body (fe_Core e))) (fr_Events f)),
      bb_InternalTransactionReceipts = []\<rparr>"
  by (simp add: NewBlockFromFrame_def NewBlock_def foldl_payload Let_def)

lemma NewBlockFromFrame_fields [simp]:
  "bl_Signatures (NewBlockFromFrame P i f) = []"
  "bl_Index (NewBlockFromFrame P i f) = i"
  "bl_RoundReceived (NewBlockFromFrame P i f) = fr_Round f"
  "bb_FrameHash (bl_Body (NewBlockFromFrame P i f)) = fr_Hash P f"
  by (simp_all add: NewBlockFromFrame_def NewBlock_def Let_def foldl_payload)

text \<open>Frames that differ in the private fields of their events, or in the order of their maps, have
  the same hash.\<close>

lemma fr_Hash_cong: "fr_exported f = fr_exported g \<Longrightarrow> fr_Hash P f = fr_Hash P g"
  by (simp add: fr_Hash_def)

lemma bl_Body_SetSignature [simp]: "bl_Body (SetSignature bs b) = bl_Body b"
  by (simp add: SetSignature_def)

lemma bl_Verify_SetSignature [simp]: "bl_Verify P (SetSignature bs b) sig = bl_Verify P b sig"
  by (simp add: bl_Verify_def)

lemma map_of_SetSignature:
  "map_of (bl_Signatures (SetSignature bs b)) =
     (map_of (bl_Signatures b))(ValidatorHex bs \<mapsto> bs_Signature bs)"
  by (simp add: SetSignature_def update_conv')

lemma validator_bytes_hex [simp]: "validator_bytes (EncodeToString v) = Ok v"
  by (simp add: validator_bytes_def Decode_Encode)

text \<open>A signature that is set is the one that is read back.\<close>

lemma GetSignature_SetSignature:
  assumes "bs_Index bs = bl_Index b"
  shows "GetSignature (SetSignature bs b) (ValidatorHex bs) = Ok bs"
  using assms by (simp add: GetSignature_def map_of_SetSignature ValidatorHex_def)

lemma GetSignature_SetSignature_other:
  "val \<noteq> ValidatorHex bs \<Longrightarrow> GetSignature (SetSignature bs b) val = GetSignature b val"
  by (simp add: GetSignature_def map_of_SetSignature split: option.split)

lemma bl_Verify_Sign:
  "signing_ok P \<Longrightarrow> key \<noteq> [] \<Longrightarrow> bl_Verify P b (bl_Sign P key b) = Ok True"
  by (simp add: bl_Verify_def bl_Sign_def verify_sign)

lemma GetSignatures_loop_Ok:
  assumes "GetSignatures_loop i sigs = Ok res" and "\<And>v s. (v, s) \<in> set sigs \<Longrightarrow> \<exists>w. v = EncodeToString w"
  shows "map (\<lambda>bs. (ValidatorHex bs, bs_Signature bs)) res = sigs \<and> (\<forall>bs\<in>set res. bs_Index bs = i)"
  using assms
proof (induction sigs arbitrary: res)
  case Nil
  then show ?case by simp
next
  case (Cons p sigs)
  obtain val sig where p: "p = (val, sig)" by (cases p)
  obtain w where w: "val = EncodeToString w" using Cons.prems(2) p by auto
  from Cons.prems(1) obtain rest where
    rest: "GetSignatures_loop i sigs = Ok rest"
    "res = \<lparr>bs_Validator = w, bs_Index = i, bs_Signature = sig\<rparr> # rest"
    by (auto simp: p w bindO_eq_Ok)
  have "map (\<lambda>bs. (ValidatorHex bs, bs_Signature bs)) rest = sigs \<and> (\<forall>bs\<in>set rest. bs_Index bs = i)"
    using Cons.prems(2) by (intro Cons.IH [OF rest(1)]) auto
  then show ?case by (auto simp: rest(2) p w ValidatorHex_def)
qed

section \<open>Properties\<close>

text \<open>What a validator signs verifies: the signature of a block by a key, attached to the block,
  is read back under the key's text and verifies, and the block's body is unchanged.\<close>

theorem signed_block_verifies:
  assumes "signing_ok P" and "key \<noteq> []"
  shows "let bs = bl_Sign P key b; b' = SetSignature bs b in
    GetSignature b' (ValidatorHex bs) = Ok bs \<and> bl_Verify P b' bs = Ok True \<and> bl_Body b' = bl_Body b"
  using assms bl_Verify_Sign by (simp add: Let_def GetSignature_SetSignature bl_Sign_def)

definition toy_crypto :: crypto where
  "toy_crypto =
     \<lparr>cp_SHA256 = (\<lambda>b. b), cp_EventBody = (\<lambda>_. []), cp_ItxBody = (\<lambda>_. []), cp_BlockBody = (\<lambda>_. []),
      cp_Frame = (\<lambda>_. []), cp_Verify = (\<lambda>key data r s. r = int (length key) + 1),
      cp_Sign = (\<lambda>key data. (int (length key) + 1, 1))\<rparr>"

theorem signed_block_verifies_witness:
  "let b = NewBlock toy_crypto 3 5 [] [] [[1]] [] 0; bs = bl_Sign toy_crypto [2, 9] b
   in bl_Verify toy_crypto (SetSignature bs b) bs = Ok True"
proof -
  have "signing_ok toy_crypto" by (simp add: signing_ok_def toy_crypto_def)
  then show ?thesis
    using signed_block_verifies [of toy_crypto "[2, 9]" "NewBlock toy_crypto 3 5 [] [] [[1]] [] 0"]
    by (simp add: Let_def)
qed

end
