(* ===== verification/Round_Info.thy ===== *)
theory Round_Info
  imports Blocks
begin

text \<open>
  \<open>src/src/hashgraph/roundInfo.go\<close>: the events created and received in a round, the fame of its
  witnesses, and when a round is decided.
\<close>

record pendingRound =
  pr_Index :: int
  pr_Decided :: bool

record roundEvent =
  re_Witness :: bool
  re_Famous :: Trilean

record RoundInfo =
  rd_CreatedEvents :: "(string \<times> roundEvent) list"
  rd_ReceivedEvents :: "string list"
  rd_queued :: bool
  rd_decided :: bool

definition NewRoundInfo :: RoundInfo where
  "NewRoundInfo =
     \<lparr>rd_CreatedEvents = [], rd_ReceivedEvents = [], rd_queued = False, rd_decided = False\<rparr>"

definition AddCreatedEvent :: "string \<Rightarrow> bool \<Rightarrow> RoundInfo \<Rightarrow> RoundInfo" where
  "AddCreatedEvent x witness r =
     (case map_of (rd_CreatedEvents r) x of
        None \<Rightarrow>
          r\<lparr>rd_CreatedEvents :=
              AList.update x \<lparr>re_Witness = witness, re_Famous = Undefined\<rparr> (rd_CreatedEvents r)\<rparr>
      | Some _ \<Rightarrow> r)"

definition AddReceivedEvent :: "string \<Rightarrow> RoundInfo \<Rightarrow> RoundInfo" where
  "AddReceivedEvent x r = r\<lparr>rd_ReceivedEvents := rd_ReceivedEvents r @ [x]\<rparr>"

definition SetFame :: "string \<Rightarrow> bool \<Rightarrow> RoundInfo \<Rightarrow> RoundInfo" where
  "SetFame x f r =
     (let e = (case map_of (rd_CreatedEvents r) x of
                 Some e \<Rightarrow> e
               | None \<Rightarrow> \<lparr>re_Witness = True, re_Famous = Undefined\<rparr>);
          e' = e\<lparr>re_Famous := if f then TTrue else TFalse\<rparr>
      in r\<lparr>rd_CreatedEvents := AList.update x e' (rd_CreatedEvents r)\<rparr>)"

text \<open>The loop over the created events: None is the early return on an undecided witness, Some the
  number of decided ones.\<close>

fun WitnessesDecided_loop :: "nat \<Rightarrow> (string \<times> roundEvent) list \<Rightarrow> nat option" where
  "WitnessesDecided_loop c [] = Some c"
| "WitnessesDecided_loop c ((_, e) # es) =
     (if re_Witness e \<and> re_Famous e \<noteq> Undefined then WitnessesDecided_loop (c + 1) es
      else if re_Witness e \<and> re_Famous e = Undefined then None
      else WitnessesDecided_loop c es)"

definition WitnessesDecided :: "PeerSet \<Rightarrow> RoundInfo \<Rightarrow> bool \<times> RoundInfo" where
  "WitnessesDecided peerSet r =
     (if rd_decided r then (True, r)
      else case WitnessesDecided_loop 0 (rd_CreatedEvents r) of
        None \<Rightarrow> (False, r)
      | Some c \<Rightarrow>
          (let decided = SuperMajority peerSet \<le> c
           in (decided, r\<lparr>rd_decided := decided\<rparr>)))"

definition Witnesses :: "RoundInfo \<Rightarrow> string list" where
  "Witnesses r = map fst (filter (\<lambda>(_, e). re_Witness e) (rd_CreatedEvents r))"

definition FamousWitnesses :: "RoundInfo \<Rightarrow> string list" where
  "FamousWitnesses r =
     map fst (filter (\<lambda>(_, e). re_Witness e \<and> re_Famous e = TTrue) (rd_CreatedEvents r))"

definition IsDecided :: "string \<Rightarrow> RoundInfo \<Rightarrow> bool" where
  "IsDecided witness r =
     (case map_of (rd_CreatedEvents r) witness of
        None \<Rightarrow> False
      | Some w \<Rightarrow> re_Witness w \<and> re_Famous w \<noteq> Undefined)"

section \<open>Facts\<close>

definition rd_wf :: "RoundInfo \<Rightarrow> bool" where
  "rd_wf r \<longleftrightarrow> distinct (map fst (rd_CreatedEvents r))"

lemma rd_wf_New [simp]: "rd_wf NewRoundInfo"
  by (simp add: rd_wf_def NewRoundInfo_def)

lemma rd_wf_AddCreatedEvent [simp]: "rd_wf r \<Longrightarrow> rd_wf (AddCreatedEvent x w r)"
  by (simp add: rd_wf_def AddCreatedEvent_def distinct_update split: option.split)

lemma rd_wf_AddReceivedEvent [simp]: "rd_wf (AddReceivedEvent x r) = rd_wf r"
  by (simp add: rd_wf_def AddReceivedEvent_def)

lemma rd_wf_SetFame [simp]: "rd_wf r \<Longrightarrow> rd_wf (SetFame x f r)"
  by (simp add: rd_wf_def SetFame_def distinct_update Let_def)

lemma rd_wf_WitnessesDecided [simp]: "rd_wf r \<Longrightarrow> rd_wf (snd (WitnessesDecided ps r))"
  by (simp add: rd_wf_def WitnessesDecided_def Let_def split: option.split)

lemma set_Witnesses:
  "rd_wf r \<Longrightarrow> x \<in> set (Witnesses r) \<longleftrightarrow> (\<exists>e. map_of (rd_CreatedEvents r) x = Some e \<and> re_Witness e)"
  by (auto simp: Witnesses_def rd_wf_def image_iff)

lemma set_FamousWitnesses:
  "rd_wf r \<Longrightarrow> x \<in> set (FamousWitnesses r) \<longleftrightarrow>
     (\<exists>e. map_of (rd_CreatedEvents r) x = Some e \<and> re_Witness e \<and> re_Famous e = TTrue)"
  by (auto simp: FamousWitnesses_def rd_wf_def image_iff)

lemma distinct_Witnesses: "rd_wf r \<Longrightarrow> distinct (Witnesses r)"
  by (auto simp: Witnesses_def rd_wf_def intro: distinct_map_filter)

lemma FamousWitnesses_subset: "set (FamousWitnesses r) \<subseteq> set (Witnesses r)"
  by (auto simp: FamousWitnesses_def Witnesses_def)

text \<open>Recording an event again changes nothing: its witness flag and its fame are kept.\<close>

lemma map_of_AddCreatedEvent:
  "map_of (rd_CreatedEvents (AddCreatedEvent x w r)) =
     (if map_of (rd_CreatedEvents r) x = None
      then (map_of (rd_CreatedEvents r))(x \<mapsto> \<lparr>re_Witness = w, re_Famous = Undefined\<rparr>)
      else map_of (rd_CreatedEvents r))"
  by (simp add: AddCreatedEvent_def update_conv' split: option.split)

lemma map_of_SetFame:
  "map_of (rd_CreatedEvents (SetFame x f r)) =
     (map_of (rd_CreatedEvents r))
       (x \<mapsto> \<lparr>re_Witness = (case map_of (rd_CreatedEvents r) x of Some e \<Rightarrow> re_Witness e | None \<Rightarrow> True),
             re_Famous = if f then TTrue else TFalse\<rparr>)"
  by (auto simp: SetFame_def update_conv' Let_def fun_eq_iff split: option.split)

lemma IsDecided_SetFame:
  "IsDecided y (SetFame x f r) \<longleftrightarrow>
     (if y = x then (case map_of (rd_CreatedEvents r) x of Some e \<Rightarrow> re_Witness e | None \<Rightarrow> True)
      else IsDecided y r)"
  by (simp add: IsDecided_def map_of_SetFame split: option.split)

lemma WitnessesDecided_loop_eq:
  "WitnessesDecided_loop c es =
     (if \<exists>(x, e)\<in>set es. re_Witness e \<and> re_Famous e = Undefined then None
      else Some (c + length (filter (\<lambda>(_, e). re_Witness e) es)))"
  by (induction c es rule: WitnessesDecided_loop.induct) auto

lemma IsDecided_iff:
  "IsDecided x r \<longleftrightarrow>
     (\<exists>e. map_of (rd_CreatedEvents r) x = Some e \<and> re_Witness e \<and> re_Famous e \<noteq> Undefined)"
  by (simp add: IsDecided_def split: option.split)

text \<open>The first time a round is decided, every witness has its fame and there is a super-majority
  of them; a decided round stays decided.\<close>

lemma WitnessesDecided_fresh:
  assumes "rd_wf r" and "\<not> rd_decided r"
  shows "fst (WitnessesDecided ps r) \<longleftrightarrow>
     (\<forall>x\<in>set (Witnesses r). IsDecided x r) \<and> SuperMajority ps \<le> length (Witnesses r)"
proof -
  have mem: "(x, e) \<in> set (rd_CreatedEvents r) \<longleftrightarrow> map_of (rd_CreatedEvents r) x = Some e" for x e
    using assms(1) by (simp add: rd_wf_def)
  have "(\<exists>(x, e)\<in>set (rd_CreatedEvents r). re_Witness e \<and> re_Famous e = Undefined) \<longleftrightarrow>
        (\<exists>x e. map_of (rd_CreatedEvents r) x = Some e \<and> re_Witness e \<and> re_Famous e = Undefined)"
    using mem by auto
  also have "\<dots> \<longleftrightarrow> \<not> (\<forall>x\<in>set (Witnesses r). IsDecided x r)"
    unfolding Ball_def set_Witnesses [OF assms(1)] IsDecided_iff by (metis option.inject)
  finally have "(\<exists>(x, e)\<in>set (rd_CreatedEvents r). re_Witness e \<and> re_Famous e = Undefined) \<longleftrightarrow>
        \<not> (\<forall>x\<in>set (Witnesses r). IsDecided x r)" .
  moreover have "length (filter (\<lambda>(_, e). re_Witness e) (rd_CreatedEvents r)) = length (Witnesses r)"
    by (simp add: Witnesses_def)
  ultimately show ?thesis
    using assms(2) by (simp add: WitnessesDecided_def WitnessesDecided_loop_eq Let_def)
qed

lemma WitnessesDecided_stable: "rd_decided r \<Longrightarrow> WitnessesDecided ps r = (True, r)"
  by (simp add: WitnessesDecided_def)

lemma WitnessesDecided_sets: "rd_decided (snd (WitnessesDecided ps r)) \<longleftrightarrow> fst (WitnessesDecided ps r) \<or> rd_decided r"
  by (auto simp: WitnessesDecided_def Let_def split: option.split)

lemma WitnessesDecided_created [simp]:
  "rd_CreatedEvents (snd (WitnessesDecided ps r)) = rd_CreatedEvents r"
  "rd_ReceivedEvents (snd (WitnessesDecided ps r)) = rd_ReceivedEvents r"
  "rd_queued (snd (WitnessesDecided ps r)) = rd_queued r"
  by (simp_all add: WitnessesDecided_def Let_def split: option.split)

section \<open>Properties\<close>

text \<open>A round that is not marked as decided becomes decided exactly when the fame of all of its
  witnesses is decided and there is a super-majority of them; from then on it stays decided, whatever
  peer-set it is checked against, and its events are untouched.\<close>

theorem round_decided_iff:
  assumes "rd_wf r" and "\<not> rd_decided r"
  shows "let (decided, r') = WitnessesDecided ps r in
    (decided \<longleftrightarrow> (\<forall>x \<in> set (Witnesses r). IsDecided x r) \<and> SuperMajority ps \<le> length (Witnesses r)) \<and>
    rd_CreatedEvents r' = rd_CreatedEvents r \<and>
    (decided \<longrightarrow> WitnessesDecided ps' r' = (True, r'))"
  using WitnessesDecided_fresh [OF assms, of ps] WitnessesDecided_sets [of ps r]
    WitnessesDecided_created [of ps r] WitnessesDecided_stable [of "snd (WitnessesDecided ps r)" ps']
  by (simp add: split_beta)

theorem round_decided_iff_witness:
  "let r = SetFame ''w'' True (AddCreatedEvent ''w'' True NewRoundInfo);
       ps = NewPeerSet [NewPeer ''0X01'' [] []] in
   (fst (WitnessesDecided ps r) \<longleftrightarrow> (\<forall>x \<in> set (Witnesses r). IsDecided x r) \<and> SuperMajority ps \<le> length (Witnesses r))"
proof -
  let ?r = "SetFame ''w'' True (AddCreatedEvent ''w'' True NewRoundInfo)"
  have "rd_wf ?r" by simp
  moreover have "\<not> rd_decided ?r" by code_simp
  ultimately show ?thesis using round_decided_iff [of ?r] unfolding Let_def by (simp add: split_beta)
qed

end
