(* ===== verification/Caches.thy ===== *)
theory Caches
  imports Round_Info
begin

text \<open>
  \<open>src/src/hashgraph/caches.go\<close>: the events of each participant (a rolling index per peer), the
  history of peer-sets, the queue of pending rounds and the pool of block signatures.
\<close>

section \<open>Keys of the memo tables\<close>

record key =
  key_x :: string
  key_y :: string

record treKey =
  tre_x :: string
  tre_y :: string
  tre_z :: string

section \<open>ParticipantEventsCache\<close>

record ParticipantEventsCache =
  pec_participants :: PeerSet
  pec_rim :: "string RollingIndexMap"

definition NewParticipantEventsCache :: "nat \<Rightarrow> ParticipantEventsCache" where
  "NewParticipantEventsCache n =
     \<lparr>pec_participants = NewPeerSet [], pec_rim = NewRollingIndexMap ''ParticipantEvents'' n\<rparr>"

definition pec_AddPeer :: "Peer \<Rightarrow> (ParticipantEventsCache, unit) go" where
  "pec_AddPeer peer pec =
     (let pec' = pec\<lparr>pec_participants := WithNewPeer (pec_participants pec) peer\<rparr>;
          (r, rim) = AddKey (peer_ID peer) (pec_rim pec')
      in (r, pec'\<lparr>pec_rim := rim\<rparr>))"

definition participantID :: "ParticipantEventsCache \<Rightarrow> string \<Rightarrow> (32 word) res" where
  "participantID pec participant =
     (let pUpper = ToUpper participant
      in case map_of (ps_ByPubKey (pec_participants pec)) pUpper of
           None \<Rightarrow> Err (NewStoreErr ''ParticipantEvents'' UnknownParticipant pUpper)
         | Some peer \<Rightarrow> Ok (peer_ID peer))"

definition pec_Get :: "ParticipantEventsCache \<Rightarrow> string \<Rightarrow> int \<Rightarrow> string list res" where
  "pec_Get pec participant skipIndex =
     bindO (participantID pec participant) (\<lambda>i. rim_Get (pec_rim pec) i skipIndex)"

definition pec_GetItem :: "ParticipantEventsCache \<Rightarrow> string \<Rightarrow> int \<Rightarrow> string res" where
  "pec_GetItem pec participant index =
     bindO (participantID pec participant) (\<lambda>i. rim_GetItem (pec_rim pec) i index)"

definition pec_GetLast :: "ParticipantEventsCache \<Rightarrow> string \<Rightarrow> string res" where
  "pec_GetLast pec participant =
     bindO (participantID pec participant) (\<lambda>i. rim_GetLast (pec_rim pec) i)"

definition pec_Set :: "string \<Rightarrow> string \<Rightarrow> int \<Rightarrow> (ParticipantEventsCache, unit) go" where
  "pec_Set participant hash index pec =
     bindG (liftO (participantID pec participant))
       (\<lambda>i pec. (let (r, rim) = rim_Set i hash index (pec_rim pec) in (r, pec\<lparr>pec_rim := rim\<rparr>))) pec"

definition pec_Known :: "ParticipantEventsCache \<Rightarrow> (32 word \<times> int) list" where
  "pec_Known pec = rim_Known (pec_rim pec)"

section \<open>PeerSetCache\<close>

record PeerSetCache =
  psc_rounds :: "int list"
  psc_peerSets :: "(int \<times> PeerSet) list"
  psc_repertoireByPubKey :: "(string \<times> Peer) list"
  psc_repertoireByID :: "(32 word \<times> Peer) list"
  psc_firstRounds :: "(32 word \<times> int) list"

definition NewPeerSetCache :: PeerSetCache where
  "NewPeerSetCache =
     \<lparr>psc_rounds = [], psc_peerSets = [], psc_repertoireByPubKey = [], psc_repertoireByID = [],
      psc_firstRounds = []\<rparr>"

definition psc_register :: "int \<Rightarrow> PeerSetCache \<Rightarrow> Peer \<Rightarrow> PeerSetCache" where
  "psc_register round c p =
     c\<lparr>psc_repertoireByPubKey := AList.update (PubKeyString p) p (psc_repertoireByPubKey c),
       psc_repertoireByID := AList.update (peer_ID p) p (psc_repertoireByID c),
       psc_firstRounds :=
         (case map_of (psc_firstRounds c) (peer_ID p) of
            None \<Rightarrow> AList.update (peer_ID p) round (psc_firstRounds c)
          | Some fr \<Rightarrow>
              if fr > round then AList.update (peer_ID p) round (psc_firstRounds c)
              else psc_firstRounds c)\<rparr>"

definition psc_Set :: "int \<Rightarrow> PeerSet \<Rightarrow> (PeerSetCache, unit) go" where
  "psc_Set round peerSet c =
     (case map_of (psc_peerSets c) round of
        Some _ \<Rightarrow> (Err (NewStoreErr ''PeerSetCache'' KeyAlreadyExists (itoa round)), c)
      | None \<Rightarrow>
          (Ok (),
           foldl (psc_register round)
             (c\<lparr>psc_peerSets := AList.update round peerSet (psc_peerSets c),
                psc_rounds := sort (psc_rounds c @ [round])\<rparr>)
             (ps_Peers peerSet)))"

text \<open>The loop that situates a round in the sorted list, and the last entry after it.\<close>

fun psc_situate :: "int \<Rightarrow> int list \<Rightarrow> int option" where
  "psc_situate round [] = None"
| "psc_situate round [a] = Some a"
| "psc_situate round (a # b # rest) =
     (if a \<le> round \<and> round < b then Some a else psc_situate round (b # rest))"

text \<open>Every listed round has its peer-set; reading the map at another round would give a nil
  pointer.\<close>

definition psc_at :: "PeerSetCache \<Rightarrow> int \<Rightarrow> PeerSet res" where
  "psc_at c r = (case map_of (psc_peerSets c) r of Some ps \<Rightarrow> Ok ps | None \<Rightarrow> Panic)"

definition psc_Get :: "PeerSetCache \<Rightarrow> int \<Rightarrow> PeerSet res" where
  "psc_Get c round =
     (case map_of (psc_peerSets c) round of
        Some ps \<Rightarrow> Ok ps
      | None \<Rightarrow>
          (case psc_rounds c of
             [] \<Rightarrow> Err (NewStoreErr ''PeerSetCache'' KeyNotFound (itoa round))
           | r0 # _ \<Rightarrow>
               if round < r0 then psc_at c r0
               else (case psc_situate round (psc_rounds c) of
                       Some r \<Rightarrow> psc_at c r
                     | None \<Rightarrow> Panic)))"

fun psc_GetAll_loop ::
  "PeerSetCache \<Rightarrow> int list \<Rightarrow> (int \<times> Peer list) list \<Rightarrow> (int \<times> Peer list) list res" where
  "psc_GetAll_loop c [] res = Ok res"
| "psc_GetAll_loop c (r # rs) res =
     bindO (psc_at c r) (\<lambda>ps. psc_GetAll_loop c rs (AList.update r (ps_Peers ps) res))"

definition psc_GetAll :: "PeerSetCache \<Rightarrow> (int \<times> Peer list) list res" where
  "psc_GetAll c = psc_GetAll_loop c (psc_rounds c) []"

definition MaxInt32 :: int where
  "MaxInt32 = 2147483647"

definition psc_FirstRound :: "PeerSetCache \<Rightarrow> 32 word \<Rightarrow> int \<times> bool" where
  "psc_FirstRound c i =
     (case map_of (psc_firstRounds c) i of Some fr \<Rightarrow> (fr, True) | None \<Rightarrow> (MaxInt32, False))"

subsection \<open>The history of peer-sets\<close>

text \<open>The rounds are listed in increasing order, each once, and are the keys of the map.\<close>

definition psc_inv :: "PeerSetCache \<Rightarrow> bool" where
  "psc_inv c \<longleftrightarrow>
     sorted (psc_rounds c) \<and> distinct (psc_rounds c) \<and>
     (\<forall>r. r \<in> set (psc_rounds c) \<longleftrightarrow> map_of (psc_peerSets c) r \<noteq> None)"

lemma psc_register_one [simp]:
  "psc_rounds (psc_register r c p) = psc_rounds c"
  "psc_peerSets (psc_register r c p) = psc_peerSets c"
  by (simp_all add: psc_register_def)

lemma psc_register_rounds [simp]:
  "psc_rounds (foldl (psc_register r) c ps) = psc_rounds c"
  "psc_peerSets (foldl (psc_register r) c ps) = psc_peerSets c"
  by (induction ps arbitrary: c) simp_all

lemma psc_inv_New [simp]: "psc_inv NewPeerSetCache"
  by (simp add: psc_inv_def NewPeerSetCache_def)

lemma psc_inv_Set [simp]:
  assumes "psc_inv c"
  shows "psc_inv (snd (psc_Set r ps c))"
  using assms by (auto simp: psc_inv_def psc_Set_def split: option.split)

lemma psc_situate_spec:
  assumes "sorted rs" and "rs \<noteq> []" and "hd rs \<le> r"
  obtains a where "psc_situate r rs = Some a" and "a \<in> set rs" and "a \<le> r"
    and "\<And>b. b \<in> set rs \<Longrightarrow> b \<le> r \<Longrightarrow> b \<le> a"
  using assms
proof (induction r rs arbitrary: thesis rule: psc_situate.induct)
  case (1 round)
  then show ?case by simp
next
  case (2 round a)
  then show ?case by simp
next
  case (3 round a b rest)
  show ?case
  proof (cases "round < b")
    case True
    then show ?thesis using 3(3-5) by (intro 3(2) [of a]) fastforce+
  next
    case False
    have s: "sorted (b # rest)" "b # rest \<noteq> []" "hd (b # rest) \<le> round"
      using 3(3) False by simp_all
    have "\<not> (a \<le> round \<and> round < b)" using False by simp
    from 3(1) [OF this _ s] obtain c where
      c: "psc_situate round (b # rest) = Some c" "c \<in> set (b # rest)" "c \<le> round"
      "\<And>b'. b' \<in> set (b # rest) \<Longrightarrow> b' \<le> round \<Longrightarrow> b' \<le> c" by blast
    have "a \<le> c" using c(2) 3(3) by auto
    then show ?thesis using c False by (intro 3(2) [of c]) auto
  qed
qed

text \<open>\<open>Get\<close> returns the peer-set of the greatest registered round up to the given one, and that of
  the first registered round before it.\<close>

lemma psc_Get_greatest:
  assumes "psc_inv c" and "r0 \<in> set (psc_rounds c)" and "r0 \<le> r"
  obtains a ps where "psc_Get c r = Ok ps" and "map_of (psc_peerSets c) a = Some ps"
    and "a \<le> r" and "\<And>b. b \<in> set (psc_rounds c) \<Longrightarrow> b \<le> r \<Longrightarrow> b \<le> a"
proof (cases "map_of (psc_peerSets c) r")
  case (Some ps)
  then show ?thesis by (intro that [of ps r]) (simp_all add: psc_Get_def)
next
  case None
  obtain h t where ht: "psc_rounds c = h # t" using assms(2) by (cases "psc_rounds c") auto
  have "sorted (h # t)" and "r0 \<in> set (h # t)" using assms(1,2) ht by (simp_all add: psc_inv_def)
  then have h: "hd (psc_rounds c) \<le> r" using assms(3) ht by auto
  obtain a where a: "psc_situate r (psc_rounds c) = Some a" "a \<in> set (psc_rounds c)" "a \<le> r"
    "\<And>b. b \<in> set (psc_rounds c) \<Longrightarrow> b \<le> r \<Longrightarrow> b \<le> a"
    using psc_situate_spec [of "psc_rounds c" r] assms(1) h ht by (auto simp: psc_inv_def)
  obtain ps where ps: "map_of (psc_peerSets c) a = Some ps"
    using a(2) assms(1) by (auto simp: psc_inv_def)
  have "psc_Get c r = Ok ps"
    using None h ht a(1) ps by (simp add: psc_Get_def psc_at_def)
  then show ?thesis using ps a(3,4) by (rule that)
qed

lemma psc_Get_before:
  assumes "psc_inv c" and "psc_rounds c = r0 # rs" and "r < r0"
  shows "\<exists>ps. psc_Get c r = Ok ps \<and> map_of (psc_peerSets c) r0 = Some ps"
proof -
  have "r0 \<in> set (psc_rounds c)" and "r \<notin> set (psc_rounds c)"
    using assms by (auto simp: psc_inv_def)
  then have "map_of (psc_peerSets c) r = None" and "map_of (psc_peerSets c) r0 \<noteq> None"
    using assms(1) unfolding psc_inv_def by blast+
  then show ?thesis using assms(2,3) by (auto simp: psc_Get_def psc_at_def)
qed

text \<open>Once a peer-set is recorded, the peer-set of the rounds before it does not change, and neither
  does the one of the rounds after a later record.\<close>

lemma psc_Get_Set_stable:
  assumes "psc_inv c" and "fst (psc_Set r ps c) = Ok ()"
    and "r0 \<in> set (psc_rounds c)" and "r0 \<le> q" and "q < r \<or> (\<exists>r1\<in>set (psc_rounds c). r < r1 \<and> r1 \<le> q)"
  shows "psc_Get (snd (psc_Set r ps c)) q = psc_Get c q"
proof -
  let ?c = "snd (psc_Set r ps c)"
  have fresh: "map_of (psc_peerSets c) r = None"
    using assms(2) by (auto simp: psc_Set_def split: option.splits)
  have rounds: "set (psc_rounds ?c) = insert r (set (psc_rounds c))"
    and sets: "map_of (psc_peerSets ?c) = (map_of (psc_peerSets c))(r \<mapsto> ps)"
    using fresh by (simp_all add: psc_Set_def update_conv')
  obtain a p where a: "psc_Get c q = Ok p" "map_of (psc_peerSets c) a = Some p" "a \<le> q"
    "\<And>b. b \<in> set (psc_rounds c) \<Longrightarrow> b \<le> q \<Longrightarrow> b \<le> a"
    using psc_Get_greatest [OF assms(1,3,4)] by blast
  have inv': "psc_inv ?c" and r0': "r0 \<in> set (psc_rounds ?c)"
    using assms(1,3) rounds by simp_all
  obtain a' p' where a': "psc_Get ?c q = Ok p'" "map_of (psc_peerSets ?c) a' = Some p'" "a' \<le> q"
    "\<And>b. b \<in> set (psc_rounds ?c) \<Longrightarrow> b \<le> q \<Longrightarrow> b \<le> a'"
    using psc_Get_greatest [OF inv' r0' assms(4)] by blast
  have mem: "a \<in> set (psc_rounds c)" "a' = r \<or> a' \<in> set (psc_rounds c)"
    using a(2) a'(2) assms(1) sets by (auto simp: psc_inv_def split: if_splits)
  have "a' \<noteq> r"
  proof
    assume "a' = r"
    with assms(5) a'(3) obtain r1 where "r1 \<in> set (psc_rounds c)" "r < r1" "r1 \<le> q" by auto
    then show False using a'(4) [of r1] rounds \<open>a' = r\<close> by auto
  qed
  then have "a' \<le> a" "a \<le> a'" using mem a(3,4) a'(3,4) rounds by auto
  then show ?thesis using a(1,2) a'(1,2) sets \<open>a' \<noteq> r\<close> by simp
qed

section \<open>PendingRoundsCache\<close>

text \<open>\<open>items\<close> and \<open>sortedItems\<close> hold pointers to the same \<open>PendingRound\<close>s, so that \<open>Update\<close>
  is seen in both. \<open>DivideRounds\<close>, the only caller of \<open>Set\<close>, queues an index once.\<close>

record PendingRoundsCache =
  prc_items :: "(int \<times> pendingRound) list"
  prc_sortedItems :: "pendingRound list"

definition NewPendingRoundsCache :: PendingRoundsCache where
  "NewPendingRoundsCache = \<lparr>prc_items = [], prc_sortedItems = []\<rparr>"

definition Queued :: "PendingRoundsCache \<Rightarrow> int \<Rightarrow> bool" where
  "Queued c round \<longleftrightarrow> map_of (prc_items c) round \<noteq> None"

definition prc_Set :: "pendingRound \<Rightarrow> PendingRoundsCache \<Rightarrow> PendingRoundsCache" where
  "prc_Set pr c =
     c\<lparr>prc_items := AList.update (pr_Index pr) pr (prc_items c),
       prc_sortedItems := sort_key pr_Index (prc_sortedItems c @ [pr])\<rparr>"

definition GetOrderedPendingRounds :: "PendingRoundsCache \<Rightarrow> pendingRound list" where
  "GetOrderedPendingRounds c = prc_sortedItems c"

definition prc_Update :: "int list \<Rightarrow> PendingRoundsCache \<Rightarrow> PendingRoundsCache" where
  "prc_Update decidedRounds c =
     foldl (\<lambda>c drn.
         (case map_of (prc_items c) drn of
            None \<Rightarrow> c
          | Some dr \<Rightarrow>
              c\<lparr>prc_items := AList.update drn (dr\<lparr>pr_Decided := True\<rparr>) (prc_items c),
                prc_sortedItems :=
                  map (\<lambda>pr. if pr_Index pr = drn then pr\<lparr>pr_Decided := True\<rparr> else pr)
                    (prc_sortedItems c)\<rparr>))
       c decidedRounds"

definition prc_Clean :: "int list \<Rightarrow> PendingRoundsCache \<Rightarrow> PendingRoundsCache" where
  "prc_Clean processedRounds c =
     (let items = foldl (\<lambda>m pr. AList.delete pr m) (prc_items c) processedRounds
      in c\<lparr>prc_items := items, prc_sortedItems := sort_key pr_Index (map snd items)\<rparr>)"

section \<open>SigPool\<close>

record SigPool =
  sp_items :: "(string \<times> BlockSignature) list"

definition NewSigPool :: SigPool where
  "NewSigPool = \<lparr>sp_items = []\<rparr>"

definition sp_Add :: "BlockSignature \<Rightarrow> SigPool \<Rightarrow> SigPool" where
  "sp_Add bs sp = sp\<lparr>sp_items := AList.update (bs_Key bs) bs (sp_items sp)\<rparr>"

definition sp_Remove :: "string \<Rightarrow> SigPool \<Rightarrow> SigPool" where
  "sp_Remove k sp = sp\<lparr>sp_items := AList.delete k (sp_items sp)\<rparr>"

definition RemoveSlice :: "BlockSignature list \<Rightarrow> SigPool \<Rightarrow> SigPool" where
  "RemoveSlice sigs sp =
     sp\<lparr>sp_items := foldl (\<lambda>m s. AList.delete (bs_Key s) m) (sp_items sp) sigs\<rparr>"

definition sp_Len :: "SigPool \<Rightarrow> nat" where
  "sp_Len sp = length (sp_items sp)"

definition sp_Slice :: "SigPool \<Rightarrow> BlockSignature list" where
  "sp_Slice sp = map snd (sp_items sp)"

subsection \<open>The queue of pending rounds\<close>

text \<open>The sorted list and the map hold the same rounds, each under its index, in increasing
  order.\<close>

definition prc_inv :: "PendingRoundsCache \<Rightarrow> bool" where
  "prc_inv c \<longleftrightarrow>
     sorted (map pr_Index (prc_sortedItems c)) \<and>
     distinct (map pr_Index (prc_sortedItems c)) \<and>
     distinct (map fst (prc_items c)) \<and>
     (\<forall>i pr. map_of (prc_items c) i = Some pr \<longleftrightarrow> pr \<in> set (prc_sortedItems c) \<and> pr_Index pr = i)"

lemma distinct_map_sort_key: "distinct (map f (sort_key g xs)) \<longleftrightarrow> distinct (map f xs)"
  by (rule mset_eq_imp_distinct_iff) simp

lemma prc_inv_New [simp]: "prc_inv NewPendingRoundsCache"
  by (simp add: prc_inv_def NewPendingRoundsCache_def)

lemma prc_inv_Queued: "prc_inv c \<Longrightarrow> Queued c i \<longleftrightarrow> i \<in> pr_Index ` set (prc_sortedItems c)"
  by (auto simp: prc_inv_def Queued_def)

lemma prc_inv_Set:
  assumes "prc_inv c" and "\<not> Queued c (pr_Index pr)"
  shows "prc_inv (prc_Set pr c)"
proof -
  have fresh: "pr_Index pr \<notin> pr_Index ` set (prc_sortedItems c)"
    using assms prc_inv_Queued by blast
  have "distinct (map pr_Index (sort_key pr_Index (prc_sortedItems c @ [pr])))"
    using assms(1) fresh by (simp add: prc_inv_def distinct_map distinct_insort inj_on_insert) blast
  moreover have "distinct (map fst (prc_items (prc_Set pr c)))"
    using assms(1) by (simp add: prc_inv_def prc_Set_def distinct_update)
  moreover have "(map_of (prc_items (prc_Set pr c)) i = Some q) \<longleftrightarrow>
      q \<in> set (prc_sortedItems (prc_Set pr c)) \<and> pr_Index q = i" for i q
    using assms(1) fresh by (auto simp: prc_inv_def prc_Set_def image_iff)
  ultimately show ?thesis by (simp add: prc_inv_def prc_Set_def)
qed

lemma prc_inv_Update1:
  assumes "prc_inv c" and "map_of (prc_items c) drn = Some dr"
  shows "prc_inv (c\<lparr>prc_items := AList.update drn (dr\<lparr>pr_Decided := True\<rparr>) (prc_items c),
      prc_sortedItems :=
        map (\<lambda>pr. if pr_Index pr = drn then pr\<lparr>pr_Decided := True\<rparr> else pr) (prc_sortedItems c)\<rparr>)"
proof -
  let ?f = "\<lambda>pr. if pr_Index pr = drn then pr\<lparr>pr_Decided := True\<rparr> else pr"
  have idx: "map pr_Index (map ?f xs) = map pr_Index xs" for xs by simp
  have iff: "(if i = drn then Some (dr\<lparr>pr_Decided := True\<rparr>) else map_of (prc_items c) i) = Some q \<longleftrightarrow>
      q \<in> ?f ` set (prc_sortedItems c) \<and> pr_Index q = i" for i q
  proof -
    have dr: "dr \<in> set (prc_sortedItems c)" "pr_Index dr = drn"
      using assms by (auto simp: prc_inv_def)
    have uniq: "p = dr" if "p \<in> set (prc_sortedItems c)" "pr_Index p = drn" for p
      using that dr assms(1) by (metis distinct_map inj_onD prc_inv_def)
    have other: "map_of (prc_items c) i = Some q \<longleftrightarrow> q \<in> set (prc_sortedItems c) \<and> pr_Index q = i"
      using assms(1) by (simp add: prc_inv_def)
    show ?thesis
    proof (cases "i = drn")
      case True
      have "q = ?f dr" if q: "q \<in> ?f ` set (prc_sortedItems c)" "pr_Index q = drn"
      proof -
        obtain p where p: "p \<in> set (prc_sortedItems c)" "q = ?f p" using q(1) by blast
        then have "pr_Index p = drn" using q(2) by (simp split: if_splits)
        then show ?thesis using p uniq by blast
      qed
      moreover have "?f dr \<in> ?f ` set (prc_sortedItems c)" using dr(1) by (rule imageI)
      ultimately show ?thesis using True dr(2) by auto
    next
      case False
      have "q \<in> ?f ` set (prc_sortedItems c) \<longleftrightarrow> q \<in> set (prc_sortedItems c)" if "pr_Index q = i"
        using that False by (auto simp: image_iff split: if_splits)
      then show ?thesis using False other by auto
    qed
  qed
  show ?thesis using assms(1) iff unfolding prc_inv_def
    by (simp add: idx distinct_update del: map_map)
qed

lemma prc_inv_Update [simp]: "prc_inv c \<Longrightarrow> prc_inv (prc_Update ds c)"
  unfolding prc_Update_def
proof (induction ds arbitrary: c)
  case Nil
  then show ?case by simp
next
  case (Cons d ds)
  have "prc_inv (case map_of (prc_items c) d of None \<Rightarrow> c
      | Some dr \<Rightarrow> c\<lparr>prc_items := AList.update d (dr\<lparr>pr_Decided := True\<rparr>) (prc_items c),
          prc_sortedItems :=
            map (\<lambda>pr. if pr_Index pr = d then pr\<lparr>pr_Decided := True\<rparr> else pr) (prc_sortedItems c)\<rparr>)"
    using Cons.prems prc_inv_Update1 by (auto split: option.split)
  then show ?case using Cons.IH by simp
qed

lemma map_of_foldl_delete:
  "map_of (foldl (\<lambda>m k. AList.delete (f k) m) m ks) = (map_of m) |` (- f ` set ks)"
  by (induction ks arbitrary: m) (auto simp: fun_eq_iff restrict_map_def)

lemma distinct_foldl_delete:
  "distinct (map fst m) \<Longrightarrow> distinct (map fst (foldl (\<lambda>m k. AList.delete (f k) m) m ks))"
  by (induction ks arbitrary: m) (auto intro: distinct_fst_delete)

lemma prc_Clean_items:
  "map_of (prc_items (prc_Clean ps c)) = (map_of (prc_items c)) |` (- set ps)"
  using map_of_foldl_delete [of "\<lambda>k. k"] by (simp add: prc_Clean_def Let_def)

lemma prc_inv_Clean [simp]:
  assumes "prc_inv c"
  shows "prc_inv (prc_Clean ps c)"
proof -
  let ?items = "prc_items (prc_Clean ps c)"
  have d: "distinct (map fst ?items)"
    using assms distinct_foldl_delete [of "prc_items c" "\<lambda>k. k"]
    by (simp add: prc_inv_def prc_Clean_def Let_def)
  have idx: "pr_Index pr = i" if "(i, pr) \<in> set ?items" for i pr
  proof -
    have "map_of ?items i = Some pr" using that d by simp
    then show ?thesis using assms by (auto simp: prc_Clean_items prc_inv_def restrict_map_def split: if_splits)
  qed
  have eq: "map (\<lambda>p. pr_Index (snd p)) ?items = map fst ?items" using idx by auto
  have s: "prc_sortedItems (prc_Clean ps c) = sort_key pr_Index (map snd ?items)"
    by (simp add: prc_Clean_def Let_def)
  have "distinct (map pr_Index (map snd ?items))"
    using d by (simp add: eq comp_def)
  then have "distinct (map pr_Index (prc_sortedItems (prc_Clean ps c)))"
    unfolding s distinct_map_sort_key .
  moreover have "map_of ?items i = Some pr \<longleftrightarrow> pr \<in> set (prc_sortedItems (prc_Clean ps c)) \<and> pr_Index pr = i"
    for i pr
  proof -
    have "pr \<in> snd ` set ?items \<and> pr_Index pr = i" if "(i, pr) \<in> set ?items"
      using that idx by force
    moreover have "(i, pr) \<in> set ?items" if "pr \<in> snd ` set ?items" "pr_Index pr = i"
      using that idx by auto
    ultimately have "(i, pr) \<in> set ?items \<longleftrightarrow> pr \<in> snd ` set ?items \<and> pr_Index pr = i" by blast
    then show ?thesis using d by (simp add: s)
  qed
  ultimately show ?thesis unfolding prc_inv_def using d by (simp add: s)
qed

lemma prc_Clean_sorted:
  assumes "prc_inv c"
  shows "set (prc_sortedItems (prc_Clean ps c)) =
     {pr \<in> set (prc_sortedItems c). pr_Index pr \<notin> set ps}"
proof -
  have "pr \<in> set (prc_sortedItems d) \<longleftrightarrow> map_of (prc_items d) (pr_Index pr) = Some pr"
    if "prc_inv d" for d pr using that by (simp add: prc_inv_def)
  from this [OF assms] this [OF prc_inv_Clean [OF assms, of ps]] show ?thesis
    by (auto simp: prc_Clean_items restrict_map_def split: if_splits)
qed

subsection \<open>The pool\<close>

lemma sp_Add_items: "map_of (sp_items (sp_Add bs sp)) = (map_of (sp_items sp))(bs_Key bs \<mapsto> bs)"
  by (simp add: sp_Add_def update_conv')

lemma RemoveSlice_items:
  "map_of (sp_items (RemoveSlice sigs sp)) = (map_of (sp_items sp)) |` (- bs_Key ` set sigs)"
  by (simp add: RemoveSlice_def map_of_foldl_delete)

section \<open>Properties\<close>

text \<open>once peer-sets are recorded at some rounds, \<open>PeerSetCache.Get\<close> never fails and returns
  the peer-set recorded at the greatest of these rounds that is not after the requested one; before
  the first recorded round it returns the first peer-set.\<close>

theorem peer_set_of_round:
  assumes "psc_inv c" and "psc_rounds c \<noteq> []"
  shows "\<exists>a ps. psc_Get c r = Ok ps \<and> map_of (psc_peerSets c) a = Some ps \<and>
    a = (if \<exists>b\<in>set (psc_rounds c). b \<le> r then Max {b \<in> set (psc_rounds c). b \<le> r}
         else Min (set (psc_rounds c)))"
proof (cases "\<exists>b\<in>set (psc_rounds c). b \<le> r")
  case True
  then obtain b where b: "b \<in> set (psc_rounds c)" "b \<le> r" by blast
  obtain a ps where a: "psc_Get c r = Ok ps" "map_of (psc_peerSets c) a = Some ps" "a \<le> r"
    "\<And>b. b \<in> set (psc_rounds c) \<Longrightarrow> b \<le> r \<Longrightarrow> b \<le> a"
    using psc_Get_greatest [OF assms(1) b] by blast
  have "a \<in> set (psc_rounds c)" using a(2) assms(1) by (auto simp: psc_inv_def)
  then have "Max {b \<in> set (psc_rounds c). b \<le> r} = a" using a by (intro Max_eqI) auto
  then show ?thesis using a(1,2) True by auto
next
  case False
  obtain r0 rs where rs: "psc_rounds c = r0 # rs" using assms(2) by (cases "psc_rounds c") auto
  have sorted: "sorted (r0 # rs)" using assms(1) rs by (simp add: psc_inv_def)
  obtain ps where "psc_Get c r = Ok ps" "map_of (psc_peerSets c) r0 = Some ps"
    using psc_Get_before [OF assms(1) rs, of r] False rs by auto
  moreover have "Min (set (psc_rounds c)) = r0" using sorted rs by (intro Min_eqI) auto
  ultimately show ?thesis using False by auto
qed

definition two_peer_sets :: PeerSetCache where
  "two_peer_sets = snd (psc_Set 5 (NewPeerSet [NewPeer ''0XAA'' [] []]) (snd (psc_Set 0 (NewPeerSet []) NewPeerSetCache)))"

theorem peer_set_of_round_witness:
  "\<exists>a ps. psc_Get two_peer_sets 7 = Ok ps \<and> map_of (psc_peerSets two_peer_sets) a = Some ps \<and>
    a = (if \<exists>b\<in>set (psc_rounds two_peer_sets). b \<le> 7
         then Max {b \<in> set (psc_rounds two_peer_sets). b \<le> 7}
         else Min (set (psc_rounds two_peer_sets)))"
proof (rule peer_set_of_round)
  show "psc_inv two_peer_sets" by (simp add: two_peer_sets_def)
  show "psc_rounds two_peer_sets \<noteq> []" by (simp add: two_peer_sets_def psc_Set_def NewPeerSetCache_def)
qed

text \<open>The calls that change the queue of pending rounds, as the hashgraph makes them: a round is only
  set when it is not queued.\<close>

datatype prc_op = PSet int | PUpdate "int list" | PClean "int list"

fun prc_step :: "prc_op \<Rightarrow> PendingRoundsCache \<Rightarrow> PendingRoundsCache" where
  "prc_step (PSet i) c = (if Queued c i then c else prc_Set \<lparr>pr_Index = i, pr_Decided = False\<rparr> c)"
| "prc_step (PUpdate ds) c = prc_Update ds c"
| "prc_step (PClean ps) c = prc_Clean ps c"

text \<open>Whatever calls are made on the queue of pending rounds, its ordered list is strictly
  increasing in the round index and holds the queued rounds, no more and no less.\<close>

theorem pending_rounds_ordered:
  "let c = fold prc_step ops NewPendingRoundsCache in
    sorted (map pr_Index (GetOrderedPendingRounds c)) \<and> distinct (map pr_Index (GetOrderedPendingRounds c)) \<and>
    (\<forall>i. Queued c i \<longleftrightarrow> i \<in> pr_Index ` set (GetOrderedPendingRounds c))"
proof -
  have step: "prc_inv (prc_step op c)" if "prc_inv c" for op c
    using that by (cases op) (auto intro: prc_inv_Set)
  have "prc_inv (fold prc_step ops c)" if "prc_inv c" for c
    using that by (induction ops arbitrary: c) (auto intro: step)
  then have "prc_inv (fold prc_step ops NewPendingRoundsCache)" by simp
  then show ?thesis
    using prc_inv_Queued by (simp add: Let_def GetOrderedPendingRounds_def) (simp add: prc_inv_def)
qed

end
