(* ===== verification/Inmem_Store.thy ===== *)
theory Inmem_Store
  imports Caches
begin

text \<open>
  \<open>src/src/hashgraph/inmem_store.go\<close>: the store of events, rounds, blocks, frames and peer-sets
  behind the hashgraph. Every read of an LRU cache refreshes the recency of the entry, so reads are
  statements too.

  After \<open>Reset\<close> the map \<open>roots\<close> is the very map of the frame the store was reset from
  (\<open>s.roots = frame.Roots\<close>), and that frame sits in the frame cache. \<open>is_rootsFrame\<close> records the
  round of that frame, and a root added to \<open>roots\<close> shows in it.
\<close>

record InmemStore =
  is_cacheSize :: nat
  is_eventCache :: "(string, Event) LRU"
  is_roundCache :: "(int, RoundInfo) LRU"
  is_blockCache :: "(int, Block) LRU"
  is_frameCache :: "(int, Frame) LRU"
  is_consensusCache :: "string RollingIndex"
  is_totConsensusEvents :: int
  is_peerSetCache :: PeerSetCache
  is_participantEventsCache :: ParticipantEventsCache
  is_roots :: "(string \<times> Root) list"
  is_rootsFrame :: "int option"
  is_lastRound :: int
  is_lastConsensusEvents :: "(string \<times> string) list"
  is_lastBlock :: int

definition NewInmemStore :: "nat \<Rightarrow> InmemStore" where
  "NewInmemStore cacheSize =
     \<lparr>is_cacheSize = cacheSize,
      is_eventCache = NewLRU cacheSize,
      is_roundCache = NewLRU cacheSize,
      is_blockCache = NewLRU cacheSize,
      is_frameCache = NewLRU cacheSize,
      is_consensusCache = NewRollingIndex ''ConsensusCache'' cacheSize,
      is_totConsensusEvents = 0,
      is_peerSetCache = NewPeerSetCache,
      is_participantEventsCache = NewParticipantEventsCache cacheSize,
      is_roots = [],
      is_rootsFrame = None,
      is_lastRound = -1,
      is_lastConsensusEvents = [],
      is_lastBlock = -1\<rparr>"

section \<open>Peer-sets\<close>

definition GetPeerSet :: "int \<Rightarrow> (InmemStore, PeerSet) go" where
  "GetPeerSet round s = (psc_Get (is_peerSetCache s) round, s)"

text \<open>The error of \<open>AddPeer\<close> ends \<open>addParticipant\<close> before the roots are looked at; the caller
  drops it.\<close>

definition add_root :: "string \<Rightarrow> InmemStore \<Rightarrow> InmemStore" where
  "add_root k s =
     (let roots = AList.update k NewRoot (is_roots s)
      in s\<lparr>is_roots := roots,
           is_frameCache :=
             (case is_rootsFrame s of
                None \<Rightarrow> is_frameCache s
              | Some r \<Rightarrow>
                  (case lru_lookup (is_frameCache s) r of
                     None \<Rightarrow> is_frameCache s
                   | Some f \<Rightarrow> lru_poke r (f\<lparr>fr_Roots := roots\<rparr>) (is_frameCache s)))\<rparr>)"

definition addParticipant :: "Peer \<Rightarrow> (InmemStore, unit) go" where
  "addParticipant p =
     bindG
       (\<lambda>s. (case map_of (ps_ByID (pec_participants (is_participantEventsCache s))) (peer_ID p) of
               Some _ \<Rightarrow> (Ok (), s)
             | None \<Rightarrow>
                 (let (r, pec) = pec_AddPeer p (is_participantEventsCache s)
                  in (r, s\<lparr>is_participantEventsCache := pec\<rparr>))))
       (\<lambda>_. modifyG (\<lambda>s. (case map_of (is_roots s) (PubKeyString p) of
               Some _ \<Rightarrow> s
             | None \<Rightarrow> add_root (PubKeyString p) s)))"

definition SetPeerSet :: "int \<Rightarrow> PeerSet \<Rightarrow> (InmemStore, unit) go" where
  "SetPeerSet round peerSet =
     bindG (\<lambda>s. (let (r, c) = psc_Set round peerSet (is_peerSetCache s)
                 in (r, s\<lparr>is_peerSetCache := c\<rparr>)))
       (\<lambda>_. foldG (\<lambda>p _. tryG (addParticipant p) (\<lambda>_. okG ())) (ps_Peers peerSet) ())"

definition GetAllPeerSets :: "(InmemStore, (int \<times> Peer list) list) go" where
  "GetAllPeerSets s = (psc_GetAll (is_peerSetCache s), s)"

definition FirstRound :: "InmemStore \<Rightarrow> 32 word \<Rightarrow> int \<times> bool" where
  "FirstRound s i = psc_FirstRound (is_peerSetCache s) i"

definition RepertoireByPubKey :: "InmemStore \<Rightarrow> (string \<times> Peer) list" where
  "RepertoireByPubKey s = psc_repertoireByPubKey (is_peerSetCache s)"

definition RepertoireByID :: "InmemStore \<Rightarrow> (32 word \<times> Peer) list" where
  "RepertoireByID s = psc_repertoireByID (is_peerSetCache s)"

section \<open>Events\<close>

definition GetEvent :: "string \<Rightarrow> (InmemStore, Event) go" where
  "GetEvent k s =
     (let (v, c) = lru_Get k (is_eventCache s)
      in ((case v of
             None \<Rightarrow> Err (NewStoreErr ''EventCache'' KeyNotFound k)
           | Some e \<Rightarrow> Ok e),
          s\<lparr>is_eventCache := c\<rparr>))"

definition SetEvent :: "crypto \<Rightarrow> Event \<Rightarrow> (InmemStore, unit) go" where
  "SetEvent P event =
     (let k = Hex P event
      in tryG (GetEvent k)
        (\<lambda>r. bindG
           (case r of
              Inl err \<Rightarrow>
                if IsStore err KeyNotFound
                then (\<lambda>s. (let (r, pec) = pec_Set (Creator event) k (ev_Index event)
                                            (is_participantEventsCache s)
                           in (r, s\<lparr>is_participantEventsCache := pec\<rparr>)))
                else errG err
            | Inr _ \<Rightarrow> okG ())
           (\<lambda>_. modifyG (\<lambda>s. s\<lparr>is_eventCache := lru_add k event (is_eventCache s)\<rparr>))))"

definition ParticipantEvents :: "string \<Rightarrow> int \<Rightarrow> (InmemStore, string list) go" where
  "ParticipantEvents participant skip s = (pec_Get (is_participantEventsCache s) participant skip, s)"

definition ParticipantEvent :: "string \<Rightarrow> int \<Rightarrow> (InmemStore, string) go" where
  "ParticipantEvent participant index s =
     (pec_GetItem (is_participantEventsCache s) participant index, s)"

definition LastEventFrom :: "string \<Rightarrow> (InmemStore, string) go" where
  "LastEventFrom participant s = (pec_GetLast (is_participantEventsCache s) participant, s)"

definition LastConsensusEventFrom :: "string \<Rightarrow> (InmemStore, string) go" where
  "LastConsensusEventFrom participant s =
     (Ok (case map_of (is_lastConsensusEvents s) participant of Some x \<Rightarrow> x | None \<Rightarrow> ''''), s)"

definition KnownEvents :: "InmemStore \<Rightarrow> (32 word \<times> int) list" where
  "KnownEvents s = pec_Known (is_participantEventsCache s)"

definition ConsensusEvents :: "InmemStore \<Rightarrow> string list" where
  "ConsensusEvents s = fst (GetLastWindow (is_consensusCache s))"

definition ConsensusEventsCount :: "InmemStore \<Rightarrow> int" where
  "ConsensusEventsCount s = is_totConsensusEvents s"

definition AddConsensusEvent :: "crypto \<Rightarrow> Event \<Rightarrow> (InmemStore, unit) go" where
  "AddConsensusEvent P event s =
     (let (_, cc) = ri_Set (Hex P event) (is_totConsensusEvents s) (is_consensusCache s)
      in (Ok (), s\<lparr>is_consensusCache := cc,
                  is_totConsensusEvents := is_totConsensusEvents s + 1,
                  is_lastConsensusEvents :=
                    AList.update (Creator event) (Hex P event) (is_lastConsensusEvents s)\<rparr>))"

section \<open>Rounds\<close>

definition GetRound :: "int \<Rightarrow> (InmemStore, RoundInfo) go" where
  "GetRound r s =
     (let (v, c) = lru_Get r (is_roundCache s)
      in ((case v of
             None \<Rightarrow> Err (NewStoreErr ''RoundCache'' KeyNotFound (itoa r))
           | Some ri \<Rightarrow> Ok ri),
          s\<lparr>is_roundCache := c\<rparr>))"

definition SetRound :: "int \<Rightarrow> RoundInfo \<Rightarrow> (InmemStore, unit) go" where
  "SetRound r round s =
     (Ok (), s\<lparr>is_roundCache := lru_add r round (is_roundCache s),
               is_lastRound := (if r > is_lastRound s then r else is_lastRound s)\<rparr>)"

definition RoundWitnesses :: "int \<Rightarrow> (InmemStore, string list) go" where
  "RoundWitnesses r =
     tryG (GetRound r) (\<lambda>x. case x of Inl _ \<Rightarrow> okG [] | Inr round \<Rightarrow> okG (Witnesses round))"

definition RoundEvents :: "int \<Rightarrow> (InmemStore, nat) go" where
  "RoundEvents r =
     tryG (GetRound r)
       (\<lambda>x. case x of Inl _ \<Rightarrow> okG 0 | Inr round \<Rightarrow> okG (length (rd_CreatedEvents round)))"

section \<open>Roots, blocks, frames\<close>

definition GetRoot :: "string \<Rightarrow> (InmemStore, Root) go" where
  "GetRoot participant s =
     ((case map_of (is_roots s) participant of
         None \<Rightarrow> Err (NewStoreErr ''RootCache'' KeyNotFound participant)
       | Some r \<Rightarrow> Ok r), s)"

definition GetBlock :: "int \<Rightarrow> (InmemStore, Block) go" where
  "GetBlock index s =
     (let (v, c) = lru_Get index (is_blockCache s)
      in ((case v of
             None \<Rightarrow> Err (NewStoreErr ''BlockCache'' KeyNotFound (itoa index))
           | Some b \<Rightarrow> Ok b),
          s\<lparr>is_blockCache := c\<rparr>))"

definition SetBlock :: "Block \<Rightarrow> (InmemStore, unit) go" where
  "SetBlock block =
     (let index = bl_Index block
      in tryG (GetBlock index)
        (\<lambda>r. case r of
           Inl err \<Rightarrow>
             if \<not> IsStore err KeyNotFound then errG err
             else modifyG (\<lambda>s. s\<lparr>is_blockCache := lru_add index block (is_blockCache s),
                     is_lastBlock := (if index > is_lastBlock s then index else is_lastBlock s)\<rparr>)
         | Inr _ \<Rightarrow>
             modifyG (\<lambda>s. s\<lparr>is_blockCache := lru_add index block (is_blockCache s),
               is_lastBlock := (if index > is_lastBlock s then index else is_lastBlock s)\<rparr>)))"

definition store_GetFrame :: "int \<Rightarrow> (InmemStore, Frame) go" where
  "store_GetFrame index s =
     (let (v, c) = lru_Get index (is_frameCache s)
      in ((case v of
             None \<Rightarrow> Err (NewStoreErr ''FrameCache'' KeyNotFound (itoa index))
           | Some f \<Rightarrow> Ok f),
          s\<lparr>is_frameCache := c\<rparr>))"

text \<open>A frame that replaces the one \<open>roots\<close> comes from has a map of its own.\<close>

definition put_frame :: "Frame \<Rightarrow> InmemStore \<Rightarrow> InmemStore" where
  "put_frame frame s =
     s\<lparr>is_frameCache := lru_add (fr_Round frame) frame (is_frameCache s),
       is_rootsFrame := (if is_rootsFrame s = Some (fr_Round frame) then None else is_rootsFrame s)\<rparr>"

definition SetFrame :: "Frame \<Rightarrow> (InmemStore, unit) go" where
  "SetFrame frame =
     tryG (store_GetFrame (fr_Round frame))
       (\<lambda>r. case r of
          Inl err \<Rightarrow> if \<not> IsStore err KeyNotFound then errG err else modifyG (put_frame frame)
        | Inr _ \<Rightarrow> modifyG (put_frame frame))"

section \<open>Reset\<close>

definition clear_store :: "InmemStore \<Rightarrow> InmemStore" where
  "clear_store s =
     s\<lparr>is_peerSetCache := NewPeerSetCache,
       is_eventCache := NewLRU (is_cacheSize s),
       is_roundCache := NewLRU (is_cacheSize s),
       is_blockCache := NewLRU (is_cacheSize s),
       is_frameCache := NewLRU (is_cacheSize s),
       is_participantEventsCache := NewParticipantEventsCache (is_cacheSize s),
       is_roots := [],
       is_rootsFrame := None,
       is_lastRound := -1,
       is_lastBlock := -1,
       is_consensusCache := NewRollingIndex ''ConsensusCache'' (is_cacheSize s),
       is_lastConsensusEvents := []\<rparr>"

text \<open>The peer-sets of the frame are recorded before the frame is stored, and the roots they add are
  added to the map of the frame.\<close>

definition store_Reset :: "Frame \<Rightarrow> (InmemStore, unit) go" where
  "store_Reset frame =
     bindG (modifyG (\<lambda>s. (clear_store s)\<lparr>is_roots := fr_Roots frame\<rparr>)) (\<lambda>_.
     bindG (foldG (\<lambda>(round, ps) _. SetPeerSet round (NewPeerSet ps)) (fr_PeerSets frame) ()) (\<lambda>_.
     bindG (getsG is_roots) (\<lambda>roots.
     bindG (SetFrame (frame\<lparr>fr_Roots := roots\<rparr>)) (\<lambda>_.
     modifyG (\<lambda>s. s\<lparr>is_rootsFrame := Some (fr_Round frame)\<rparr>)))))"

end
