(* ===== verification/Hashgraph.thy ===== *)
theory Hashgraph
  imports Inmem_Store
begin

text \<open>
  \<open>src/src/hashgraph/hashgraph.go\<close>, first part: the state of the hashgraph, the predicates on
  events (\<open>ancestor\<close>, \<open>see\<close>, \<open>stronglySee\<close>, \<open>round\<close>, \<open>witness\<close>, \<open>lamportTimestamp\<close>) behind
  their memo tables, and the insertion of events.

  \<open>round\<close> and \<open>lamportTimestamp\<close> recurse along parent hashes, and
  \<open>updateAncestorFirstDescendant\<close> walks down a chain of self-parents. Go does not bound these
  loops. The model gives them one unit of fuel more than there are events in the cache; running out
  of it is the outcome \<open>Diverge\<close>, and it is proved that it does not happen when hashes do not form
  a cycle.

  The state is an extensible record, so that the client that commits blocks can add its own.
\<close>

section \<open>State\<close>

definition ROOT_DEPTH :: nat where
  "ROOT_DEPTH = 10"

definition COIN_ROUND_FREQ :: int where
  "COIN_ROUND_FREQ = 4"

record hashgraph =
  h_Store :: InmemStore
  h_UndeterminedEvents :: "string list"
  h_PendingRounds :: PendingRoundsCache
  h_PendingSignatures :: SigPool
  h_LastConsensusRound :: "int option"
  h_FirstConsensusRound :: "int option"
  h_AnchorBlock :: "int option"
  h_roundLowerBound :: "int option"
  h_LastCommitedRoundEvents :: int
  h_ConsensusTransactions :: int
  h_PendingLoadedEvents :: int
  h_topologicalIndex :: int
  h_ancestorCache :: "(key, bool) LRU"
  h_selfAncestorCache :: "(key, bool) LRU"
  h_stronglySeeCache :: "(treKey, bool) LRU"
  h_roundCache :: "(string, int) LRU"
  h_timestampCache :: "(string, int) LRU"
  h_witnessCache :: "(string, bool) LRU"

type_synonym ('c, 'a) hg = "('c hashgraph_scheme, 'a) go"

definition NewHashgraph :: "InmemStore \<Rightarrow> hashgraph" where
  "NewHashgraph store =
     (let cacheSize = is_cacheSize store
      in \<lparr>h_Store = store, h_UndeterminedEvents = [], h_PendingRounds = NewPendingRoundsCache,
          h_PendingSignatures = NewSigPool, h_LastConsensusRound = None,
          h_FirstConsensusRound = None, h_AnchorBlock = None, h_roundLowerBound = None,
          h_LastCommitedRoundEvents = 0, h_ConsensusTransactions = 0,
          h_PendingLoadedEvents = 0, h_topologicalIndex = 0,
          h_ancestorCache = NewLRU cacheSize, h_selfAncestorCache = NewLRU cacheSize,
          h_stronglySeeCache = NewLRU cacheSize, h_roundCache = NewLRU cacheSize,
          h_timestampCache = NewLRU cacheSize, h_witnessCache = NewLRU cacheSize\<rparr>)"

text \<open>A call on the store.\<close>

definition onStore :: "(InmemStore, 'a) go \<Rightarrow> ('c, 'a) hg" where
  "onStore m h = (let (r, s) = m (h_Store h) in (r, h\<lparr>h_Store := s\<rparr>))"

text \<open>\<open>fmt.Errorf("<msg>%s", err)\<close> on the error of a call.\<close>

definition wrapG :: "string \<Rightarrow> ('s, 'a) go \<Rightarrow> ('s, 'a) go" where
  "wrapG msg m =
     tryG m (\<lambda>r. case r of Inl err \<Rightarrow> errG (Errorf (msg @ error_text err)) | Inr a \<Rightarrow> okG a)"

definition hg_Init :: "PeerSet \<Rightarrow> ('c, unit) hg" where
  "hg_Init peerSet = wrapG ''Error setting PeerSet: '' (onStore (SetPeerSet 0 peerSet))"

text \<open>\<open>if c, ok := cache.Get(key); ok { return c }; a, err := m; if err ... ; cache.Add(key, a)\<close>:
  the shape of all memoised methods.\<close>

definition memoG ::
  "('s \<Rightarrow> ('k, 'v) LRU) \<Rightarrow> (('k, 'v) LRU \<Rightarrow> 's \<Rightarrow> 's) \<Rightarrow> 'k \<Rightarrow> ('s, 'v) go \<Rightarrow> ('s, 'v) go" where
  "memoG cache set_cache k m s =
     (case lru_Get k (cache s) of
        (Some v, c) \<Rightarrow> (Ok v, set_cache c s)
      | (None, c) \<Rightarrow>
          bindG m (\<lambda>a. bindG (modifyG (\<lambda>s. set_cache (lru_add k a (cache s)) s)) (\<lambda>_. okG a))
            (set_cache c s))"

section \<open>Ancestors\<close>

definition ancestor_raw :: "string \<Rightarrow> string \<Rightarrow> ('c, bool) hg" where
  "ancestor_raw x y =
     (if x = y then okG True
      else
        bindG (onStore (GetEvent x)) (\<lambda>ex.
        bindG (onStore (GetEvent y)) (\<lambda>ey.
        okG (case map_of (ev_lastAncestors ex) (Creator ey) of
               None \<Rightarrow> False
             | Some entry \<Rightarrow> ec_Index entry \<ge> ev_Index ey))))"

definition ancestor :: "string \<Rightarrow> string \<Rightarrow> ('c, bool) hg" where
  "ancestor x y =
     memoG h_ancestorCache (\<lambda>c h. h\<lparr>h_ancestorCache := c\<rparr>) \<lparr>key_x = x, key_y = y\<rparr>
       (ancestor_raw x y)"

definition selfAncestor_raw :: "string \<Rightarrow> string \<Rightarrow> ('c, bool) hg" where
  "selfAncestor_raw x y =
     (if x = y then okG True
      else
        bindG (onStore (GetEvent x)) (\<lambda>ex.
        bindG (onStore (GetEvent y)) (\<lambda>ey.
        okG (Creator ex = Creator ey \<and> ev_Index ex \<ge> ev_Index ey))))"

definition selfAncestor :: "string \<Rightarrow> string \<Rightarrow> ('c, bool) hg" where
  "selfAncestor x y =
     memoG h_selfAncestorCache (\<lambda>c h. h\<lparr>h_selfAncestorCache := c\<rparr>) \<lparr>key_x = x, key_y = y\<rparr>
       (selfAncestor_raw x y)"

definition see :: "string \<Rightarrow> string \<Rightarrow> ('c, bool) hg" where
  "see x y = ancestor x y"

text \<open>The number of peers through which \<open>ex\<close> reaches \<open>ey\<close>.\<close>

definition stronglySee_count :: "PeerSet \<Rightarrow> Event \<Rightarrow> Event \<Rightarrow> nat" where
  "stronglySee_count peers ex ey =
     length (filter (\<lambda>p.
         (case (map_of (ev_lastAncestors ex) p, map_of (ev_firstDescendants ey) p) of
            (Some xla, Some yfd) \<Rightarrow> ec_Index xla \<ge> ec_Index yfd
          | _ \<Rightarrow> False))
       (map fst (ps_ByPubKey peers)))"

definition stronglySee_raw :: "string \<Rightarrow> string \<Rightarrow> PeerSet \<Rightarrow> ('c, bool) hg" where
  "stronglySee_raw x y peers =
     bindG (onStore (GetEvent x)) (\<lambda>ex.
     bindG (onStore (GetEvent y)) (\<lambda>ey.
     okG (stronglySee_count peers ex ey \<ge> SuperMajority peers)))"

definition stronglySee :: "crypto \<Rightarrow> string \<Rightarrow> string \<Rightarrow> PeerSet \<Rightarrow> ('c, bool) hg" where
  "stronglySee P x y peers =
     memoG h_stronglySeeCache (\<lambda>c h. h\<lparr>h_stronglySeeCache := c\<rparr>)
       \<lparr>tre_x = x, tre_y = y, tre_z = PeerSet_Hex P peers\<rparr>
       (stronglySee_raw x y peers)"

section \<open>Rounds\<close>

text \<open>The two parents, the greater of their rounds, and the count of strongly seen witnesses of that
  round. \<open>rec\<close> is the recursive call of the memoised method.\<close>

definition parent_round :: "(string \<Rightarrow> ('c, int) hg) \<Rightarrow> Event \<Rightarrow> ('c, int) hg" where
  "parent_round rec ex =
     bindG (liftO (SelfParent ex)) (\<lambda>sp.
     bindG (if sp \<noteq> '''' then rec sp else okG (-1)) (\<lambda>parentRound.
     bindG (liftO (OtherParent ex)) (\<lambda>op.
     if op \<noteq> ''''
     then bindG (rec op) (\<lambda>opRound.
            okG (if opRound > parentRound then opRound else parentRound))
     else okG parentRound)))"

definition count_stronglySeen ::
  "crypto \<Rightarrow> string \<Rightarrow> PeerSet \<Rightarrow> string list \<Rightarrow> ('c, nat) hg" where
  "count_stronglySeen P x peers ws =
     foldG (\<lambda>w c. bindG (stronglySee P x w peers) (\<lambda>ss. okG (if ss then c + 1 else c))) ws 0"

definition round_raw ::
  "crypto \<Rightarrow> (string \<Rightarrow> ('c, int) hg) \<Rightarrow> string \<Rightarrow> ('c, int) hg" where
  "round_raw P rec x =
     bindG (onStore (GetEvent x)) (\<lambda>ex.
     bindG (parent_round rec ex) (\<lambda>parentRound.
     if parentRound = -1 then okG 0
     else
       bindG (onStore (GetRound parentRound)) (\<lambda>parentRoundObj.
       bindG (onStore (GetPeerSet parentRound)) (\<lambda>parentRoundPeerSet.
       bindG (count_stronglySeen P x parentRoundPeerSet (Witnesses parentRoundObj)) (\<lambda>c.
       okG (if c \<ge> SuperMajority parentRoundPeerSet then parentRound + 1 else parentRound))))))"

primrec round_fuel :: "crypto \<Rightarrow> nat \<Rightarrow> string \<Rightarrow> ('c, int) hg" where
  "round_fuel P 0 = (\<lambda>x. liftO Diverge)"
| "round_fuel P (Suc n) =
     (\<lambda>x. memoG h_roundCache (\<lambda>c h. h\<lparr>h_roundCache := c\<rparr>) x (round_raw P (round_fuel P n) x))"

definition events_fuel :: "'c hashgraph_scheme \<Rightarrow> nat" where
  "events_fuel h = Suc (lru_Len (is_eventCache (h_Store h)))"

definition hg_round :: "crypto \<Rightarrow> string \<Rightarrow> ('c, int) hg" where
  "hg_round P x h = round_fuel P (events_fuel h) x h"

definition witness_raw :: "crypto \<Rightarrow> string \<Rightarrow> ('c, bool) hg" where
  "witness_raw P x =
     bindG (onStore (GetEvent x)) (\<lambda>ex.
     bindG (hg_round P x) (\<lambda>xRound.
     bindG (onStore (GetPeerSet xRound)) (\<lambda>peerSet.
     if map_of (ps_ByPubKey peerSet) (Creator ex) = None then okG False
     else
       bindG (liftO (SelfParent ex)) (\<lambda>sp.
       bindG (if sp \<noteq> '''' then hg_round P sp else okG (-1)) (\<lambda>spRound.
       okG (xRound > spRound))))))"

definition witness :: "crypto \<Rightarrow> string \<Rightarrow> ('c, bool) hg" where
  "witness P x =
     memoG h_witnessCache (\<lambda>c h. h\<lparr>h_witnessCache := c\<rparr>) x (witness_raw P x)"

definition roundReceived :: "string \<Rightarrow> ('c, int) hg" where
  "roundReceived x =
     bindG (onStore (GetEvent x)) (\<lambda>ex.
     okG (case ev_roundReceived ex of None \<Rightarrow> -1 | Some r \<Rightarrow> r))"

section \<open>Lamport timestamps\<close>

definition MinInt32 :: int where
  "MinInt32 = -2147483648"

definition lamportTimestamp_raw ::
  "(string \<Rightarrow> ('c, int) hg) \<Rightarrow> string \<Rightarrow> ('c, int) hg" where
  "lamportTimestamp_raw rec x =
     bindG (onStore (GetEvent x)) (\<lambda>ex.
     bindG (liftO (SelfParent ex)) (\<lambda>sp.
     bindG (if sp \<noteq> '''' then rec sp else okG (-1)) (\<lambda>plt.
     bindG (liftO (OtherParent ex)) (\<lambda>op.
     bindG
       (if op \<noteq> ''''
        then bindG
          (tryG (onStore (GetEvent op))
             (\<lambda>r. case r of Inr _ \<Rightarrow> rec op | Inl _ \<Rightarrow> okG MinInt32))
          (\<lambda>opLT. okG (if opLT > plt then opLT else plt))
        else okG plt)
       (\<lambda>plt. okG (plt + 1))))))"

primrec lamport_fuel :: "nat \<Rightarrow> string \<Rightarrow> ('c, int) hg" where
  "lamport_fuel 0 = (\<lambda>x. liftO Diverge)"
| "lamport_fuel (Suc n) =
     (\<lambda>x. memoG h_timestampCache (\<lambda>c h. h\<lparr>h_timestampCache := c\<rparr>) x
            (lamportTimestamp_raw (lamport_fuel n) x))"

definition lamportTimestamp :: "string \<Rightarrow> ('c, int) hg" where
  "lamportTimestamp x h = lamport_fuel (events_fuel h) x h"

definition roundDiff :: "crypto \<Rightarrow> string \<Rightarrow> string \<Rightarrow> ('c, int) hg" where
  "roundDiff P x y =
     tryG (hg_round P x) (\<lambda>rx. case rx of
       Inl _ \<Rightarrow> errG (Errorf (''event '' @ x @ '' has negative round''))
     | Inr xRound \<Rightarrow>
         tryG (hg_round P y) (\<lambda>ry. case ry of
           Inl _ \<Rightarrow> errG (Errorf (''event '' @ y @ '' has negative round''))
         | Inr yRound \<Rightarrow> okG (xRound - yRound)))"

section \<open>Insertion\<close>

definition checkSelfParent :: "Event \<Rightarrow> ('c, unit) hg" where
  "checkSelfParent event =
     bindG (liftO (SelfParent event)) (\<lambda>selfParent.
     tryG (onStore (LastEventFrom (Creator event))) (\<lambda>r. case r of
       Inl err \<Rightarrow>
         if IsStore err Empty \<and> selfParent = '''' then okG ()
         else errG (SelfParentErr (error_text err) False)
     | Inr creatorLastKnown \<Rightarrow>
         if selfParent \<noteq> creatorLastKnown
         then errG (SelfParentErr ''Self-parent not last known event by creator'' True)
         else okG ()))"

definition checkOtherParent :: "Event \<Rightarrow> ('c, unit) hg" where
  "checkOtherParent event =
     bindG (liftO (OtherParent event)) (\<lambda>otherParent.
     if otherParent \<noteq> ''''
     then tryG (onStore (GetEvent otherParent)) (\<lambda>r. case r of
            Inl _ \<Rightarrow> errG (Errorf ''Other-parent not known'')
          | Inr _ \<Rightarrow> okG ())
     else okG ())"

definition merge_ancestors :: "CoordinatesMap \<Rightarrow> CoordinatesMap \<Rightarrow> CoordinatesMap" where
  "merge_ancestors sla ola =
     foldl (\<lambda>m (p, c).
         (case map_of m p of
            None \<Rightarrow> AList.update p c m
          | Some d \<Rightarrow> if ec_Index d < ec_Index c then AList.update p c m else m))
       sla ola"

definition coordinates :: "crypto \<Rightarrow> Event \<Rightarrow> EventCoordinates" where
  "coordinates P event = \<lparr>ec_Hash = Hex P event, ec_Index = ev_Index event\<rparr>"

definition initEventCoordinates :: "crypto \<Rightarrow> Event \<Rightarrow> ('c, Event) hg" where
  "initEventCoordinates P event =
     bindG (liftO (SelfParent event)) (\<lambda>sp.
     tryG (onStore (GetEvent sp)) (\<lambda>selfParent.
     bindG (liftO (OtherParent event)) (\<lambda>op.
     tryG (onStore (GetEvent op)) (\<lambda>otherParent.
     let la = (case (selfParent, otherParent) of
                 (Inl _, Inr o') \<Rightarrow> ev_lastAncestors o'
               | (Inr s, Inl _) \<Rightarrow> ev_lastAncestors s
               | (Inr s, Inr o') \<Rightarrow> merge_ancestors (ev_lastAncestors s) (ev_lastAncestors o')
               | (Inl _, Inl _) \<Rightarrow> [])
     in okG (event\<lparr>ev_lastAncestors := AList.update (Creator event) (coordinates P event) la,
                   ev_firstDescendants := [(Creator event, coordinates P event)]\<rparr>)))))"

text \<open>The inner loop of \<open>updateAncestorFirstDescendant\<close>.\<close>

primrec walk_down :: "crypto \<Rightarrow> Event \<Rightarrow> nat \<Rightarrow> string \<Rightarrow> ('c, unit) hg" where
  "walk_down P event 0 = (\<lambda>ah. liftO Diverge)"
| "walk_down P event (Suc n) =
     (\<lambda>ah. tryG (onStore (GetEvent ah)) (\<lambda>r. case r of
        Inl _ \<Rightarrow> okG ()
      | Inr a \<Rightarrow>
          (case map_of (ev_firstDescendants a) (Creator event) of
             Some _ \<Rightarrow> okG ()
           | None \<Rightarrow>
               bindG (onStore (SetEvent P
                 (a\<lparr>ev_firstDescendants :=
                      AList.update (Creator event) (coordinates P event) (ev_firstDescendants a)\<rparr>)))
               (\<lambda>_. tryG (witness P ah) (\<lambda>w.
                 if w = Inr True then okG ()
                 else bindG (liftO (SelfParent a)) (walk_down P event n))))))"

definition updateAncestorFirstDescendant :: "crypto \<Rightarrow> Event \<Rightarrow> ('c, unit) hg" where
  "updateAncestorFirstDescendant P event =
     foldG (\<lambda>(_, c) _ h. walk_down P event (events_fuel h) (ec_Hash c) h) (ev_lastAncestors event) ()"

definition hg_SetWireInfo :: "Event \<Rightarrow> ('c, Event) hg" where
  "hg_SetWireInfo event =
     bindG (getsG (\<lambda>h. RepertoireByPubKey (h_Store h))) (\<lambda>rep.
     case map_of rep (Creator event) of
       None \<Rightarrow> errG (Errorf (''Creator '' @ Creator event @ '' not found''))
     | Some creator \<Rightarrow>
         bindG (liftO (SelfParent event)) (\<lambda>sp.
         bindG (if sp \<noteq> ''''
                then bindG (onStore (GetEvent sp)) (\<lambda>selfParent. okG (ev_Index selfParent))
                else okG (-1)) (\<lambda>selfParentIndex.
         bindG (liftO (OtherParent event)) (\<lambda>op.
         bindG (if op \<noteq> ''''
                then bindG (onStore (GetEvent op)) (\<lambda>otherParent.
                  (case map_of rep (Creator otherParent) of
                     None \<Rightarrow> errG (Errorf (''Creator '' @ Creator otherParent @ '' not found''))
                   | Some otherParentCreator \<Rightarrow>
                       okG (peer_ID otherParentCreator, ev_Index otherParent)))
                else okG (0, -1)) (\<lambda>(otherParentCreatorID, otherParentIndex).
         okG (ev_SetWireInfo selfParentIndex otherParentCreatorID otherParentIndex
                (peer_ID creator) event))))))"

definition removeProcessedSignatures :: "string list \<Rightarrow> ('c, unit) hg" where
  "removeProcessedSignatures processed =
     modifyG (\<lambda>h. h\<lparr>h_PendingSignatures := foldl (\<lambda>sp k. sp_Remove k sp) (h_PendingSignatures h) processed\<rparr>)"

text \<open>What follows the checks: number the event, set its wire fields and coordinates, store it,
  update the first descendants, and queue it with its block signatures.\<close>

definition insert_checked :: "crypto \<Rightarrow> Event \<Rightarrow> bool \<Rightarrow> ('c, unit) hg" where
  "insert_checked P event setWireInfo =
     bindG (getsG h_topologicalIndex) (\<lambda>ti.
     bindG (modifyG (\<lambda>h. h\<lparr>h_topologicalIndex := h_topologicalIndex h + 1\<rparr>)) (\<lambda>_.
     bindG (if setWireInfo
            then wrapG ''SetWireInfo: '' (hg_SetWireInfo (event\<lparr>ev_topologicalIndex := ti\<rparr>))
            else okG (event\<lparr>ev_topologicalIndex := ti\<rparr>)) (\<lambda>event.
     bindG (wrapG ''InitEventCoordinates: '' (initEventCoordinates P event)) (\<lambda>event.
     bindG (wrapG ''SetEvent: '' (onStore (SetEvent P event))) (\<lambda>_.
     bindG (wrapG ''UpdateAncestorFirstDescendant: '' (updateAncestorFirstDescendant P event)) (\<lambda>_.
     modifyG (\<lambda>h. h\<lparr>h_UndeterminedEvents := h_UndeterminedEvents h @ [Hex P event],
                    h_PendingLoadedEvents :=
                      (if IsLoaded event then h_PendingLoadedEvents h + 1
                       else h_PendingLoadedEvents h),
                    h_PendingSignatures :=
                      foldl (\<lambda>sp bs. sp_Add bs sp) (h_PendingSignatures h)
                        (eb_BlockSignatures (ev_Body event))\<rparr>)))))))"

definition InsertEvent :: "crypto \<Rightarrow> Event \<Rightarrow> bool \<Rightarrow> ('c, unit) hg" where
  "InsertEvent P event setWireInfo =
     bindG (liftO (ev_Verify P event)) (\<lambda>ok.
     if \<not> ok
     then bindG (liftO (SelfParent event)) (\<lambda>_.
            errG (Errorf (''Invalid Event signature '' @ Hex P event)))
     else
       bindG (checkSelfParent event) (\<lambda>_.
       bindG (checkOtherParent event) (\<lambda>_.
       insert_checked P event setWireInfo)))"

definition InsertFrameEvent :: "crypto \<Rightarrow> FrameEvent \<Rightarrow> ('c, unit) hg" where
  "InsertFrameEvent P frameEvent =
     (let event = fe_Core frameEvent;
          x = Hex P event
      in
       bindG (modifyG (\<lambda>h.
           h\<lparr>h_roundCache := lru_add x (fe_Round frameEvent) (h_roundCache h),
             h_witnessCache := lru_add x (fe_Witness frameEvent) (h_witnessCache h),
             h_timestampCache := lru_add x (fe_LamportTimestamp frameEvent) (h_timestampCache h)\<rparr>)) (\<lambda>_.
       let event = SetLamportTimestamp (fe_LamportTimestamp frameEvent)
                     (SetRound_ev (fe_Round frameEvent) event)
       in
       bindG (tryG (onStore (GetRound (fe_Round frameEvent))) (\<lambda>r. case r of
                Inl err \<Rightarrow> if \<not> IsStore err KeyNotFound then errG err else okG NewRoundInfo
              | Inr roundInfo \<Rightarrow> okG roundInfo)) (\<lambda>roundInfo.
       bindG (onStore (SetRound (fe_Round frameEvent)
                (AddCreatedEvent x (fe_Witness frameEvent) roundInfo))) (\<lambda>_.
       bindG (wrapG ''InitEventCoordinates: '' (initEventCoordinates P event)) (\<lambda>event.
       bindG (wrapG ''SetEvent: '' (onStore (SetEvent P event))) (\<lambda>_.
       bindG (wrapG ''UpdateAncestorFirstDescendant: '' (updateAncestorFirstDescendant P event)) (\<lambda>_.
       onStore (AddConsensusEvent P event))))))))"

end
