(* ===== verification/Consensus.thy ===== *)
theory Consensus
  imports Hashgraph
begin

text \<open>
  \<open>src/src/hashgraph/hashgraph.go\<close>, the consensus methods: \<open>DivideRounds\<close> gives every event a
  round and a Lamport timestamp, \<open>DecideFame\<close> runs the virtual vote on witnesses, and
  \<open>DecideRoundReceived\<close> finds the round in which an event is received.

  \<open>GetRound\<close> and \<open>GetEvent\<close> return pointers to cached objects, which these methods mutate before
  they store them again. Such a write is visible in the store at once, also when the method fails
  later; \<open>poke_event\<close> and \<open>poke_round\<close> are these writes.
\<close>

definition poke_event :: "string \<Rightarrow> Event \<Rightarrow> ('c, unit) hg" where
  "poke_event x e =
     modifyG (\<lambda>h. h\<lparr>h_Store := (h_Store h)\<lparr>is_eventCache := lru_poke x e (is_eventCache (h_Store h))\<rparr>\<rparr>)"

definition poke_round :: "int \<Rightarrow> RoundInfo \<Rightarrow> ('c, unit) hg" where
  "poke_round r ri =
     modifyG (\<lambda>h. h\<lparr>h_Store := (h_Store h)\<lparr>is_roundCache := lru_poke r ri (is_roundCache (h_Store h))\<rparr>\<rparr>)"

section \<open>DivideRounds\<close>

definition queue_round :: "int \<Rightarrow> RoundInfo \<Rightarrow> ('c, unit) hg" where
  "queue_round roundNumber roundInfo =
     modifyG (\<lambda>h.
       if \<not> Queued (h_PendingRounds h) roundNumber \<and>
          \<not> rd_decided roundInfo \<and>
          (case h_roundLowerBound h of None \<Rightarrow> True | Some b \<Rightarrow> roundNumber > b)
       then h\<lparr>h_PendingRounds :=
                prc_Set \<lparr>pr_Index = roundNumber, pr_Decided = False\<rparr> (h_PendingRounds h)\<rparr>
       else h)"

definition assign_round :: "crypto \<Rightarrow> string \<Rightarrow> Event \<Rightarrow> ('c, Event) hg" where
  "assign_round P hash ev =
     bindG (hg_round P hash) (\<lambda>roundNumber.
     let ev = SetRound_ev roundNumber ev in
     bindG (poke_event hash ev) (\<lambda>_.
     bindG (tryG (onStore (GetRound roundNumber)) (\<lambda>r. case r of
              Inl err \<Rightarrow> if \<not> IsStore err KeyNotFound then errG err else okG NewRoundInfo
            | Inr roundInfo \<Rightarrow> okG roundInfo)) (\<lambda>roundInfo.
     bindG (queue_round roundNumber roundInfo) (\<lambda>_.
     bindG (witness P hash) (\<lambda>w.
     bindG (onStore (SetRound roundNumber (AddCreatedEvent hash w roundInfo))) (\<lambda>_.
     okG ev))))))"

definition assign_timestamp :: "string \<Rightarrow> Event \<Rightarrow> ('c, Event) hg" where
  "assign_timestamp hash ev =
     bindG (lamportTimestamp hash) (\<lambda>t.
     let ev = SetLamportTimestamp t ev in
     bindG (poke_event hash ev) (\<lambda>_. okG ev))"

definition divide_event :: "crypto \<Rightarrow> string \<Rightarrow> ('c, unit) hg" where
  "divide_event P hash =
     bindG (onStore (GetEvent hash)) (\<lambda>ev.
     bindG (if ev_round ev = None
            then bindG (assign_round P hash ev) (\<lambda>ev. okG (ev, True))
            else okG (ev, False)) (\<lambda>(ev, updateEvent).
     bindG (if ev_lamportTimestamp ev = None
            then bindG (assign_timestamp hash ev) (\<lambda>ev. okG (ev, True))
            else okG (ev, updateEvent)) (\<lambda>(ev, updateEvent).
     if updateEvent then tryG (onStore (SetEvent P ev)) (\<lambda>_. okG ()) else okG ())))"

definition DivideRounds :: "crypto \<Rightarrow> ('c, unit) hg" where
  "DivideRounds P =
     bindG (getsG h_UndeterminedEvents) (\<lambda>undetermined.
     foldG (\<lambda>hash _. divide_event P hash) undetermined ())"

section \<open>DecideFame\<close>

type_synonym votes = "((string \<times> string) \<times> bool) list"

definition setVote :: "votes \<Rightarrow> string \<Rightarrow> string \<Rightarrow> bool \<Rightarrow> votes" where
  "setVote votes x y v = AList.update (x, y) v votes"

text \<open>\<open>votes[w][x]\<close>: a vote that was not cast reads false.\<close>

definition getVote :: "votes \<Rightarrow> string \<Rightarrow> string \<Rightarrow> bool" where
  "getVote votes w x = (case map_of votes (w, x) of Some v \<Rightarrow> v | None \<Rightarrow> False)"

definition middleBit :: "string \<Rightarrow> bool res" where
  "middleBit ehex =
     bindO (DecodeFromString ehex) (\<lambda>(hash, _).
       Ok (if 0 < length hash \<and> hash ! (length hash div 2) = 0 then False else True))"

definition stronglySeen ::
  "crypto \<Rightarrow> string \<Rightarrow> PeerSet \<Rightarrow> string list \<Rightarrow> ('c, string list) hg" where
  "stronglySeen P y peers ws =
     foldG (\<lambda>w acc. bindG (stronglySee P y w peers) (\<lambda>ss. okG (if ss then acc @ [w] else acc))) ws []"

text \<open>The yays and nays of the strongly seen witnesses, the majority (ties are yays) and its size.\<close>

definition tally :: "votes \<Rightarrow> string list \<Rightarrow> string \<Rightarrow> bool \<times> nat" where
  "tally votes ssWitnesses x =
     (let (yays, nays) =
            foldl (\<lambda>(yays, nays) w. if getVote votes w x then (yays + 1, nays) else (yays, nays + 1))
              (0, 0) ssWitnesses
      in if yays \<ge> nays then (True, yays) else (False, nays))"

text \<open>One vote: of witness \<open>y\<close> of round \<open>j\<close> on witness \<open>x\<close> of round \<open>roundIndex\<close>. The
  accumulator holds the votes, the round info of \<open>x\<close> and whether the fame of \<open>x\<close> was decided,
  which leaves both loops.\<close>

definition vote ::
  "crypto \<Rightarrow> int \<Rightarrow> string \<Rightarrow> int \<Rightarrow> PeerSet \<Rightarrow> string \<Rightarrow> votes \<times> RoundInfo \<times> bool
    \<Rightarrow> ('c, (votes \<times> RoundInfo \<times> bool) loop) hg" where
  "vote P roundIndex x j jPeerSet y = (\<lambda>(votes, rRoundInfo, _).
     let diff = j - roundIndex in
     if diff = 1
     then bindG (see y x) (\<lambda>ycx. okG (Continue (setVote votes y x ycx, rRoundInfo, False)))
     else
       bindG (onStore (GetRound (j - 1))) (\<lambda>jPrevRoundInfo.
       bindG (onStore (GetPeerSet (j - 1))) (\<lambda>jPrevPeerSet.
       bindG (stronglySeen P y jPrevPeerSet (Witnesses jPrevRoundInfo)) (\<lambda>ssWitnesses.
       let (v, t) = tally votes ssWitnesses x in
       if diff mod COIN_ROUND_FREQ > 0
       then if t \<ge> SuperMajority jPeerSet
            then bindG (poke_round roundIndex (SetFame x v rRoundInfo)) (\<lambda>_.
                   okG (Break (setVote votes y x v, SetFame x v rRoundInfo, True)))
            else okG (Continue (setVote votes y x v, rRoundInfo, False))
       else if t \<ge> SuperMajority jPeerSet
            then okG (Continue (setVote votes y x v, rRoundInfo, False))
            else bindG (liftO (middleBit y)) (\<lambda>b.
                   okG (Continue (setVote votes y x b, rRoundInfo, False)))))))"

definition vote_round ::
  "crypto \<Rightarrow> int \<Rightarrow> string \<Rightarrow> int \<Rightarrow> votes \<times> RoundInfo \<times> bool
    \<Rightarrow> ('c, (votes \<times> RoundInfo \<times> bool) loop) hg" where
  "vote_round P roundIndex x j acc =
     bindG (onStore (GetRound j)) (\<lambda>jRoundInfo.
     bindG (onStore (GetPeerSet j)) (\<lambda>jPeerSet.
     bindG (loopG (vote P roundIndex x j jPeerSet) (Witnesses jRoundInfo) acc) (\<lambda>acc.
     okG (if snd (snd acc) then Break acc else Continue acc))))"

definition decide_witness ::
  "crypto \<Rightarrow> int \<Rightarrow> string \<Rightarrow> votes \<times> RoundInfo \<Rightarrow> ('c, votes \<times> RoundInfo) hg" where
  "decide_witness P roundIndex x = (\<lambda>(votes, rRoundInfo).
     if IsDecided x rRoundInfo then okG (votes, rRoundInfo)
     else
       bindG (getsG (\<lambda>h. is_lastRound (h_Store h))) (\<lambda>lastRound.
       bindG (loopG (vote_round P roundIndex x) [roundIndex + 1..lastRound] (votes, rRoundInfo, False))
         (\<lambda>(votes, rRoundInfo, _). okG (votes, rRoundInfo))))"

definition decide_round ::
  "crypto \<Rightarrow> pendingRound \<Rightarrow> votes \<times> int list \<Rightarrow> ('c, votes \<times> int list) hg" where
  "decide_round P r = (\<lambda>(votes, decidedRounds).
     let roundIndex = pr_Index r in
     bindG (onStore (GetRound roundIndex)) (\<lambda>rRoundInfo.
     bindG (onStore (GetPeerSet roundIndex)) (\<lambda>rPeerSet.
     bindG (foldG (decide_witness P roundIndex) (Witnesses rRoundInfo) (votes, rRoundInfo))
       (\<lambda>(votes, rRoundInfo).
     let (decided, rRoundInfo) = WitnessesDecided rPeerSet rRoundInfo in
     bindG (onStore (SetRound roundIndex rRoundInfo)) (\<lambda>_.
     okG (votes, if decided then decidedRounds @ [roundIndex] else decidedRounds))))))"

definition DecideFame :: "crypto \<Rightarrow> ('c, unit) hg" where
  "DecideFame P =
     bindG (getsG (\<lambda>h. GetOrderedPendingRounds (h_PendingRounds h))) (\<lambda>pending.
     bindG (foldG (decide_round P) pending ([], [])) (\<lambda>(votes, decidedRounds).
     modifyG (\<lambda>h. h\<lparr>h_PendingRounds := prc_Update decidedRounds (h_PendingRounds h)\<rparr>)))"

section \<open>DecideRoundReceived\<close>

definition famous_that_see :: "string \<Rightarrow> string list \<Rightarrow> ('c, string list) hg" where
  "famous_that_see x fws =
     foldG (\<lambda>w s. bindG (see w x) (\<lambda>sees. okG (if sees then s @ [w] else s))) fws []"

text \<open>One iteration of the loop on rounds: the accumulator says whether \<open>x\<close> was received.\<close>

definition receive_in :: "crypto \<Rightarrow> string \<Rightarrow> int \<Rightarrow> bool \<Rightarrow> ('c, bool loop) hg" where
  "receive_in P x i received =
     tryG (onStore (GetRound i)) (\<lambda>r. case r of
       Inl _ \<Rightarrow> okG (Break False)
     | Inr tr \<Rightarrow>
         bindG (onStore (GetPeerSet i)) (\<lambda>tPeers.
         let (decided, tr) = WitnessesDecided tPeers tr in
         bindG (poke_round i tr) (\<lambda>_.
         if \<not> decided
         then bindG (getsG h_roundLowerBound) (\<lambda>lb.
                okG (if (case lb of None \<Rightarrow> True | Some b \<Rightarrow> b < i) then Break False
                     else Continue False))
         else
           bindG (famous_that_see x (FamousWitnesses tr)) (\<lambda>s.
           if length s = length (FamousWitnesses tr) \<and> length s \<ge> SuperMajority tPeers
           then
             bindG (onStore (GetEvent x)) (\<lambda>ex.
             bindG (onStore (SetEvent P (SetRoundReceived i ex))) (\<lambda>_.
             bindG (onStore (SetRound i (AddReceivedEvent x tr))) (\<lambda>_.
             okG (Break True))))
           else okG (Continue False)))))"

definition receive_event :: "crypto \<Rightarrow> string \<Rightarrow> string list \<Rightarrow> ('c, string list) hg" where
  "receive_event P x newUndetermined =
     bindG (hg_round P x) (\<lambda>r.
     bindG (getsG (\<lambda>h. is_lastRound (h_Store h))) (\<lambda>lastRound.
     bindG (loopG (receive_in P x) [r + 1..lastRound] False) (\<lambda>received.
     okG (if received then newUndetermined else newUndetermined @ [x]))))"

definition DecideRoundReceived :: "crypto \<Rightarrow> ('c, unit) hg" where
  "DecideRoundReceived P =
     bindG (getsG h_UndeterminedEvents) (\<lambda>undetermined.
     bindG (foldG (receive_event P) undetermined []) (\<lambda>newUndetermined.
     modifyG (\<lambda>h. h\<lparr>h_UndeterminedEvents := newUndetermined\<rparr>)))"

end
