(* ===== verification/Commit.thy ===== *)
theory Commit
  imports Consensus
begin

text \<open>
  \<open>src/src/hashgraph/hashgraph.go\<close>, from consensus to blocks: frames and their roots, the
  processing of decided rounds, the pool of block signatures and the anchor block, the check of a
  received block, the reset to a frame, and the wire representation of events.

  The commit callback is a parameter: a statement on the state, which may include the state of the
  client.
\<close>

section \<open>Frames\<close>

definition createFrameEvent :: "crypto \<Rightarrow> string \<Rightarrow> ('c, FrameEvent) hg" where
  "createFrameEvent P x =
     bindG (tryG (onStore (GetEvent x)) (\<lambda>r. case r of
              Inl _ \<Rightarrow> errG (Errorf (''FrameEvent '' @ x @ '' not found''))
            | Inr ev \<Rightarrow> okG ev)) (\<lambda>ev.
     bindG (hg_round P x) (\<lambda>round.
     bindG (onStore (GetRound round)) (\<lambda>roundInfo.
     case map_of (rd_CreatedEvents roundInfo) x of
       None \<Rightarrow> errG (Errorf (''round '' @ itoa round @ '' CreatedEvents['' @ x @ ''] not found''))
     | Some te \<Rightarrow>
         bindG (lamportTimestamp x) (\<lambda>lt.
         okG \<lparr>fe_Core = ev, fe_Round = round, fe_LamportTimestamp = lt,
              fe_Witness = re_Witness te\<rparr>))))"

definition createRoot :: "crypto \<Rightarrow> string \<Rightarrow> string \<Rightarrow> ('c, Root) hg" where
  "createRoot P participant head =
     (if head \<noteq> ''''
      then
        bindG (createFrameEvent P head) (\<lambda>headEvent.
        bindG (loopG (\<lambda>_ (index, reverseRootEvents).
            let index = index - 1 in
            if index \<ge> 0
            then tryG (onStore (ParticipantEvent participant index)) (\<lambda>r. case r of
                   Inl _ \<Rightarrow> okG (Break (index, reverseRootEvents))
                 | Inr peh \<Rightarrow>
                     bindG (createFrameEvent P peh) (\<lambda>rev_ev.
                     okG (Continue (index, reverseRootEvents @ [rev_ev]))))
            else okG (Break (index, reverseRootEvents)))
          [0..<ROOT_DEPTH] (ev_Index (fe_Core headEvent), [headEvent]))
          (\<lambda>(_, reverseRootEvents).
        okG (foldl (\<lambda>root e. rt_Insert e root) NewRoot (rev reverseRootEvents))))
      else okG NewRoot)"

definition frame_events :: "crypto \<Rightarrow> string list \<Rightarrow> ('c, FrameEvent list) hg" where
  "frame_events P received =
     foldG (\<lambda>eh events. bindG (createFrameEvent P eh) (\<lambda>re. okG (events @ [re]))) received []"

definition roots_of_events ::
  "crypto \<Rightarrow> FrameEvent list \<Rightarrow> ('c, (string \<times> Root) list) hg" where
  "roots_of_events P events =
     foldG (\<lambda>ev roots.
         let p = Creator (fe_Core ev) in
         (case map_of roots p of
            Some _ \<Rightarrow> okG roots
          | None \<Rightarrow>
              bindG (liftO (SelfParent (fe_Core ev))) (\<lambda>sp.
              bindG (createRoot P p sp) (\<lambda>r. okG (AList.update p r roots)))))
       events []"

definition roots_of_others ::
  "crypto \<Rightarrow> int \<Rightarrow> (string \<times> Root) list \<Rightarrow> ('c, (string \<times> Root) list) hg" where
  "roots_of_others P rr roots =
     bindG (getsG (\<lambda>h. RepertoireByPubKey (h_Store h))) (\<lambda>rep.
     foldG (\<lambda>(p, peer) roots.
         bindG (getsG (\<lambda>h. FirstRound (h_Store h) (peer_ID peer))) (\<lambda>(firstRound, ok).
         if \<not> ok \<or> firstRound > rr then okG roots
         else (case map_of roots p of
                 Some _ \<Rightarrow> okG roots
               | None \<Rightarrow>
                   bindG (onStore (LastConsensusEventFrom p)) (\<lambda>lastConsensusEventHash.
                   bindG (createRoot P p lastConsensusEventHash) (\<lambda>root.
                   okG (AList.update p root roots))))))
       rep roots)"

definition witness_timestamps :: "string list \<Rightarrow> ('c, int list) hg" where
  "witness_timestamps fws =
     foldG (\<lambda>fw ts. bindG (onStore (GetEvent fw)) (\<lambda>ev.
         okG (ts @ [eb_Timestamp (ev_Body ev)]))) fws []"

definition hg_GetFrame :: "crypto \<Rightarrow> int \<Rightarrow> ('c, Frame) hg" where
  "hg_GetFrame P rr =
     tryG (onStore (store_GetFrame rr)) (\<lambda>r. case r of
       Inr frame \<Rightarrow> okG frame
     | Inl err \<Rightarrow>
         if \<not> IsStore err KeyNotFound then errG err
         else
           bindG (onStore (GetRound rr)) (\<lambda>round.
           bindG (onStore (GetPeerSet rr)) (\<lambda>peerSet.
           bindG (frame_events P (rd_ReceivedEvents round)) (\<lambda>events.
           bindG (liftO (SortFrameEvents events)) (\<lambda>events.
           bindG (roots_of_events P events) (\<lambda>roots.
           bindG (roots_of_others P rr roots) (\<lambda>roots.
           bindG (onStore GetAllPeerSets) (\<lambda>allPeerSets.
           bindG (witness_timestamps (FamousWitnesses round)) (\<lambda>timestamps.
           let res = \<lparr>fr_Round = rr, fr_Peers = ps_Peers peerSet, fr_Roots = roots,
                      fr_Events = events, fr_PeerSets = allPeerSets,
                      fr_Timestamp = Median timestamps\<rparr> in
           bindG (onStore (SetFrame res)) (\<lambda>_. okG res))))))))))"

section \<open>Setters\<close>

definition setLastConsensusRound :: "int \<Rightarrow> ('c, unit) hg" where
  "setLastConsensusRound i =
     modifyG (\<lambda>h. h\<lparr>h_LastConsensusRound := Some i,
                    h_FirstConsensusRound :=
                      (case h_FirstConsensusRound h of None \<Rightarrow> Some i | Some f \<Rightarrow> Some f)\<rparr>)"

definition setRoundLowerBound :: "int \<Rightarrow> ('c, unit) hg" where
  "setRoundLowerBound i = modifyG (\<lambda>h. h\<lparr>h_roundLowerBound := Some i\<rparr>)"

definition setAnchorBlock :: "int \<Rightarrow> ('c, unit) hg" where
  "setAnchorBlock i = modifyG (\<lambda>h. h\<lparr>h_AnchorBlock := Some i\<rparr>)"

section \<open>ProcessDecidedRounds\<close>

definition commit_events :: "crypto \<Rightarrow> FrameEvent list \<Rightarrow> ('c, unit) hg" where
  "commit_events P events =
     foldG (\<lambda>e _.
       bindG (onStore (AddConsensusEvent P (fe_Core e))) (\<lambda>_.
       modifyG (\<lambda>h.
         h\<lparr>h_ConsensusTransactions :=
             h_ConsensusTransactions h + int (length (eb_Transactions (ev_Body (fe_Core e)))),
           h_PendingLoadedEvents :=
             (if IsLoaded (fe_Core e) then h_PendingLoadedEvents h - 1
              else h_PendingLoadedEvents h)\<rparr>))) events ()"

definition commit_block :: "crypto \<Rightarrow> (Block \<Rightarrow> ('c, unit) hg) \<Rightarrow> Frame \<Rightarrow> ('c, unit) hg" where
  "commit_block P commitCallback frame =
     bindG (getsG (\<lambda>h. is_lastBlock (h_Store h))) (\<lambda>lastBlockIndex.
     let block = NewBlockFromFrame P (lastBlockIndex + 1) frame in
     if length (bb_Transactions (bl_Body block)) > 0 \<or>
        length (bb_InternalTransactions (bl_Body block)) > 0
     then
       bindG (onStore (SetBlock block)) (\<lambda>_.
       tryG (commitCallback block) (\<lambda>_. okG ()))
     else okG ())"

definition process_round :: "crypto \<Rightarrow> (Block \<Rightarrow> ('c, unit) hg) \<Rightarrow> int \<Rightarrow> ('c, unit) hg" where
  "process_round P commitCallback index =
     bindG (onStore (GetRound index)) (\<lambda>_.
     bindG (wrapG (''Getting Frame '' @ itoa index @ '': '') (hg_GetFrame P index)) (\<lambda>frame.
     bindG (if length (fr_Events frame) > 0
            then
              bindG (commit_events P (fr_Events frame)) (\<lambda>_.
              bindG (commit_block P commitCallback frame) (\<lambda>_.
              modifyG (\<lambda>h. h\<lparr>h_LastCommitedRoundEvents := int (length (fr_Events frame))\<rparr>)))
            else okG ()) (\<lambda>_.
     bindG (getsG h_LastConsensusRound) (\<lambda>last.
     if (case last of None \<Rightarrow> True | Some l \<Rightarrow> index > l)
     then setLastConsensusRound index else okG ()))))"

text \<open>The loop on pending rounds, with the rounds processed so far: they are removed from the queue
  however the method returns (\<open>defer\<close>).\<close>

fun process_rounds ::
  "crypto \<Rightarrow> (Block \<Rightarrow> ('c, unit) hg) \<Rightarrow> pendingRound list \<Rightarrow> int list \<Rightarrow> 'c hashgraph_scheme
    \<Rightarrow> unit res \<times> int list \<times> 'c hashgraph_scheme" where
  "process_rounds P cb [] processed h = (Ok (), processed, h)"
| "process_rounds P cb (r # rs) processed h =
     (if \<not> pr_Decided r then (Ok (), processed, h)
      else
        (case process_round P cb (pr_Index r) h of
           (Ok _, h') \<Rightarrow> process_rounds P cb rs (processed @ [pr_Index r]) h'
         | (res, h') \<Rightarrow> (res, processed, h')))"

definition ProcessDecidedRounds :: "crypto \<Rightarrow> (Block \<Rightarrow> ('c, unit) hg) \<Rightarrow> ('c, unit) hg" where
  "ProcessDecidedRounds P cb h =
     (case process_rounds P cb (GetOrderedPendingRounds (h_PendingRounds h)) [] h of
        (res, processed, h') \<Rightarrow>
          (res, h'\<lparr>h_PendingRounds := prc_Clean processed (h_PendingRounds h')\<rparr>))"

section \<open>Signatures and the anchor block\<close>

definition SetAnchorBlock :: "Block \<Rightarrow> ('c, unit) hg" where
  "SetAnchorBlock block =
     bindG (onStore (GetPeerSet (bl_RoundReceived block))) (\<lambda>peerSet.
     bindG (getsG h_AnchorBlock) (\<lambda>anchor.
     if length (bl_Signatures block) > TrustCount peerSet \<and>
        (case anchor of None \<Rightarrow> True | Some a \<Rightarrow> bl_Index block > a)
     then setAnchorBlock (bl_Index block) else okG ()))"

definition process_sig :: "crypto \<Rightarrow> BlockSignature \<Rightarrow> ('c, unit) hg" where
  "process_sig P bs =
     tryG (onStore (GetBlock (bs_Index bs))) (\<lambda>r. case r of
       Inl _ \<Rightarrow> okG ()
     | Inr block \<Rightarrow>
         tryG (onStore (GetPeerSet (bl_RoundReceived block))) (\<lambda>r. case r of
           Inl _ \<Rightarrow> okG ()
         | Inr peerSet \<Rightarrow>
             if map_of (ps_ByPubKey peerSet) (ValidatorHex bs) = None then okG ()
             else
               bindG (liftO (bl_Verify P block bs)) (\<lambda>valid.
               if \<not> valid then okG ()
               else
                 let block = SetSignature bs block in
                 tryG (onStore (SetBlock block)) (\<lambda>_.
                 bindG (SetAnchorBlock block) (\<lambda>_.
                 modifyG (\<lambda>h. h\<lparr>h_PendingSignatures :=
                                  sp_Remove (bs_Key bs) (h_PendingSignatures h)\<rparr>))))))"

definition ProcessSigPool :: "crypto \<Rightarrow> ('c, unit) hg" where
  "ProcessSigPool P =
     bindG (getsG (\<lambda>h. sp_Slice (h_PendingSignatures h))) (\<lambda>items.
     foldG (\<lambda>bs _. process_sig P bs) items ())"

definition GetAnchorBlockWithFrame :: "crypto \<Rightarrow> ('c, Block \<times> Frame) hg" where
  "GetAnchorBlockWithFrame P =
     bindG (getsG h_AnchorBlock) (\<lambda>anchor. case anchor of
       None \<Rightarrow> errG (Errorf ''No Anchor Block'')
     | Some a \<Rightarrow>
         bindG (onStore (GetBlock a)) (\<lambda>block.
         bindG (hg_GetFrame P (bl_RoundReceived block)) (\<lambda>frame.
         okG (block, frame))))"

fun count_valid :: "crypto \<Rightarrow> Block \<Rightarrow> PeerSet \<Rightarrow> BlockSignature list \<Rightarrow> nat \<Rightarrow> nat res" where
  "count_valid P block peerSet [] n = Ok n"
| "count_valid P block peerSet (s # ss) n =
     (if map_of (ps_ByPubKey peerSet) (ValidatorHex s) = None then count_valid P block peerSet ss n
      else
        (case bl_Verify P block s of
           Ok ok \<Rightarrow> count_valid P block peerSet ss (if ok then n + 1 else n)
         | Err _ \<Rightarrow> count_valid P block peerSet ss n
         | Panic \<Rightarrow> Panic
         | Diverge \<Rightarrow> Diverge))"

definition CheckBlock :: "crypto \<Rightarrow> Block \<Rightarrow> PeerSet \<Rightarrow> unit res" where
  "CheckBlock P block peerSet =
     (if PeerSet_Hash P peerSet \<noteq> bb_PeersHash (bl_Body block) then Err (Errorf ''Wrong PeerSet'')
      else
        bindO (GetSignatures block) (\<lambda>sigs.
        bindO (count_valid P block peerSet sigs 0) (\<lambda>validSignatures.
        if validSignatures \<le> TrustCount peerSet
        then Err (Errorf (''Not enough valid signatures: got '' @ itoa (int validSignatures) @
                          '', need '' @ itoa (int (TrustCount peerSet))))
        else Ok ())))"

section \<open>Reset\<close>

definition clear_hashgraph :: "'c hashgraph_scheme \<Rightarrow> 'c hashgraph_scheme" where
  "clear_hashgraph h =
     (let cacheSize = is_cacheSize (h_Store h)
      in h\<lparr>h_LastConsensusRound := None, h_FirstConsensusRound := None, h_AnchorBlock := None,
           h_UndeterminedEvents := [], h_PendingRounds := NewPendingRoundsCache,
           h_PendingLoadedEvents := 0, h_topologicalIndex := 0,
           h_ancestorCache := NewLRU cacheSize, h_selfAncestorCache := NewLRU cacheSize,
           h_stronglySeeCache := NewLRU cacheSize, h_roundCache := NewLRU cacheSize,
           h_witnessCache := NewLRU cacheSize\<rparr>)"

definition hg_Reset :: "crypto \<Rightarrow> Block \<Rightarrow> Frame \<Rightarrow> ('c, unit) hg" where
  "hg_Reset P block frame =
     bindG (modifyG clear_hashgraph) (\<lambda>_.
     bindG (onStore (store_Reset frame)) (\<lambda>_.
     bindG (liftO (fr_SortedFrameEvents frame)) (\<lambda>sortedFrameEvents.
     bindG (foldG (\<lambda>fe _. InsertFrameEvent P fe) sortedFrameEvents ()) (\<lambda>_.
     bindG (onStore (SetBlock block)) (\<lambda>_.
     bindG (setLastConsensusRound (bl_RoundReceived block)) (\<lambda>_.
     setRoundLowerBound (bl_RoundReceived block)))))))"

section \<open>Wire events\<close>

definition ReadWireInfo :: "WireEvent \<Rightarrow> ('c, Event) hg" where
  "ReadWireInfo wevent =
     (let wb = we_Body wevent in
      bindG (getsG (\<lambda>h. RepertoireByID (h_Store h))) (\<lambda>rep.
      case map_of rep (wb_CreatorID wb) of
        None \<Rightarrow> errG (Errorf (''Creator '' @ show_u32 (wb_CreatorID wb) @ '' not found''))
      | Some creator \<Rightarrow>
          bindG (liftO (DecodeFromString (PubKeyString creator))) (\<lambda>(creatorBytes, err).
          case err of
            Some e \<Rightarrow> errG e
          | None \<Rightarrow>
              bindG (if wb_SelfParentIndex wb \<ge> 0
                     then onStore (ParticipantEvent (PubKeyString creator) (wb_SelfParentIndex wb))
                     else okG '''') (\<lambda>selfParent.
              bindG (if wb_OtherParentIndex wb \<ge> 0
                     then
                       (case map_of rep (wb_OtherParentCreatorID wb) of
                          None \<Rightarrow> errG (Errorf (''Participant '' @
                                    show_u32 (wb_OtherParentCreatorID wb) @ '' not found''))
                        | Some otherParentCreator \<Rightarrow>
                            tryG (onStore (ParticipantEvent (PubKeyString otherParentCreator)
                                             (wb_OtherParentIndex wb))) (\<lambda>r. case r of
                              Inl _ \<Rightarrow> errG (Errorf (''OtherParent (creator: '' @
                                       show_u32 (wb_OtherParentCreatorID wb) @ '', index: '' @
                                       itoa (wb_OtherParentIndex wb) @ '') not found''))
                            | Inr op \<Rightarrow> okG op))
                     else okG '''') (\<lambda>otherParent.
              okG
                \<lparr>ev_Body =
                   \<lparr>eb_Transactions = wb_Transactions wb,
                    eb_InternalTransactions = wb_InternalTransactions wb,
                    eb_Parents = [selfParent, otherParent],
                    eb_Creator = creatorBytes,
                    eb_Index = wb_Index wb,
                    eb_BlockSignatures = we_BlockSignatures wevent creatorBytes,
                    eb_Timestamp = wb_Timestamp wb,
                    eb_creatorID = wb_CreatorID wb,
                    eb_otherParentCreatorID = wb_OtherParentCreatorID wb,
                    eb_selfParentIndex = wb_SelfParentIndex wb,
                    eb_otherParentIndex = wb_OtherParentIndex wb\<rparr>,
                 ev_Signature = we_Signature wevent, ev_topologicalIndex = 0, ev_round = None,
                 ev_lamportTimestamp = None, ev_roundReceived = None, ev_lastAncestors = [],
                 ev_firstDescendants = []\<rparr>)))))"

section \<open>Insertion followed by consensus\<close>

definition InsertEventAndRunConsensus ::
  "crypto \<Rightarrow> (Block \<Rightarrow> ('c, unit) hg) \<Rightarrow> Event \<Rightarrow> bool \<Rightarrow> ('c, unit) hg" where
  "InsertEventAndRunConsensus P commitCallback event setWireInfo =
     bindG (InsertEvent P event setWireInfo) (\<lambda>_.
     bindG (DivideRounds P) (\<lambda>_.
     bindG (DecideFame P) (\<lambda>_.
     bindG (DecideRoundReceived P) (\<lambda>_.
     ProcessDecidedRounds P commitCallback))))"

end
