(* ===== verification/Hashgraph_Frame.thy ===== *)
theory Hashgraph_Frame
  imports Commit
begin

text \<open>
  What the methods of the hashgraph leave unchanged. An event in the store has a static part (its
  body, signature, topological index and last ancestors); rounds, timestamps, rounds received and
  first descendants are filled in later. \<open>dag\<close> is the map from hashes to static parts, and
  \<open>chain_of\<close> gives the last event of a participant. Every method except the insertions and
  \<open>Reset\<close> keeps both, keeps the cache keyed by hash, and keeps the memo table of \<open>ancestor\<close> in
  line with what the method would compute.
\<close>

section \<open>The static view of the store\<close>

definition ev_static :: "Event \<Rightarrow> Event" where
  "ev_static e =
     e\<lparr>ev_round := None, ev_lamportTimestamp := None, ev_roundReceived := None,
       ev_firstDescendants := []\<rparr>"

lemma ev_static_sel [simp]:
  "ev_Body (ev_static e) = ev_Body e"
  "ev_Signature (ev_static e) = ev_Signature e"
  "ev_lastAncestors (ev_static e) = ev_lastAncestors e"
  "ev_topologicalIndex (ev_static e) = ev_topologicalIndex e"
  by (simp_all add: ev_static_def)

lemma ev_static_idem [simp]: "ev_static (ev_static e) = ev_static e"
  by (simp add: ev_static_def)

lemma ev_static_update [simp]:
  "ev_static (e\<lparr>ev_firstDescendants := fd\<rparr>) = ev_static e"
  "ev_static (SetRound_ev r e) = ev_static e"
  "ev_static (SetLamportTimestamp t e) = ev_static e"
  "ev_static (SetRoundReceived rr e) = ev_static e"
  by (simp_all add: ev_static_def SetRound_ev_def SetLamportTimestamp_def SetRoundReceived_def)

lemma ev_methods_static [simp]:
  "Hex P (ev_static e) = Hex P e"
  "Creator (ev_static e) = Creator e"
  "SelfParent (ev_static e) = SelfParent e"
  "OtherParent (ev_static e) = OtherParent e"
  by (simp_all add: Hex_def ev_Hash_def Creator_def SelfParent_def OtherParent_def)

lemma Hex_update [simp]:
  "Hex P (e\<lparr>ev_firstDescendants := fd\<rparr>) = Hex P e"
  "Hex P (SetRound_ev r e) = Hex P e"
  "Hex P (SetLamportTimestamp t e) = Hex P e"
  "Hex P (SetRoundReceived rr e) = Hex P e"
  by (simp_all add: Hex_def ev_Hash_def SetRound_ev_def SetLamportTimestamp_def SetRoundReceived_def)

definition sdag :: "InmemStore \<Rightarrow> string \<Rightarrow> Event option" where
  "sdag s x = map_option ev_static (lru_lookup (is_eventCache s) x)"

text \<open>The window of a participant, and its last item with its index.\<close>

definition window_of :: "ParticipantEventsCache \<Rightarrow> string \<Rightarrow> string RollingIndex option" where
  "window_of pec c =
     (case participantID pec c of Ok i \<Rightarrow> map_of (rim_mapping (pec_rim pec)) i | _ \<Rightarrow> None)"

definition chain_of :: "InmemStore \<Rightarrow> string \<Rightarrow> (string \<times> int) option" where
  "chain_of s c =
     (case window_of (is_participantEventsCache s) c of
        None \<Rightarrow> None
      | Some w \<Rightarrow> if ri_items w = [] then None else Some (last (ri_items w), ri_lastIndex w))"

text \<open>The participants are pairwise different peers with pairwise different identifiers, and each has
  a window. A window that is still empty has never been written.\<close>

definition pec_wf :: "ParticipantEventsCache \<Rightarrow> bool" where
  "pec_wf pec \<longleftrightarrow>
     ps_wf (pec_participants pec) \<and>
     distinct (map peer_ID (ps_Peers (pec_participants pec))) \<and>
     (\<forall>i. map_of (rim_mapping (pec_rim pec)) i \<noteq> None \<longleftrightarrow>
          i \<in> peer_ID ` set (ps_Peers (pec_participants pec))) \<and>
     (\<forall>i w. map_of (rim_mapping (pec_rim pec)) i = Some w \<longrightarrow> ri_items w = [] \<longrightarrow> ri_lastIndex w < 0)"

definition good_store :: "crypto \<Rightarrow> InmemStore \<Rightarrow> bool" where
  "good_store P s \<longleftrightarrow>
     lru_inv (is_eventCache s) \<and>
     (\<forall>x e. lru_lookup (is_eventCache s) x = Some e \<longrightarrow> Hex P e = x) \<and>
     pec_wf (is_participantEventsCache s)"

text \<open>The frame of a store operation, started where the events satisfy \<open>Q\<close>.\<close>

definition sframe ::
  "crypto \<Rightarrow> ((string \<Rightarrow> Event option) \<Rightarrow> bool) \<Rightarrow> InmemStore \<Rightarrow> InmemStore \<Rightarrow> bool" where
  "sframe P Q s s' \<longleftrightarrow>
     good_store P s \<and> Q (sdag s) \<longrightarrow>
       good_store P s' \<and> sdag s' = sdag s \<and> chain_of s' = chain_of s \<and>
       lru_Len (is_eventCache s') = lru_Len (is_eventCache s) \<and>
       lru_size (is_eventCache s') = lru_size (is_eventCache s)"

interpretation sf: frame_rel "sframe P Q" for P Q
  by unfold_locales (auto simp: sframe_def)

lemma sframe_same:
  assumes "is_eventCache s' = is_eventCache s"
    and "is_participantEventsCache s' = is_participantEventsCache s"
  shows "sframe P Q s s'"
proof -
  have "sdag s' = sdag s" "chain_of s' = chain_of s" "good_store P s' = good_store P s"
    by (simp_all add: fun_eq_iff sdag_def chain_of_def good_store_def assms)
  then show ?thesis by (simp add: sframe_def assms)
qed

lemma keeps_sframe_same:
  assumes "\<And>s. is_eventCache (snd (m s)) = is_eventCache s"
    and "\<And>s. is_participantEventsCache (snd (m s)) = is_participantEventsCache s"
  shows "keeps (sframe P Q) m"
  using assms by (simp add: keeps_def sframe_same)

lemma keeps_sframe_weaken: "keeps (sframe P Q) m \<Longrightarrow> (\<And>d. Q' d \<Longrightarrow> Q d) \<Longrightarrow> keeps (sframe P Q') m"
  by (auto simp: keeps_def sframe_def)

subsection \<open>Operations of the store\<close>

named_theorems sframe_intro \<open>store operations that keep the static view\<close>

lemma keeps_sframe_reads [sframe_intro]:
  "keeps (sframe P Q) (GetPeerSet r)"
  "keeps (sframe P Q) (ParticipantEvent c i)"
  "keeps (sframe P Q) (LastEventFrom c)"
  "keeps (sframe P Q) (LastConsensusEventFrom c)"
  "keeps (sframe P Q) GetAllPeerSets"
  "keeps (sframe P Q) (GetRound r)"
  "keeps (sframe P Q) (SetRound r ri)"
  "keeps (sframe P Q) (GetBlock i)"
  "keeps (sframe P Q) (store_GetFrame i)"
  "keeps (sframe P Q) (AddConsensusEvent P' e)"
  by (rule keeps_sframe_same;
      simp add: GetPeerSet_def ParticipantEvent_def LastEventFrom_def LastConsensusEventFrom_def
        GetAllPeerSets_def GetRound_def SetRound_def GetBlock_def store_GetFrame_def
        AddConsensusEvent_def split_beta Let_def)+

lemma keeps_sframe_SetBlock [sframe_intro]: "keeps (sframe P Q) (SetBlock b)"
  unfolding SetBlock_def Let_def
  by (intro sf.keeps_basic keeps_rules sf.keeps_modify sframe_intro sframe_same; simp)

lemma keeps_sframe_SetFrame [sframe_intro]: "keeps (sframe P Q) (SetFrame f)"
  unfolding SetFrame_def
  by (intro sf.keeps_basic keeps_rules sf.keeps_modify sframe_intro sframe_same; simp add: put_frame_def)

lemma GetEvent_run:
  "GetEvent x s =
     (case lru_lookup (is_eventCache s) x of
        None \<Rightarrow> Err (NewStoreErr ''EventCache'' KeyNotFound x) | Some e \<Rightarrow> Ok e,
      s\<lparr>is_eventCache := lru_touch x (is_eventCache s)\<rparr>)"
  by (simp add: GetEvent_def split_beta)

lemma GetEvent_Ok: "GetEvent x s = (Ok e, s') \<Longrightarrow> lru_lookup (is_eventCache s) x = Some e"
  by (auto simp: GetEvent_run split: option.splits)

lemma GetEvent_sdag: "GetEvent x s = (Ok e, s') \<Longrightarrow> sdag s x = Some (ev_static e)"
  by (simp add: sdag_def GetEvent_Ok)

lemma sframe_touch: "sframe P Q s (s\<lparr>is_eventCache := lru_touch x (is_eventCache s)\<rparr>)"
proof -
  let ?s = "s\<lparr>is_eventCache := lru_touch x (is_eventCache s)\<rparr>"
  have "sdag ?s = sdag s" "chain_of ?s = chain_of s"
    by (simp_all add: fun_eq_iff sdag_def chain_of_def)
  then show ?thesis
    by (auto simp: sframe_def good_store_def lru_inv_Get lru_touch_length)
qed

lemma keeps_sframe_GetEvent [sframe_intro]: "keeps (sframe P Q) (GetEvent x)"
  by (simp add: keeps_def GetEvent_run sframe_touch)

text \<open>Writing an event over itself, with the same static part.\<close>

lemma sframe_overwrite:
  assumes "Q (sdag s) \<Longrightarrow> sdag s x = Some (ev_static e)" and "good_store P s \<Longrightarrow> Hex P e = x"
  shows "sframe P Q s (s\<lparr>is_eventCache := lru_add x e (is_eventCache s)\<rparr>)"
  unfolding sframe_def
proof (intro impI)
  assume pre: "good_store P s \<and> Q (sdag s)"
  let ?c = "is_eventCache s"
  let ?s = "s\<lparr>is_eventCache := lru_add x e ?c\<rparr>"
  have inv: "lru_inv ?c" using pre by (simp add: good_store_def)
  obtain e0 where e0: "lru_lookup ?c x = Some e0" "ev_static e0 = ev_static e"
    using assms(1) pre by (auto simp: sdag_def)
  have look: "lru_lookup (lru_add x e ?c) = (lru_lookup ?c)(x \<mapsto> e)"
    using inv e0 by (intro lru_lookup_Add_room) auto
  have "sdag ?s = sdag s" using e0 by (auto simp: sdag_def look fun_eq_iff)
  moreover have "chain_of ?s = chain_of s" by (simp add: chain_of_def fun_eq_iff)
  moreover have "good_store P ?s"
    using pre assms(2) by (auto simp: good_store_def look lru_inv_Add)
  moreover have "lru_Len (lru_add x e ?c) = lru_Len ?c" using inv e0 by (simp add: lru_Add_Len)
  ultimately show "good_store P ?s \<and> sdag ?s = sdag s \<and> chain_of ?s = chain_of s \<and>
       lru_Len (is_eventCache ?s) = lru_Len (is_eventCache s) \<and>
       lru_size (is_eventCache ?s) = lru_size (is_eventCache s)" by simp
qed

lemma SetEvent_known:
  assumes "sdag s (Hex P e) \<noteq> None"
  shows "SetEvent P e s =
    (Ok (), s\<lparr>is_eventCache := lru_add (Hex P e) e (lru_touch (Hex P e) (is_eventCache s))\<rparr>)"
  using assms
  by (auto simp: SetEvent_def Let_def tryG_def GetEvent_run sdag_def go_defs)

lemma keeps_sframe_SetEvent:
  assumes "\<And>d. Q d \<Longrightarrow> d (Hex P e) = Some (ev_static e)"
  shows "keeps (sframe P Q) (SetEvent P e)"
proof (rule keepsI)
  fix s r s'
  assume run: "SetEvent P e s = (r, s')"
  let ?s = "s\<lparr>is_eventCache := lru_touch (Hex P e) (is_eventCache s)\<rparr>"
  show "sframe P Q s s'"
  proof (cases "Q (sdag s)")
    case True
    then have "sdag s (Hex P e) \<noteq> None" using assms [OF True] by simp
    then have "s' = ?s\<lparr>is_eventCache := lru_add (Hex P e) e (is_eventCache ?s)\<rparr>"
      using run SetEvent_known [of s P e] by simp
    moreover have "sframe P Q ?s (?s\<lparr>is_eventCache := lru_add (Hex P e) e (is_eventCache ?s)\<rparr>)"
      using assms by (intro sframe_overwrite) auto
    ultimately show ?thesis using sf.frame_trans [OF sframe_touch] by simp
  qed (simp add: sframe_def)
qed

lemma sframe_poke:
  assumes "Q (sdag s) \<Longrightarrow> sdag s x = Some (ev_static e)" and "good_store P s \<Longrightarrow> Q (sdag s) \<Longrightarrow> Hex P e = x"
  shows "sframe P Q s (s\<lparr>is_eventCache := lru_poke x e (is_eventCache s)\<rparr>)"
proof -
  let ?s = "s\<lparr>is_eventCache := lru_poke x e (is_eventCache s)\<rparr>"
  have "sdag ?s = sdag s" if "Q (sdag s)"
    using assms(1) [OF that] by (auto simp: sdag_def fun_eq_iff)
  moreover have "chain_of ?s = chain_of s" by (simp add: chain_of_def fun_eq_iff)
  moreover have "good_store P ?s" if "good_store P s" "Q (sdag s)"
    using that assms(2) by (auto simp: good_store_def lru_inv_poke split: if_splits)
  ultimately show ?thesis by (simp add: sframe_def)
qed

subsection \<open>New participants\<close>

lemma window_of_run:
  "window_of pec c =
     (case map_of (ps_ByPubKey (pec_participants pec)) (ToUpper c) of
        None \<Rightarrow> None | Some p \<Rightarrow> map_of (rim_mapping (pec_rim pec)) (peer_ID p))"
  by (simp add: window_of_def participantID_def Let_def split: option.split)

definition pec_plus :: "Peer \<Rightarrow> ParticipantEventsCache \<Rightarrow> ParticipantEventsCache" where
  "pec_plus p pec =
     \<lparr>pec_participants = NewPeerSet (ps_Peers (pec_participants pec) @ [p]),
      pec_rim = (pec_rim pec)\<lparr>rim_keys := rim_keys (pec_rim pec) @ [peer_ID p],
        rim_mapping := AList.update (peer_ID p) (rim_fresh (peer_ID p) (pec_rim pec))
          (rim_mapping (pec_rim pec))\<rparr>\<rparr>"

lemma pec_AddPeer_new:
  assumes wf: "pec_wf pec" and new: "map_of (ps_ByID (pec_participants pec)) (peer_ID p) = None"
  shows "pec_AddPeer p pec = (Ok (), pec_plus p pec)"
    and "pec_wf (pec_plus p pec)"
    and "peer_ID p \<notin> peer_ID ` set (ps_Peers (pec_participants pec))"
proof -
  have ps: "pec_participants pec = NewPeerSet (ps_Peers (pec_participants pec))"
    using wf by (simp add: pec_wf_def ps_wf_def)
  show notin: "peer_ID p \<notin> peer_ID ` set (ps_Peers (pec_participants pec))"
    using new ByID_None_iff [of "ps_Peers (pec_participants pec)"] ps by simp
  then have "map_of (rim_mapping (pec_rim pec)) (peer_ID p) = None"
    using wf by (auto simp: pec_wf_def)
  then show "pec_AddPeer p pec = (Ok (), pec_plus p pec)"
    using new by (simp add: pec_AddPeer_def AddKey_def WithNewPeer_def Let_def pec_plus_def)
  show "pec_wf (pec_plus p pec)"
    using wf notin by (auto simp: pec_wf_def rim_fresh_def NewRollingIndex_def pec_plus_def)
qed

lemma window_of_AddPeer:
  assumes wf: "pec_wf pec" and new: "map_of (ps_ByID (pec_participants pec)) (peer_ID p) = None"
  shows "window_of (snd (pec_AddPeer p pec)) c =
    (if ToUpper c = PubKeyString p then Some (rim_fresh (peer_ID p) (pec_rim pec)) else window_of pec c)"
    and "ToUpper c = PubKeyString p \<Longrightarrow> window_of pec c = None"
proof -
  let ?ps = "ps_Peers (pec_participants pec)"
  have ps: "pec_participants pec = NewPeerSet ?ps" using wf by (simp add: pec_wf_def ps_wf_def)
  note facts = pec_AddPeer_new [OF wf new]
  have other: "q \<in> set ?ps" if "map_of (ps_ByPubKey (pec_participants pec)) k = Some q" for k q
    using that ps ByPubKey_New_SomeD [of ?ps k q] by simp
  have "peer_ID q \<noteq> peer_ID p" if "map_of (ps_ByPubKey (pec_participants pec)) k = Some q" for k q
    using other [OF that] facts(3) by (metis imageI)
  then show "window_of (snd (pec_AddPeer p pec)) c =
    (if ToUpper c = PubKeyString p then Some (rim_fresh (peer_ID p) (pec_rim pec)) else window_of pec c)"
    using ps by (auto simp: window_of_run facts(1) pec_plus_def ByPubKey_append split: option.split)
  show "window_of pec c = None" if "ToUpper c = PubKeyString p"
  proof (cases "map_of (ps_ByPubKey (pec_participants pec)) (ToUpper c)")
    case (Some q)
    then have "PubKeyString q = PubKeyString p" and q: "q \<in> set ?ps"
      using ByPubKey_New_SomeD [of ?ps "ToUpper c" q] ps that by auto
    then have "peer_ID p = peer_ID q" using peer_ID_cong by metis
    then show ?thesis using facts(3) q by simp
  qed (simp add: window_of_run)
qed

lemma keeps_sframe_AddPeer:
  "keeps (sframe P Q) (\<lambda>s :: InmemStore.
     (case map_of (ps_ByID (pec_participants (is_participantEventsCache s))) (peer_ID p) of
       Some _ \<Rightarrow> (Ok (), s)
     | None \<Rightarrow> (let (r, pec) = pec_AddPeer p (is_participantEventsCache s)
                in (r, s\<lparr>is_participantEventsCache := pec\<rparr>))))"
proof (rule keepsI)
  fix s s' :: InmemStore and r
  let ?pec = "is_participantEventsCache s"
  assume run: "(case map_of (ps_ByID (pec_participants ?pec)) (peer_ID p) of
       Some _ \<Rightarrow> (Ok (), s)
     | None \<Rightarrow> (let (r, pec) = pec_AddPeer p ?pec in (r, s\<lparr>is_participantEventsCache := pec\<rparr>))) = (r, s')"
  show "sframe P Q s s'"
  proof (cases "map_of (ps_ByID (pec_participants ?pec)) (peer_ID p)")
    case (Some q)
    then show ?thesis using run by (simp add: sf.frame_refl)
  next
    case None
    then have s': "s' = s\<lparr>is_participantEventsCache := snd (pec_AddPeer p ?pec)\<rparr>"
      using run by (simp add: split_beta)
    show ?thesis unfolding sframe_def
    proof (intro impI)
      assume pre: "good_store P s \<and> Q (sdag s)"
      then have wf: "pec_wf ?pec" by (simp add: good_store_def)
      have "chain_of s' c = chain_of s c" for c
        using window_of_AddPeer [OF wf None, of c]
        by (auto simp: chain_of_def s' rim_fresh_def NewRollingIndex_def)
      moreover have "good_store P s'"
        using pre pec_AddPeer_new [OF wf None] by (simp add: good_store_def s')
      moreover have "sdag s' = sdag s" by (simp add: s' sdag_def fun_eq_iff)
      ultimately show "good_store P s' \<and> sdag s' = sdag s \<and> chain_of s' = chain_of s \<and>
          lru_Len (is_eventCache s') = lru_Len (is_eventCache s) \<and>
          lru_size (is_eventCache s') = lru_size (is_eventCache s)"
        by (simp add: fun_eq_iff s')
    qed
  qed
qed

lemma keeps_sframe_SetPeerSet [sframe_intro]: "keeps (sframe P Q) (SetPeerSet r ps)"
proof -
  have "keeps (sframe P Q) (addParticipant p)" for p
    unfolding addParticipant_def
    by (intro sf.keeps_bind keeps_sframe_AddPeer sf.keeps_modify sframe_same)
      (auto simp: add_root_def Let_def split: option.split)
  moreover have "keeps (sframe P Q) (\<lambda>s. (let (r, c) = psc_Set r ps (is_peerSetCache s)
                 in (r, s\<lparr>is_peerSetCache := c\<rparr>)))"
    by (rule keeps_sframe_same) (simp_all add: split_beta)
  ultimately show ?thesis unfolding SetPeerSet_def
    by (intro sf.keeps_basic)
qed

section \<open>The frame of a method\<close>

definition dag :: "'c hashgraph_scheme \<Rightarrow> string \<Rightarrow> Event option" where
  "dag h = sdag (h_Store h)"

text \<open>What \<open>ancestor\<close> and \<open>selfAncestor\<close> compute, as functions of the static view; \<open>None\<close> when
  an event is missing.\<close>

definition anc_fun :: "(string \<Rightarrow> Event option) \<Rightarrow> string \<Rightarrow> string \<Rightarrow> bool option" where
  "anc_fun d x y =
     (if x = y then Some True
      else case (d x, d y) of
        (Some ex, Some ey) \<Rightarrow>
          Some (case map_of (ev_lastAncestors ex) (Creator ey) of
                  None \<Rightarrow> False | Some entry \<Rightarrow> ec_Index entry \<ge> ev_Index ey)
      | _ \<Rightarrow> None)"

definition selfanc_fun :: "(string \<Rightarrow> Event option) \<Rightarrow> string \<Rightarrow> string \<Rightarrow> bool option" where
  "selfanc_fun d x y =
     (if x = y then Some True
      else case (d x, d y) of
        (Some ex, Some ey) \<Rightarrow> Some (Creator ex = Creator ey \<and> ev_Index ex \<ge> ev_Index ey)
      | _ \<Rightarrow> None)"

text \<open>The Lamport timestamps that the graph determines.\<close>

inductive lamport_of :: "(string \<Rightarrow> Event option) \<Rightarrow> string \<Rightarrow> int \<Rightarrow> bool" for d where
  lamportI: "d x = Some e \<Longrightarrow> SelfParent e = Ok sp \<Longrightarrow> OtherParent e = Ok op \<Longrightarrow>
    (sp = '''' \<longrightarrow> s = -1) \<Longrightarrow> (sp \<noteq> '''' \<longrightarrow> lamport_of d sp s) \<Longrightarrow>
    (op = '''' \<longrightarrow> t = s) \<Longrightarrow> (op \<noteq> '''' \<and> d op = None \<longrightarrow> t = MinInt32) \<Longrightarrow>
    (op \<noteq> '''' \<and> d op \<noteq> None \<longrightarrow> lamport_of d op t) \<Longrightarrow> lamport_of d x (max s t + 1)"

text \<open>The memo tables of the methods that only depend on the static view.\<close>

definition memo_coh :: "'c hashgraph_scheme \<Rightarrow> bool" where
  "memo_coh h \<longleftrightarrow>
     memo_ok (\<lambda>k b. anc_fun (dag h) (key_x k) (key_y k) = Some b) (h_ancestorCache h) \<and>
     memo_ok (\<lambda>k b. selfanc_fun (dag h) (key_x k) (key_y k) = Some b) (h_selfAncestorCache h) \<and>
     memo_ok (lamport_of (dag h)) (h_timestampCache h)"

definition hpre :: "crypto \<Rightarrow> ((string \<Rightarrow> Event option) \<Rightarrow> bool) \<Rightarrow> 'c hashgraph_scheme \<Rightarrow> bool" where
  "hpre P Q h \<longleftrightarrow> good_store P (h_Store h) \<and> Q (dag h) \<and> memo_coh h"

definition hframe ::
  "crypto \<Rightarrow> ((string \<Rightarrow> Event option) \<Rightarrow> bool) \<Rightarrow> 'c hashgraph_scheme \<Rightarrow> 'c hashgraph_scheme \<Rightarrow> bool" where
  "hframe P Q h h' \<longleftrightarrow>
     sframe P Q (h_Store h) (h_Store h') \<and> (hpre P Q h \<longrightarrow> memo_coh h')"

lemma hframe_pre:
  assumes "hframe P Q h h'" and "hpre P Q h"
  shows "hpre P Q h'" and "dag h' = dag h"
  using assms by (simp_all add: hframe_def hpre_def sframe_def dag_def)

interpretation hf: frame_rel "hframe P Q" for P Q
proof
  fix s :: "'c hashgraph_scheme"
  show "hframe P Q s s" by (simp add: hframe_def hpre_def sf.frame_refl)
next
  fix s t u :: "'c hashgraph_scheme"
  assume st: "hframe P Q s t" and tu: "hframe P Q t u"
  have "sframe P Q (h_Store s) (h_Store u)"
    using st tu unfolding hframe_def by (blast intro: sf.frame_trans)
  moreover have "memo_coh u" if "hpre P Q s"
    using hframe_pre(1) [OF st that] tu by (simp add: hframe_def)
  ultimately show "hframe P Q s u" by (simp add: hframe_def)
qed

lemma hframe_same:
  assumes "h_Store h' = h_Store h" and "h_ancestorCache h' = h_ancestorCache h"
    and "h_selfAncestorCache h' = h_selfAncestorCache h" and "h_timestampCache h' = h_timestampCache h"
  shows "hframe P Q h h'"
  using assms by (simp add: hframe_def hpre_def memo_coh_def dag_def sf.frame_refl)

lemma keeps_hframe_modify:
  assumes "\<And>h. h_Store (f h) = h_Store h" and "\<And>h. h_ancestorCache (f h) = h_ancestorCache h"
    and "\<And>h. h_selfAncestorCache (f h) = h_selfAncestorCache h"
    and "\<And>h. h_timestampCache (f h) = h_timestampCache h"
  shows "keeps (hframe P Q) (modifyG f)"
  by (intro hf.keeps_modify hframe_same assms)

lemma hframe_store:
  assumes "sframe P Q (h_Store h) s"
  shows "hframe P Q h (h\<lparr>h_Store := s\<rparr>)"
  using assms by (auto simp: hframe_def hpre_def memo_coh_def dag_def sframe_def)

lemma keeps_hframe_onStore: "keeps (sframe P Q) m \<Longrightarrow> keeps (hframe P Q) (onStore m)"
  by (auto simp: keeps_def onStore_def split_beta hframe_store)

lemma keeps_hframe_weaken: "keeps (hframe P Q) m \<Longrightarrow> (\<And>d. Q' d \<Longrightarrow> Q d) \<Longrightarrow> keeps (hframe P Q') m"
  by (auto simp: keeps_def hframe_def hpre_def sframe_def)

text \<open>What follows a successful \<open>GetEvent\<close> knows the static part of the event.\<close>

lemma hframe_GetEvent_step:
  assumes run: "onStore (GetEvent x) h = (Ok e, h')"
    and k: "hframe P (\<lambda>d. Q d \<and> d x = Some (ev_static e)) h' h''"
  shows "hframe P Q h h''"
proof -
  have x: "sdag (h_Store h) x = Some (ev_static e)"
    using run by (auto simp: onStore_def split_beta prod_eq_iff intro: GetEvent_sdag)
  have "hframe P (\<lambda>d. Q d \<and> d x = Some (ev_static e)) h h'"
    using keepsD [OF keeps_hframe_onStore [OF keeps_sframe_GetEvent]] run by blast
  then have "hframe P (\<lambda>d. Q d \<and> d x = Some (ev_static e)) h h''"
    using k by (rule hf.frame_trans)
  then show ?thesis using x by (simp add: hframe_def hpre_def sframe_def dag_def)
qed

lemma keeps_hframe_bind_GetEvent:
  assumes k: "\<And>e. keeps (hframe P (\<lambda>d. Q d \<and> d x = Some (ev_static e))) (k e)"
  shows "keeps (hframe P Q) (bindG (onStore (GetEvent x)) k)"
proof (rule keepsI)
  fix h r h'
  assume run: "bindG (onStore (GetEvent x)) k h = (r, h')"
  obtain r1 h1 where r1: "onStore (GetEvent x) h = (r1, h1)" by fastforce
  have h1: "hframe P Q h h1"
    using keeps_hframe_onStore [OF keeps_sframe_GetEvent] r1 by (rule keepsD)
  show "hframe P Q h h'"
  proof (cases r1)
    case (Ok e)
    then have "k e h1 = (r, h')" using run r1 by (simp add: bindG_run)
    then have "hframe P (\<lambda>d. Q d \<and> d x = Some (ev_static e)) h1 h'" by (rule keepsD [OF k])
    then show ?thesis by (rule hframe_GetEvent_step [OF r1 [unfolded Ok]])
  qed (use run r1 h1 in \<open>auto simp: bindG_run\<close>)
qed

lemma keeps_hframe_try_GetEvent:
  assumes ok: "\<And>e. keeps (hframe P (\<lambda>d. Q d \<and> d x = Some (ev_static e))) (k (Inr e))"
    and err: "\<And>e. keeps (hframe P Q) (k (Inl e))"
  shows "keeps (hframe P Q) (tryG (onStore (GetEvent x)) k)"
proof (rule keepsI)
  fix h r h'
  assume run: "tryG (onStore (GetEvent x)) k h = (r, h')"
  obtain r1 h1 where r1: "onStore (GetEvent x) h = (r1, h1)" by fastforce
  have h1: "hframe P Q h h1"
    using keeps_hframe_onStore [OF keeps_sframe_GetEvent] r1 by (rule keepsD)
  show "hframe P Q h h'"
  proof (cases r1)
    case (Ok e)
    then have "k (Inr e) h1 = (r, h')" using run r1 by (simp add: tryG_run)
    then have "hframe P (\<lambda>d. Q d \<and> d x = Some (ev_static e)) h1 h'" by (rule keepsD [OF ok])
    then show ?thesis by (rule hframe_GetEvent_step [OF r1 [unfolded Ok]])
  next
    case (Err e)
    then have "k (Inl e) h1 = (r, h')" using run r1 by (simp add: tryG_run)
    then have "hframe P Q h1 h'" by (rule keepsD [OF err])
    with h1 show ?thesis by (rule hf.frame_trans)
  qed (use run r1 h1 in \<open>auto simp: tryG_run\<close>)
qed

subsection \<open>Predicates on events\<close>

named_theorems hframe_intro \<open>methods that keep the static view\<close>

lemma ancestor_raw_anc_fun:
  assumes "ancestor_raw x y h = (Ok b, h')"
  shows "anc_fun (dag h) x y = Some b"
proof (cases "x = y")
  case True
  then show ?thesis using assms by (simp add: ancestor_raw_def anc_fun_def go_defs)
next
  case False
  then obtain ex ey where
    "lru_lookup (is_eventCache (h_Store h)) x = Some ex"
    "lru_lookup (is_eventCache (h_Store h)) y = Some ey"
    "b = (case map_of (ev_lastAncestors ex) (Creator ey) of
            None \<Rightarrow> False | Some entry \<Rightarrow> ec_Index entry \<ge> ev_Index ey)"
    using assms
    by (auto simp: ancestor_raw_def bindG_eq_Ok onStore_def GetEvent_run go_defs split: option.splits)
  then show ?thesis using False by (simp add: anc_fun_def dag_def sdag_def split: option.split)
qed

lemma keeps_hframe_GetEvent [hframe_intro]: "keeps (hframe P Q) (onStore (GetEvent x))"
  by (intro keeps_hframe_onStore sframe_intro)

lemma keeps_hframe_ancestor_raw: "keeps (hframe P Q) (ancestor_raw x y)"
  unfolding ancestor_raw_def by (intro hf.keeps_basic keeps_rules hframe_intro)

lemma memoG_cases:
  assumes "memoG cache set_cache k m s = (r, s')"
  obtains (hit) v where "lru_lookup (cache s) k = Some v" and "r = Ok v"
      and "s' = set_cache (lru_touch k (cache s)) s"
  | (computed) a s1 where "lru_lookup (cache s) k = None"
      and "m (set_cache (lru_touch k (cache s)) s) = (Ok a, s1)" and "r = Ok a"
      and "s' = set_cache (lru_add k a (cache s1)) s1"
  | (failed) "lru_lookup (cache s) k = None"
      and "m (set_cache (lru_touch k (cache s)) s) = (r, s')" and "\<not> is_Ok r"
proof -
  obtain v c where get: "lru_Get k (cache s) = (v, c)" by fastforce
  then have v: "lru_lookup (cache s) k = v" using lru_Get_fst [of k "cache s"] by simp
  have c: "lru_touch k (cache s) = c" using get by simp
  obtain r1 s1 where r1: "m (set_cache c s) = (r1, s1)" by fastforce
  show ?thesis
  proof (cases v)
    case (Some a)
    then have "r = Ok a" "s' = set_cache c s" using assms by (auto simp: memoG_def get)
    then show ?thesis using Some v c by (intro hit [of a]) simp_all
  next
    case None
    then have run: "bindG m (\<lambda>a. bindG (modifyG (\<lambda>s. set_cache (lru_add k a (cache s)) s)) (\<lambda>_. okG a))
        (set_cache c s) = (r, s')"
      using assms by (simp add: memoG_def get)
    show ?thesis
    proof (cases "\<exists>a. r1 = Ok a")
      case True
      then obtain a where "r1 = Ok a" by blast
      moreover from this have "r = Ok a" "s' = set_cache (lru_add k a (cache s1)) s1"
        using run r1 by (auto simp: bindG_run go_defs)
      ultimately show ?thesis using None v c r1 by (intro computed [of a s1]) simp_all
    next
      case False
      then have "r = r1" "s' = s1" "\<not> is_Ok r"
        using run r1 by (cases r1; auto simp: bindG_run)+
      then show ?thesis using None v c r1 by (intro failed) simp_all
    qed
  qed
qed

text \<open>A memo table that is part of \<open>memo_coh\<close>, with \<open>F\<close> the meaning of its entries.\<close>

definition memo_part ::
  "('c hashgraph_scheme \<Rightarrow> ('k, 'v) LRU) \<Rightarrow> (('k, 'v) LRU \<Rightarrow> 'c hashgraph_scheme \<Rightarrow> 'c hashgraph_scheme)
    \<Rightarrow> ((string \<Rightarrow> Event option) \<Rightarrow> 'k \<Rightarrow> 'v \<Rightarrow> bool) \<Rightarrow> bool" where
  "memo_part cache set_cache F \<longleftrightarrow>
     (\<forall>c h. h_Store (set_cache c h) = h_Store h) \<and>
     (\<forall>h. memo_coh h \<longrightarrow> memo_ok (F (dag h)) (cache h)) \<and>
     (\<forall>c h. memo_coh h \<longrightarrow> memo_ok (F (dag h)) c \<longrightarrow> memo_coh (set_cache c h))"

lemma memo_partD:
  assumes "memo_part cache set_cache F"
  shows "h_Store (set_cache c h) = h_Store h" and "dag (set_cache c h) = dag h"
    and "memo_coh h \<Longrightarrow> memo_ok (F (dag h)) (cache h)"
    and "memo_coh h \<Longrightarrow> memo_ok (F (dag h)) c \<Longrightarrow> memo_coh (set_cache c h)"
  using assms by (simp_all add: memo_part_def dag_def)

lemma memo_parts:
  "memo_part h_ancestorCache (\<lambda>c h. h\<lparr>h_ancestorCache := c\<rparr>)
     (\<lambda>d k b. anc_fun d (key_x k) (key_y k) = Some b)"
  "memo_part h_selfAncestorCache (\<lambda>c h. h\<lparr>h_selfAncestorCache := c\<rparr>)
     (\<lambda>d k b. selfanc_fun d (key_x k) (key_y k) = Some b)"
  "memo_part h_timestampCache (\<lambda>c h. h\<lparr>h_timestampCache := c\<rparr>) lamport_of"
  by (simp_all add: memo_part_def memo_coh_def dag_def)

lemma hframe_set_memo:
  assumes "memo_part cache set_cache F" and "hpre P Q h \<Longrightarrow> memo_ok (F (dag h)) c"
  shows "hframe P Q h (set_cache c h)"
  using assms memo_partD(1,4) [OF assms(1)] by (simp add: hframe_def hpre_def sf.frame_refl)

lemma hframe_memo:
  assumes part: "memo_part cache set_cache F" and m: "keeps (hframe P Q) m"
    and F: "\<And>h a h'. m h = (Ok a, h') \<Longrightarrow> hpre P Q h \<Longrightarrow> F (dag h) k a"
    and run: "memoG cache set_cache k m h = (r, h')"
  shows "hframe P Q h h' \<and> (\<forall>a. r = Ok a \<longrightarrow> hpre P Q h \<longrightarrow> F (dag h) k a)"
proof -
  let ?h0 = "set_cache (lru_touch k (cache h)) h"
  have ok: "hpre P Q h \<Longrightarrow> memo_ok (F (dag h)) (cache h)"
    using memo_partD(3) [OF part] by (simp add: hpre_def)
  then have h0: "hframe P Q h ?h0"
    by (intro hframe_set_memo [OF part] memo_ok_touch) simp
  from run show ?thesis
  proof (cases rule: memoG_cases)
    case (hit v)
    then show ?thesis using h0 ok by (auto dest: memo_okD)
  next
    case (computed a h1)
    have h1: "hframe P Q ?h0 h1" using m computed(2) by (rule keepsD)
    have a: "F (dag h) k a" if "hpre P Q h"
      using F [OF computed(2) hframe_pre(1) [OF h0 that]] hframe_pre(2) [OF h0 that] by simp
    have "hframe P Q h h1" using h0 h1 by (rule hf.frame_trans)
    moreover have "hframe P Q h h1 \<Longrightarrow> hframe P Q h h'" unfolding computed(4)
    proof -
      assume fr: "hframe P Q h h1"
      have coh: "memo_coh (set_cache (lru_add k a (cache h1)) h1)" if "hpre P Q h"
      proof -
        have c1: "memo_coh h1" using hframe_pre(1) [OF fr that] by (simp add: hpre_def)
        then have "memo_ok (F (dag h1)) (cache h1)" by (rule memo_partD(3) [OF part])
        then have "memo_ok (F (dag h1)) (lru_add k a (cache h1))"
          using a [OF that] hframe_pre(2) [OF fr that] by (intro memo_ok_add) simp_all
        with c1 show ?thesis by (rule memo_partD(4) [OF part])
      qed
      then show "hframe P Q h (set_cache (lru_add k a (cache h1)) h1)"
        using fr by (simp add: hframe_def memo_partD(1) [OF part])
    qed
    ultimately show ?thesis using a computed(3) by simp
  next
    case failed
    have "hframe P Q ?h0 h'" using m failed(2) by (rule keepsD)
    with h0 have "hframe P Q h h'" by (rule hf.frame_trans)
    then show ?thesis using failed(3) by auto
  qed
qed

lemma keeps_hframe_ancestor [hframe_intro]: "keeps (hframe P Q) (ancestor x y)"
  unfolding ancestor_def
  by (rule keepsI, drule hframe_memo [OF memo_parts(1) keeps_hframe_ancestor_raw, rotated])
    (auto dest: ancestor_raw_anc_fun)

lemma selfAncestor_raw_fun:
  assumes "selfAncestor_raw x y h = (Ok b, h')"
  shows "selfanc_fun (dag h) x y = Some b"
  using assms
  by (auto simp: selfAncestor_raw_def selfanc_fun_def bindG_eq_Ok onStore_def GetEvent_run go_defs
      dag_def sdag_def split: option.splits if_splits)

lemma keeps_hframe_selfAncestor_raw: "keeps (hframe P Q) (selfAncestor_raw x y)"
  unfolding selfAncestor_raw_def by (intro hf.keeps_basic keeps_rules hframe_intro)

lemma keeps_hframe_selfAncestor [hframe_intro]: "keeps (hframe P Q) (selfAncestor x y)"
  unfolding selfAncestor_def
  by (rule keepsI, drule hframe_memo [OF memo_parts(2) keeps_hframe_selfAncestor_raw, rotated])
    (auto dest: selfAncestor_raw_fun)

lemma keeps_hframe_memo:
  assumes m: "keeps (hframe P Q) m"
    and same: "\<And>c h. h_Store (set_cache c h) = h_Store h"
    "\<And>c h. h_ancestorCache (set_cache c h) = h_ancestorCache h"
    "\<And>c h. h_selfAncestorCache (set_cache c h) = h_selfAncestorCache h"
    "\<And>c h. h_timestampCache (set_cache c h) = h_timestampCache h"
  shows "keeps (hframe P Q) (memoG cache set_cache k m)"
proof (rule keepsI)
  fix h r h'
  let ?h0 = "set_cache (lru_touch k (cache h)) h"
  have h0: "hframe P Q h ?h0" by (intro hframe_same same)
  assume "memoG cache set_cache k m h = (r, h')"
  then show "hframe P Q h h'"
  proof (cases rule: memoG_cases)
    case (hit v)
    then show ?thesis using h0 by simp
  next
    case (computed a h1)
    have "hframe P Q ?h0 h1" using m computed(2) by (rule keepsD)
    moreover have "hframe P Q h1 h'" unfolding computed(4) by (intro hframe_same same)
    ultimately show ?thesis using h0 hf.frame_trans by metis
  next
    case failed
    have "hframe P Q ?h0 h'" using m failed(2) by (rule keepsD)
    with h0 show ?thesis by (rule hf.frame_trans)
  qed
qed

lemma keeps_hframe_store_ops [hframe_intro]:
  "keeps (hframe P Q) (onStore (GetPeerSet r))"
  "keeps (hframe P Q) (onStore (ParticipantEvent c i))"
  "keeps (hframe P Q) (onStore (LastEventFrom c))"
  "keeps (hframe P Q) (onStore (LastConsensusEventFrom c))"
  "keeps (hframe P Q) (onStore GetAllPeerSets)"
  "keeps (hframe P Q) (onStore (GetRound r))"
  "keeps (hframe P Q) (onStore (SetRound r ri))"
  "keeps (hframe P Q) (onStore (GetBlock i))"
  "keeps (hframe P Q) (onStore (SetBlock b))"
  "keeps (hframe P Q) (onStore (store_GetFrame i))"
  "keeps (hframe P Q) (onStore (SetFrame f))"
  "keeps (hframe P Q) (onStore (AddConsensusEvent P' e))"
  "keeps (hframe P Q) (onStore (SetPeerSet r ps))"
  by (intro keeps_hframe_onStore sframe_intro)+

lemma keeps_hframe_stronglySee [hframe_intro]: "keeps (hframe P Q) (stronglySee P' x y ps)"
  unfolding stronglySee_def stronglySee_raw_def
  by (rule keeps_hframe_memo; (intro hf.keeps_basic hframe_intro)?; simp)

lemma keeps_hframe_see [hframe_intro]: "keeps (hframe P Q) (see x y)"
  unfolding see_def by (rule hframe_intro)

lemma keeps_hframe_parent_round:
  assumes "\<And>x. keeps (hframe P Q) (rec x)"
  shows "keeps (hframe P Q) (parent_round rec e)"
  unfolding parent_round_def by (intro hf.keeps_basic keeps_rules assms)

lemma keeps_hframe_round_raw:
  assumes "\<And>x. keeps (hframe P Q) (rec x)"
  shows "keeps (hframe P Q) (round_raw P' rec x)"
  unfolding round_raw_def count_stronglySeen_def
  by (intro hf.keeps_basic keeps_rules hframe_intro keeps_hframe_parent_round assms)

lemma keeps_hframe_round_fuel: "keeps (hframe P Q) (round_fuel P' n x)"
proof (induction n arbitrary: x)
  case 0
  show ?case by (simp add: hf.keeps_lift)
next
  case (Suc n)
  show ?case unfolding round_fuel.simps
    by (rule keeps_hframe_memo [OF keeps_hframe_round_raw [OF Suc]]) simp_all
qed

lemma keeps_hframe_round [hframe_intro]: "keeps (hframe P Q) (hg_round P' x)"
  unfolding hg_round_def [abs_def] by (rule keeps_run) (rule keeps_hframe_round_fuel)

lemma keeps_hframe_witness [hframe_intro]: "keeps (hframe P Q) (witness P' x)"
  unfolding witness_def witness_raw_def
  by (rule keeps_hframe_memo; (intro hf.keeps_basic keeps_rules hframe_intro)?; simp)

lemma keeps_hframe_lamport_raw:
  assumes "\<And>x. keeps (hframe P Q) (rec x)"
  shows "keeps (hframe P Q) (lamportTimestamp_raw rec x)"
  unfolding lamportTimestamp_raw_def
  by (intro hf.keeps_basic keeps_rules hframe_intro assms)

lemma lamport_raw_of:
  assumes rec: "\<And>x h t h'. rec x h = (Ok t, h') \<Longrightarrow> hpre P Q h \<Longrightarrow> hframe P Q h h' \<and> lamport_of (dag h) x t"
    and run: "lamportTimestamp_raw rec x h = (Ok t, h')" and pre: "hpre P Q h"
  shows "lamport_of (dag h) x t"
proof -
  obtain e h1 where e: "onStore (GetEvent x) h = (Ok e, h1)"
    using run by (auto simp: lamportTimestamp_raw_def bindG_eq_Ok)
  have fr1: "hframe P Q h h1" using keeps_hframe_GetEvent e by (rule keepsD)
  note h1 = hframe_pre [OF fr1 pre]
  obtain sp op s h2 where sp: "SelfParent e = Ok sp" and op: "OtherParent e = Ok op"
    and s: "(if sp \<noteq> '''' then rec sp else okG (-1)) h1 = (Ok s, h2)"
    and rest: "(if op \<noteq> ''''
        then bindG
          (tryG (onStore (GetEvent op)) (\<lambda>r. case r of Inr _ \<Rightarrow> rec op | Inl _ \<Rightarrow> okG MinInt32))
          (\<lambda>opLT. okG (if opLT > s then opLT else s))
        else okG s) h2 = (Ok (t - 1), h')"
    using run e by (auto simp: lamportTimestamp_raw_def bindG_eq_Ok go_defs)
  have s': "sp = '''' \<longrightarrow> s = -1" "sp \<noteq> '''' \<longrightarrow> lamport_of (dag h) sp s" and fr2: "hframe P Q h1 h2"
    using s rec [OF _ h1(1), of sp s h2] h1(2) by (auto simp: go_defs hf.frame_refl split: if_splits)
  note h2 = hframe_pre [OF fr2 h1(1)]
  have x: "dag h x = Some (ev_static e)"
    using e by (auto simp: dag_def sdag_def onStore_def GetEvent_run split: option.splits)
  have d2: "dag h2 op = map_option ev_static (lru_lookup (is_eventCache (h_Store h2)) op)"
    by (simp add: dag_def sdag_def)
  obtain u where u: "op = '''' \<longrightarrow> u = s" "op \<noteq> '''' \<and> dag h op = None \<longrightarrow> u = MinInt32"
    "op \<noteq> '''' \<and> dag h op \<noteq> None \<longrightarrow> lamport_of (dag h) op u" "t = max s u + 1"
  proof (cases "op = ''''")
    case True
    then have "t = s + 1" using rest by (auto simp: go_defs)
    then show ?thesis using True by (intro that [of s]) simp_all
  next
    case False
    let ?h3 = "h2\<lparr>h_Store := (h_Store h2)\<lparr>is_eventCache := lru_touch op (is_eventCache (h_Store h2))\<rparr>\<rparr>"
    have "hframe P Q h2 ?h3"
      by (rule keepsD [OF keeps_hframe_GetEvent [of P Q op]]) (simp add: onStore_def GetEvent_run)
    note h3 = hframe_pre [OF this h2(1)]
    show ?thesis
    proof (cases "lru_lookup (is_eventCache (h_Store h2)) op")
      case None
      then show ?thesis using rest False that [of MinInt32] d2 h1(2) h2(2)
        by (auto simp: tryG_def onStore_def GetEvent_run bindG_eq_Ok go_defs split: if_splits)
    next
      case (Some eo)
      then obtain u h4 where u: "rec op ?h3 = (Ok u, h4)" "t - 1 = (if u > s then u else s)"
        using rest False by (auto simp: tryG_def onStore_def GetEvent_run bindG_eq_Ok go_defs)
      then have "lamport_of (dag h) op u" using rec [OF u(1) h3(1)] h1(2) h2(2) h3(2) by simp
      then show ?thesis using False that [of u] d2 h1(2) h2(2) Some u(2) by (auto split: if_splits)
    qed
  qed
  show ?thesis unfolding u(4) using x sp op s' u(1-3)
    by (intro lamportI [where e = "ev_static e" and sp = sp and op = op]) simp_all
qed

lemma hframe_lamport_fuel:
  fixes h :: "'c hashgraph_scheme"
  shows "lamport_fuel n x h = (r, h') \<Longrightarrow>
   hframe P Q h h' \<and> (\<forall>t. r = Ok t \<longrightarrow> hpre P Q h \<longrightarrow> lamport_of (dag h) x t)"
proof (induction n arbitrary: x h r h')
  case 0
  then show ?case by (auto simp: go_defs hf.frame_refl)
next
  case (Suc n)
  have keep: "keeps (hframe P Q) (lamport_fuel n x :: ('c, int) hg)" for x using Suc.IH by (intro keepsI) blast
  have "lamport_of (dag h) x t" if "lamportTimestamp_raw (lamport_fuel n) x h = (Ok t, h')" "hpre P Q h"
    for h h' :: "'c hashgraph_scheme" and t
    using Suc.IH by (intro lamport_raw_of [OF _ that]) blast
  then show ?case
    by (rule hframe_memo [OF memo_parts(3) keeps_hframe_lamport_raw [OF keep] _
          Suc.prems [unfolded lamport_fuel.simps]])
qed

lemma keeps_hframe_lamport_fuel: "keeps (hframe P Q) (lamport_fuel n x)"
  by (rule keepsI) (simp add: hframe_lamport_fuel)

lemma lamportTimestamp_of:
  assumes "lamportTimestamp x h = (Ok t, h')" and "hpre P Q h"
  shows "lamport_of (dag h) x t"
  using assms hframe_lamport_fuel unfolding lamportTimestamp_def by blast

lemma keeps_hframe_lamport [hframe_intro]: "keeps (hframe P Q) (lamportTimestamp x)"
  unfolding lamportTimestamp_def [abs_def] by (rule keeps_run) (rule keeps_hframe_lamport_fuel)

subsection \<open>Insertion, after the new event is stored\<close>

lemma keeps_hframe_SetEvent:
  "(\<And>d. Q d \<Longrightarrow> d (Hex P e) = Some (ev_static e)) \<Longrightarrow> keeps (hframe P Q) (onStore (SetEvent P e))"
  by (intro keeps_hframe_onStore keeps_sframe_SetEvent)

lemma keeps_hframe_keyed:
  assumes "x = Hex P e \<Longrightarrow> keeps (hframe P (\<lambda>d. Q d \<and> d x = Some (ev_static e))) m"
  shows "keeps (hframe P (\<lambda>d. Q d \<and> d x = Some (ev_static e))) m"
proof (cases "x = Hex P e")
  case False
  have "\<not> (good_store P s \<and> sdag s x = Some (ev_static e))" for s
    using False by (auto simp: good_store_def sdag_def) (metis ev_methods_static(1))
  then show ?thesis by (auto simp: keeps_def hframe_def hpre_def sframe_def dag_def)
qed (rule assms)

lemma keeps_hframe_walk_down: "keeps (hframe P Q) (walk_down P e n x :: ('c, unit) hg)"
proof (induction n arbitrary: Q x)
  case 0
  show ?case by (simp add: hf.keeps_lift)
next
  case (Suc n)
  have step: "keeps (hframe P (\<lambda>d. Q d \<and> d x = Some (ev_static a)))
     (bindG (onStore (SetEvent P (a\<lparr>ev_firstDescendants := fd\<rparr>)))
        (\<lambda>_. tryG (witness P x) (\<lambda>w. if w = Inr True then okG ()
           else bindG (liftO (SelfParent a)) (walk_down P e n))) :: ('c, unit) hg)" for a fd
  proof (rule keeps_hframe_keyed)
    assume x: "x = Hex P a"
    show "keeps (hframe P (\<lambda>d. Q d \<and> d x = Some (ev_static a)))
     (bindG (onStore (SetEvent P (a\<lparr>ev_firstDescendants := fd\<rparr>)))
        (\<lambda>_. tryG (witness P x) (\<lambda>w. if w = Inr True then okG ()
           else bindG (liftO (SelfParent a)) (walk_down P e n))) :: ('c, unit) hg)"
      by (intro hf.keeps_bind hf.keeps_try hf.keeps_lift hf.keeps_ok keeps_if hframe_intro
          keeps_hframe_SetEvent Suc.IH) (simp add: x)
  qed
  show ?case unfolding walk_down.simps
    by (rule keeps_hframe_try_GetEvent; simp only: sum.case)
      (intro keeps_option hf.keeps_ok step)+
qed

lemma keeps_hframe_updateAncestor: "keeps (hframe P Q) (updateAncestorFirstDescendant P e)"
  unfolding updateAncestorFirstDescendant_def
  by (rule hf.keeps_foldG, simp only: split_beta, rule keeps_run) (rule keeps_hframe_walk_down)

subsection \<open>Consensus\<close>

lemma keeps_hframe_poke_round [hframe_intro]: "keeps (hframe P Q) (poke_round r ri)"
  unfolding poke_round_def by (intro hf.keeps_modify hframe_store sframe_same) simp_all

lemma keeps_hframe_poke_event:
  assumes "\<And>d. Q d \<Longrightarrow> d x = Some (ev_static e)" and "x = Hex P e"
  shows "keeps (hframe P Q) (poke_event x e)"
  unfolding poke_event_def
  using assms by (intro hf.keeps_modify hframe_store sframe_poke) auto

lemma keeps_hframe_queue_round [hframe_intro]: "keeps (hframe P Q) (queue_round r ri)"
  unfolding queue_round_def by (rule keeps_hframe_modify) auto

lemma keeps_hframe_assign_round:
  assumes "\<And>d. Q d \<Longrightarrow> d x = Some (ev_static e)" and "x = Hex P e"
  shows "keeps (hframe P Q) (assign_round P' x e)"
proof -
  have "keeps (hframe P Q) (poke_event x (SetRound_ev r e))" for r
    using assms by (intro keeps_hframe_poke_event) simp_all
  then show ?thesis unfolding assign_round_def Let_def
    by (intro hf.keeps_basic keeps_if keeps_sum hframe_intro)
qed

lemma keeps_hframe_assign_timestamp:
  assumes "\<And>d. Q d \<Longrightarrow> d x = Some (ev_static e)" and "x = Hex P e"
  shows "keeps (hframe P Q) (assign_timestamp x e)"
proof -
  have "keeps (hframe P Q) (poke_event x (SetLamportTimestamp r e))" for r
    using assms by (intro keeps_hframe_poke_event) simp_all
  then show ?thesis unfolding assign_timestamp_def Let_def
    by (intro hf.keeps_basic hframe_intro)
qed

text \<open>The event that is passed on keeps its static part and its hash.\<close>

lemma assign_round_result:
  assumes "assign_round P x e h = (Ok e', h')"
  shows "ev_static e' = ev_static e \<and> Hex P' e' = Hex P' e"
  using assms by (auto simp: assign_round_def Let_def bindG_eq_Ok go_defs)

lemma assign_timestamp_result:
  assumes "assign_timestamp x e h = (Ok e', h')"
  shows "ev_static e' = ev_static e \<and> Hex P' e' = Hex P' e"
  using assms by (auto simp: assign_timestamp_def Let_def bindG_eq_Ok go_defs)

lemma keeps_hframe_divide_event [hframe_intro]: "keeps (hframe P Q) (divide_event P x)"
  unfolding divide_event_def
proof (rule keeps_hframe_bind_GetEvent, rule keeps_hframe_keyed)
  fix e
  let ?Q = "\<lambda>d. Q d \<and> d x = Some (ev_static e)"
  assume x: "x = Hex P e"
  have set: "keeps (hframe P ?Q) (if u then tryG (onStore (SetEvent P e')) (\<lambda>_. okG ()) else okG ())"
    if "ev_static e' = ev_static e" "Hex P e' = Hex P e" for e' u
    by (intro hf.keeps_basic keeps_if keeps_hframe_SetEvent) (simp add: that x)
  have stamp: "keeps (hframe P ?Q) (assign_timestamp x e')"
    if "ev_static e' = ev_static e" "Hex P e' = Hex P e" for e'
    by (intro keeps_hframe_assign_timestamp) (simp_all add: that x)
  have snd: "keeps (hframe P ?Q)
      (bindG (if ev_lamportTimestamp e' = None
              then bindG (assign_timestamp x e') (\<lambda>ev. okG (ev, True)) else okG (e', u))
         (\<lambda>(ev, u). if u then tryG (onStore (SetEvent P ev)) (\<lambda>_. okG ()) else okG ()))"
    if "ev_static e' = ev_static e" "Hex P e' = Hex P e" for e' u
  proof (rule hf.keeps_bind_res)
    show "keeps (hframe P ?Q) (if ev_lamportTimestamp e' = None
        then bindG (assign_timestamp x e') (\<lambda>ev. okG (ev, True)) else okG (e', u))"
      by (intro hf.keeps_basic keeps_if stamp that)
    fix r s s'
    assume "(if ev_lamportTimestamp e' = None
        then bindG (assign_timestamp x e') (\<lambda>ev. okG (ev, True)) else okG (e', u)) s = (Ok r, s')"
    then have "ev_static (fst r) = ev_static e \<and> Hex P (fst r) = Hex P e"
      using that by (auto simp: bindG_eq_Ok go_defs dest: assign_timestamp_result [where P' = P] split: if_splits)
    then show "keeps (hframe P ?Q) (case r of (ev, u) \<Rightarrow>
        if u then tryG (onStore (SetEvent P ev)) (\<lambda>_. okG ()) else okG ())"
      by (cases r) (simp only: prod.case fst_conv, rule set, simp_all)
  qed
  show "keeps (hframe P ?Q)
     (bindG (if ev_round e = None then bindG (assign_round P x e) (\<lambda>ev. okG (ev, True)) else okG (e, False))
       (\<lambda>(ev, updateEvent).
          bindG (if ev_lamportTimestamp ev = None
                 then bindG (assign_timestamp x ev) (\<lambda>ev. okG (ev, True)) else okG (ev, updateEvent))
            (\<lambda>(ev, updateEvent).
               if updateEvent then tryG (onStore (SetEvent P ev)) (\<lambda>_. okG ()) else okG ())))"
  proof (rule hf.keeps_bind_res)
    show "keeps (hframe P ?Q) (if ev_round e = None
        then bindG (assign_round P x e) (\<lambda>ev. okG (ev, True)) else okG (e, False))"
      by (intro hf.keeps_basic keeps_if keeps_hframe_assign_round) (simp_all add: x)
    fix r s s'
    assume "(if ev_round e = None
        then bindG (assign_round P x e) (\<lambda>ev. okG (ev, True)) else okG (e, False)) s = (Ok r, s')"
    then have "ev_static (fst r) = ev_static e \<and> Hex P (fst r) = Hex P e"
      by (auto simp: bindG_eq_Ok go_defs dest: assign_round_result [where P' = P] split: if_splits)
    then show "keeps (hframe P ?Q) (case r of (ev, updateEvent) \<Rightarrow>
          bindG (if ev_lamportTimestamp ev = None
                 then bindG (assign_timestamp x ev) (\<lambda>ev. okG (ev, True)) else okG (ev, updateEvent))
            (\<lambda>(ev, updateEvent).
               if updateEvent then tryG (onStore (SetEvent P ev)) (\<lambda>_. okG ()) else okG ()))"
      using snd [of "fst r" "snd r"] by (simp add: split_beta)
  qed
qed

lemma keeps_hframe_DivideRounds [hframe_intro]: "keeps (hframe P Q) (DivideRounds P)"
  unfolding DivideRounds_def by (intro hf.keeps_basic hframe_intro)

lemma keeps_hframe_vote [hframe_intro]: "keeps (hframe P Q) (vote P' i x j ps y acc)"
  unfolding vote_def stronglySeen_def Let_def
  by (intro hf.keeps_basic keeps_rules hframe_intro)

lemma keeps_hframe_DecideFame [hframe_intro]: "keeps (hframe P Q) (DecideFame P')"
proof -
  have "keeps (hframe P Q) (vote_round P' i x j acc)" for i x j acc
    unfolding vote_round_def by (intro hf.keeps_basic hframe_intro)
  then have "keeps (hframe P Q) (decide_witness P' i x acc)" for i x acc
    unfolding decide_witness_def by (intro hf.keeps_basic keeps_rules)
  then have "keeps (hframe P Q) (decide_round P' r acc)" for r acc
    unfolding decide_round_def Let_def by (intro hf.keeps_basic keeps_prod hframe_intro)
  then show ?thesis unfolding DecideFame_def
    by (intro hf.keeps_basic keeps_prod keeps_hframe_modify) simp_all
qed

lemma keeps_hframe_receive_in: "keeps (hframe P Q) (receive_in P x i b)"
proof -
  have recv: "keeps (hframe P Q)
    (bindG (onStore (GetEvent x)) (\<lambda>ex.
       bindG (onStore (SetEvent P (SetRoundReceived i ex))) (\<lambda>_.
       bindG (onStore (SetRound i tr)) (\<lambda>_. okG (Break True)))))" for tr
    by (rule keeps_hframe_bind_GetEvent, rule keeps_hframe_keyed)
      (intro hf.keeps_basic hframe_intro keeps_hframe_SetEvent, simp)
  show ?thesis unfolding receive_in_def famous_that_see_def Let_def
    by (intro recv hf.keeps_basic keeps_if keeps_sum keeps_prod hframe_intro)
qed

lemma keeps_hframe_DecideRoundReceived [hframe_intro]: "keeps (hframe P Q) (DecideRoundReceived P)"
  unfolding DecideRoundReceived_def receive_event_def
  by (intro hf.keeps_basic hframe_intro keeps_hframe_receive_in keeps_hframe_modify) simp_all

subsection \<open>Frames and blocks\<close>

lemma keeps_hframe_wrap [hframe_intro]: "keeps (hframe P Q) m \<Longrightarrow> keeps (hframe P Q) (wrapG msg m)"
  unfolding wrapG_def by (intro hf.keeps_basic keeps_sum)

lemma keeps_hframe_createFrameEvent [hframe_intro]: "keeps (hframe P Q) (createFrameEvent P' x)"
  unfolding createFrameEvent_def by (intro hf.keeps_basic keeps_rules hframe_intro)

lemma keeps_hframe_createRoot [hframe_intro]: "keeps (hframe P Q) (createRoot P' c x)"
  unfolding createRoot_def Let_def by (intro hf.keeps_basic keeps_rules hframe_intro)

lemma keeps_hframe_GetFrame [hframe_intro]: "keeps (hframe P Q) (hg_GetFrame P' rr)"
proof -
  have "keeps (hframe P Q) (frame_events P' xs)" for xs
    unfolding frame_events_def by (intro hf.keeps_basic hframe_intro)
  moreover have "keeps (hframe P Q) (roots_of_events P' es)" for es
    unfolding roots_of_events_def Let_def by (intro hf.keeps_basic keeps_rules hframe_intro)
  moreover have "keeps (hframe P Q) (roots_of_others P' rr rs)" for rs
    unfolding roots_of_others_def by (intro hf.keeps_basic keeps_rules hframe_intro)
  moreover have "keeps (hframe P Q) (witness_timestamps ws)" for ws
    unfolding witness_timestamps_def by (intro hf.keeps_basic hframe_intro)
  ultimately show ?thesis unfolding hg_GetFrame_def Let_def
    by (intro hf.keeps_basic keeps_sum keeps_if hframe_intro)
qed

lemma keeps_hframe_process_round:
  assumes "\<And>b. keeps (hframe P Q) (cb b)"
  shows "keeps (hframe P Q) (process_round P' cb i)"
  unfolding process_round_def commit_events_def commit_block_def setLastConsensusRound_def Let_def
  by (intro hf.keeps_basic keeps_if hframe_intro assms keeps_hframe_modify) simp_all

lemma process_rounds_hframe:
  assumes "\<And>b. keeps (hframe P Q) (cb b)" and "process_rounds P' cb rs ps h = (r, ps', h')"
  shows "hframe P Q h h'"
  using assms(2)
proof (induction rs arbitrary: ps h)
  case Nil
  then show ?case by (simp add: hf.frame_refl)
next
  case (Cons p rs)
  obtain r1 h1 where r1: "process_round P' cb (pr_Index p) h = (r1, h1)" by fastforce
  have h1: "hframe P Q h h1" by (rule keepsD [OF keeps_hframe_process_round [OF assms(1)] r1])
  show ?case
  proof (cases "pr_Decided p \<and> (\<exists>a. r1 = Ok a)")
    case True
    then have "process_rounds P' cb rs (ps @ [pr_Index p]) h1 = (r, ps', h')"
      using Cons.prems r1 by auto
    then have "hframe P Q h1 h'" by (rule Cons.IH)
    with h1 show ?thesis by (rule hf.frame_trans)
  next
    case False
    then have "h' = h \<or> h' = h1" using Cons.prems r1 by (cases r1) (auto split: if_splits)
    then show ?thesis using h1 by (auto simp: hf.frame_refl)
  qed
qed

lemma keeps_hframe_ProcessDecidedRounds:
  assumes "\<And>b. keeps (hframe P Q) (cb b)"
  shows "keeps (hframe P Q) (ProcessDecidedRounds P' cb)"
proof (rule keepsI)
  fix h r h'
  assume run: "ProcessDecidedRounds P' cb h = (r, h')"
  obtain r1 ps h1 where r1: "process_rounds P' cb (GetOrderedPendingRounds (h_PendingRounds h)) [] h = (r1, ps, h1)"
    using prod_cases3 by blast
  have "hframe P Q h h1" using assms r1 by (rule process_rounds_hframe)
  moreover have "hframe P Q h1 h'"
    using run r1 by (intro hframe_same) (auto simp: ProcessDecidedRounds_def)
  ultimately show "hframe P Q h h'" by (rule hf.frame_trans)
qed

lemma keeps_hframe_SetAnchorBlock [hframe_intro]: "keeps (hframe P Q) (SetAnchorBlock b)"
  unfolding SetAnchorBlock_def setAnchorBlock_def
  by (intro hf.keeps_basic keeps_if hframe_intro keeps_hframe_modify) simp_all

lemma keeps_hframe_ProcessSigPool [hframe_intro]: "keeps (hframe P Q) (ProcessSigPool P')"
proof -
  have "keeps (hframe P Q) (process_sig P' bs)" for bs
    unfolding process_sig_def Let_def
    by (intro hf.keeps_basic keeps_if keeps_sum hframe_intro keeps_hframe_modify) simp_all
  then show ?thesis unfolding ProcessSigPool_def by (intro hf.keeps_basic)
qed

end
