(* ===== verification/Dag.thy ===== *)
theory Dag
  imports Hashgraph_Frame
begin

text \<open>
  The graph of events. \<open>reaches\<close> is the reflexive and transitive closure of the two parent
  references, the mathematical meaning of \<open>ancestor\<close>. \<open>dag_wf\<close> is the invariant that the
  insertion of events maintains: parents are present, the events of a creator form one chain with
  consecutive indexes, and the last ancestors of an event are, for each creator, the highest of its
  events that it reaches.

  \<open>InsertEvent\<close> does not check the index of an event against the index of its self-parent;
  \<open>indexed\<close> is that property, and the events for which it fails are outside of the statements
  here.
\<close>

section \<open>Reachability\<close>

inductive reaches :: "(string \<Rightarrow> Event option) \<Rightarrow> string \<Rightarrow> string \<Rightarrow> bool" for d where
  itself: "reaches d x x"
| via_self: "d x = Some e \<Longrightarrow> SelfParent e = Ok p \<Longrightarrow> p \<noteq> '''' \<Longrightarrow> reaches d p y \<Longrightarrow> reaches d x y"
| via_other: "d x = Some e \<Longrightarrow> OtherParent e = Ok p \<Longrightarrow> p \<noteq> '''' \<Longrightarrow> reaches d p y \<Longrightarrow> reaches d x y"

lemma reaches_trans: "reaches d x y \<Longrightarrow> reaches d y z \<Longrightarrow> reaches d x z"
  by (induction rule: reaches.induct) (auto intro: reaches.intros)

section \<open>The invariant\<close>

text \<open>What is required of an event next to its parents.\<close>

definition indexed :: "(string \<Rightarrow> Event option) \<Rightarrow> Event \<Rightarrow> bool" where
  "indexed d e \<longleftrightarrow>
     (case SelfParent e of
        Ok sp \<Rightarrow>
          if sp = '''' then ev_Index e = 0
          else (case d sp of Some es \<Rightarrow> ev_Index e = ev_Index es + 1 | None \<Rightarrow> False)
      | _ \<Rightarrow> False)"

definition parents_ok :: "(string \<Rightarrow> Event option) \<Rightarrow> Event \<Rightarrow> bool" where
  "parents_ok d e \<longleftrightarrow>
     (\<exists>sp op. SelfParent e = Ok sp \<and> OtherParent e = Ok op \<and>
        (sp \<noteq> '''' \<longrightarrow> (\<exists>es. d sp = Some es \<and> Creator es = Creator e)) \<and>
        (op \<noteq> '''' \<longrightarrow> d op \<noteq> None))"

definition coord_ok ::
  "(string \<Rightarrow> Event option) \<Rightarrow> string \<Rightarrow> string \<Rightarrow> EventCoordinates option \<Rightarrow> bool" where
  "coord_ok d x p c \<longleftrightarrow>
     (case c of
        None \<Rightarrow> \<forall>y f. reaches d x y \<longrightarrow> d y = Some f \<longrightarrow> Creator f \<noteq> p
      | Some c \<Rightarrow>
          (\<exists>f. d (ec_Hash c) = Some f \<and> Creator f = p \<and> ev_Index f = ec_Index c) \<and>
          reaches d x (ec_Hash c) \<and>
          (\<forall>y f. reaches d x y \<longrightarrow> d y = Some f \<longrightarrow> Creator f = p \<longrightarrow> ev_Index f \<le> ec_Index c))"


definition dag_wf :: "(string \<Rightarrow> Event option) \<Rightarrow> (string \<Rightarrow> (string \<times> int) option) \<Rightarrow> bool" where
  "dag_wf d ch \<longleftrightarrow>
     d '''' = None \<and>
     (\<forall>x e. d x = Some e \<longrightarrow>
        parents_ok d e \<and> indexed d e \<and> 0 \<le> ev_Index e \<and>
        distinct (map fst (ev_lastAncestors e)) \<and>
        (\<forall>p. coord_ok d x p (map_of (ev_lastAncestors e) p)) \<and>
        (\<exists>l i. ch (Creator e) = Some (l, i) \<and> ev_Index e \<le> i)) \<and>
     (\<forall>x y e f. d x = Some e \<longrightarrow> d y = Some f \<longrightarrow> Creator e = Creator f \<longrightarrow>
        ev_Index e = ev_Index f \<longrightarrow> x = y) \<and>
     (\<forall>c l i. ToUpper c = c \<longrightarrow> ch c = Some (l, i) \<longrightarrow>
        (\<exists>f. d l = Some f \<and> Creator f = c \<and> ev_Index f = i))"

lemma dag_wfD:
  assumes "dag_wf d ch"
  shows "d '''' = None"
    and "d x = Some e \<Longrightarrow> parents_ok d e"
    and "d x = Some e \<Longrightarrow> indexed d e"
    and "d x = Some e \<Longrightarrow> 0 \<le> ev_Index e"
    and "d x = Some e \<Longrightarrow> distinct (map fst (ev_lastAncestors e))"
    and "d x = Some e \<Longrightarrow> coord_ok d x p (map_of (ev_lastAncestors e) p)"
    and "d x = Some e \<Longrightarrow> \<exists>l i. ch (Creator e) = Some (l, i) \<and> ev_Index e \<le> i"
    and "d x = Some e \<Longrightarrow> d y = Some f \<Longrightarrow> Creator e = Creator f \<Longrightarrow> ev_Index e = ev_Index f \<Longrightarrow> x = y"
    and "ToUpper c = c \<Longrightarrow> ch c = Some (l, i) \<Longrightarrow> \<exists>f. d l = Some f \<and> Creator f = c \<and> ev_Index f = i"
  using assms unfolding dag_wf_def by blast+

lemma dag_wf_empty: "dag_wf (\<lambda>_. None) (\<lambda>_. None)"
  by (simp add: dag_wf_def)

lemma ToUpper_Creator [simp]: "ToUpper (Creator e) = Creator e"
  by (simp add: Creator_def)

lemma reaches_dom:
  assumes "reaches d x y" and "dag_wf d ch" and "d x \<noteq> None"
  shows "d y \<noteq> None"
  using assms
proof (induction rule: reaches.induct)
  case (via_self x e p y)
  then show ?case using dag_wfD(2) [of d ch x e] by (auto simp: parents_ok_def)
next
  case (via_other x e p y)
  then show ?case using dag_wfD(2) [of d ch x e] by (auto simp: parents_ok_def)
qed simp

section \<open>The coordinates decide reachability\<close>

text \<open>Down the chain of self-parents every lower index occurs.\<close>

lemma chain_down:
  assumes wf: "dag_wf d ch" and "d z = Some f" and "0 \<le> i" and "i \<le> ev_Index f"
  shows "\<exists>y g. d y = Some g \<and> Creator g = Creator f \<and> ev_Index g = i \<and> reaches d z y"
  using assms(2-)
proof (induction "nat (ev_Index f - i)" arbitrary: z f)
  case 0
  then have "ev_Index f = i" by simp
  then show ?case using 0 by (intro exI [of _ z] exI [of _ f]) (simp add: itself)
next
  case (Suc n)
  have lt: "i < ev_Index f" using Suc.hyps(2) by linarith
  obtain sp where sp: "SelfParent f = Ok sp"
      "sp \<noteq> '''' \<longrightarrow> (\<exists>es. d sp = Some es \<and> Creator es = Creator f)"
    using dag_wfD(2) [OF wf Suc.prems(1)] by (auto simp: parents_ok_def)
  have ix: "indexed d f" using wf Suc.prems(1) by (rule dag_wfD(3))
  have ne: "sp \<noteq> ''''" using ix sp(1) lt Suc.prems(2) by (auto simp: indexed_def)
  obtain es where es: "d sp = Some es" "Creator es = Creator f" using sp(2) ne by blast
  have "ev_Index f = ev_Index es + 1" using ix sp(1) ne es(1) by (simp add: indexed_def)
  then have "n = nat (ev_Index es - i)" "i \<le> ev_Index es" using Suc.hyps(2) lt by linarith+
  then obtain y g where y: "d y = Some g" "Creator g = Creator es" "ev_Index g = i" "reaches d sp y"
    using Suc.hyps(1) [OF _ es(1) Suc.prems(2)] by blast
  have "reaches d z y" by (rule via_self [OF Suc.prems(1) sp(1) ne y(4)])
  then show ?case using y es(2) by auto
qed

lemma anc_fun_reaches:
  assumes wf: "dag_wf d ch" and x: "d x = Some ex" and y: "d y = Some ey"
  shows "anc_fun d x y = Some (reaches d x y)"
proof (cases "x = y")
  case True
  then show ?thesis by (simp add: anc_fun_def itself)
next
  case False
  let ?p = "Creator ey"
  have ok: "coord_ok d x ?p (map_of (ev_lastAncestors ex) ?p)" using wf x by (rule dag_wfD(6))
  show ?thesis
  proof (cases "map_of (ev_lastAncestors ex) ?p")
    case None
    then have "\<not> reaches d x y" using ok y by (auto simp: coord_ok_def)
    then show ?thesis using False x y None by (simp add: anc_fun_def)
  next
    case (Some c)
    have "ec_Index c \<ge> ev_Index ey \<longleftrightarrow> reaches d x y"
    proof
      assume ge: "ec_Index c \<ge> ev_Index ey"
      obtain f where f: "d (ec_Hash c) = Some f" "Creator f = ?p" "ev_Index f = ec_Index c"
        and r: "reaches d x (ec_Hash c)" using ok Some by (auto simp: coord_ok_def)
      obtain z g where z: "d z = Some g" "Creator g = ?p" "ev_Index g = ev_Index ey"
          "reaches d (ec_Hash c) z"
        using chain_down [OF wf f(1) dag_wfD(4) [OF wf y]] ge f by auto
      then have "z = y" using dag_wfD(8) [OF wf z(1) y] by simp
      then show "reaches d x y" using r z(4) reaches_trans by blast
    next
      assume "reaches d x y"
      then show "ec_Index c \<ge> ev_Index ey" using ok Some y by (auto simp: coord_ok_def)
    qed
    then show ?thesis using False x y Some by (simp add: anc_fun_def)
  qed
qed

section \<open>Adding an event\<close>

lemma foldl_merge:
  assumes "distinct (map fst ola)"
  shows "map_of (merge_ancestors sla ola) p =
    (case (map_of sla p, map_of ola p) of
       (None, r) \<Rightarrow> r
     | (l, None) \<Rightarrow> l
     | (Some a, Some c) \<Rightarrow> Some (if ec_Index a < ec_Index c then c else a))"
  using assms unfolding merge_ancestors_def
proof (induction ola arbitrary: sla)
  case Nil
  then show ?case by (simp split: option.split)
next
  case (Cons b ola)
  obtain q c where b: "b = (q, c)" by (cases b)
  have "map_of ola q = None" using Cons.prems b by (simp add: map_of_eq_None_iff)
  then show ?case using Cons b by (auto split: option.split)
qed

lemma distinct_merge: "distinct (map fst sla) \<Longrightarrow> distinct (map fst (merge_ancestors sla ola))"
  unfolding merge_ancestors_def
  by (induction ola arbitrary: sla) (auto simp: distinct_update split: option.split)

text \<open>The last ancestors a new event takes from its parents.\<close>

definition parent_ancestors :: "(string \<Rightarrow> Event option) \<Rightarrow> string \<Rightarrow> string \<Rightarrow> CoordinatesMap" where
  "parent_ancestors d sp op =
     (case (d sp, d op) of
        (None, Some f) \<Rightarrow> ev_lastAncestors f
      | (Some e, None) \<Rightarrow> ev_lastAncestors e
      | (Some e, Some f) \<Rightarrow> merge_ancestors (ev_lastAncestors e) (ev_lastAncestors f)
      | (None, None) \<Rightarrow> [])"

lemma reaches_extend:
  assumes "dag_wf d ch" and "d x0 = None" and "d x \<noteq> None"
  shows "reaches (d(x0 \<mapsto> e0)) x y \<longleftrightarrow> reaches d x y"
proof
  assume "reaches (d(x0 \<mapsto> e0)) x y"
  then show "reaches d x y" using assms(3)
  proof (induction rule: reaches.induct)
    case (itself x)
    show ?case by (rule reaches.itself)
  next
    case (via_self x e p y)
    then have x: "d x = Some e" using assms(2) by (auto split: if_splits)
    then have "d p \<noteq> None" using dag_wfD(2) [OF assms(1) x] via_self by (auto simp: parents_ok_def)
    then show ?case using x via_self by (blast intro: reaches.via_self)
  next
    case (via_other x e p y)
    then have x: "d x = Some e" using assms(2) by (auto split: if_splits)
    then have "d p \<noteq> None" using dag_wfD(2) [OF assms(1) x] via_other by (auto simp: parents_ok_def)
    then show ?case using x via_other by (blast intro: reaches.via_other)
  qed
next
  assume "reaches d x y"
  then show "reaches (d(x0 \<mapsto> e0)) x y"
  proof (induction rule: reaches.induct)
    case (itself x)
    show ?case by (rule reaches.itself)
  next
    case (via_self x e p y)
    then have "(d(x0 \<mapsto> e0)) x = Some e" using assms(2) by auto
    then show ?case using via_self by (blast intro: reaches.via_self)
  next
    case (via_other x e p y)
    then have "(d(x0 \<mapsto> e0)) x = Some e" using assms(2) by auto
    then show ?case using via_other by (blast intro: reaches.via_other)
  qed
qed

lemma reaches_new:
  assumes wf: "dag_wf d ch" and fresh: "d x0 = None"
    and sp: "SelfParent e0 = Ok sp" and op: "OtherParent e0 = Ok op"
    and par: "sp \<noteq> '''' \<longrightarrow> d sp \<noteq> None" "op \<noteq> '''' \<longrightarrow> d op \<noteq> None"
  shows "reaches (d(x0 \<mapsto> e0)) x0 y \<longleftrightarrow>
    y = x0 \<or> (sp \<noteq> '''' \<and> reaches d sp y) \<or> (op \<noteq> '''' \<and> reaches d op y)"
proof
  let ?d = "d(x0 \<mapsto> e0)"
  assume "reaches ?d x0 y"
  then show "y = x0 \<or> (sp \<noteq> '''' \<and> reaches d sp y) \<or> (op \<noteq> '''' \<and> reaches d op y)"
  proof (cases rule: reaches.cases)
    case itself
    then show ?thesis by simp
  next
    case (via_self e p)
    then have "p = sp" using sp by simp
    then show ?thesis using via_self par reaches_extend [OF wf fresh, of sp] by simp
  next
    case (via_other e p)
    then have "p = op" using op by simp
    then show ?thesis using via_other par reaches_extend [OF wf fresh, of op] by simp
  qed
next
  let ?d = "d(x0 \<mapsto> e0)"
  have x0: "?d x0 = Some e0" by simp
  assume "y = x0 \<or> (sp \<noteq> '''' \<and> reaches d sp y) \<or> (op \<noteq> '''' \<and> reaches d op y)"
  then consider "y = x0" | "sp \<noteq> ''''" "reaches ?d sp y" | "op \<noteq> ''''" "reaches ?d op y"
    using par reaches_extend [OF wf fresh] by blast
  then show "reaches ?d x0 y"
  proof cases
    case 1
    then show ?thesis by (simp add: reaches.itself)
  next
    case 2
    show ?thesis by (rule reaches.via_self [where d = ?d, OF x0 sp 2])
  next
    case 3
    show ?thesis by (rule reaches.via_other [where d = ?d, OF x0 op 3])
  qed
qed

text \<open>A coordinate that is right for a set of events.\<close>

definition coord_set ::
  "(string \<Rightarrow> Event option) \<Rightarrow> (string \<Rightarrow> bool) \<Rightarrow> string \<Rightarrow> EventCoordinates option \<Rightarrow> bool" where
  "coord_set d R p c \<longleftrightarrow>
     (case c of
        None \<Rightarrow> \<forall>y f. R y \<longrightarrow> d y = Some f \<longrightarrow> Creator f \<noteq> p
      | Some c \<Rightarrow>
          (\<exists>f. d (ec_Hash c) = Some f \<and> Creator f = p \<and> ev_Index f = ec_Index c) \<and> R (ec_Hash c) \<and>
          (\<forall>y f. R y \<longrightarrow> d y = Some f \<longrightarrow> Creator f = p \<longrightarrow> ev_Index f \<le> ec_Index c))"

lemma coord_ok_set: "coord_ok d x p c \<longleftrightarrow> coord_set d (reaches d x) p c"
  by (simp add: coord_ok_def coord_set_def)

lemma coord_set_union:
  assumes "coord_set d R p l" and "coord_set d S p r"
  shows "coord_set d (\<lambda>y. R y \<or> S y) p
    (case (l, r) of (None, r) \<Rightarrow> r | (l, None) \<Rightarrow> l
     | (Some a, Some c) \<Rightarrow> Some (if ec_Index a < ec_Index c then c else a))"
  using assms by (cases l; cases r) (fastforce simp: coord_set_def)+

lemma coord_set_parents:
  assumes wf: "dag_wf d ch" and par: "sp \<noteq> '''' \<longrightarrow> d sp \<noteq> None" "op \<noteq> '''' \<longrightarrow> d op \<noteq> None"
  shows "coord_set d (\<lambda>y. (sp \<noteq> '''' \<and> reaches d sp y) \<or> (op \<noteq> '''' \<and> reaches d op y)) p
    (map_of (parent_ancestors d sp op) p)"
proof -
  have empty: "d '''' = None" using wf by (rule dag_wfD(1))
  have one: "coord_set d (\<lambda>y. q \<noteq> '''' \<and> reaches d q y) p
      (case d q of None \<Rightarrow> None | Some e \<Rightarrow> map_of (ev_lastAncestors e) p)"
    if "q \<noteq> '''' \<longrightarrow> d q \<noteq> None" for q
  proof (cases "d q")
    case None
    then show ?thesis using that by (simp add: coord_set_def)
  next
    case (Some e)
    then have "q \<noteq> ''''" using empty by auto
    then show ?thesis using dag_wfD(6) [OF wf Some, of p] Some by (simp add: coord_ok_set)
  qed
  have merge: "map_of (parent_ancestors d sp op) p =
     (case (case d sp of None \<Rightarrow> None | Some e \<Rightarrow> map_of (ev_lastAncestors e) p,
            case d op of None \<Rightarrow> None | Some e \<Rightarrow> map_of (ev_lastAncestors e) p) of
        (None, r) \<Rightarrow> r | (l, None) \<Rightarrow> l
      | (Some a, Some c) \<Rightarrow> Some (if ec_Index a < ec_Index c then c else a))"
    using dag_wfD(5) [OF wf]
    by (auto simp: parent_ancestors_def foldl_merge split: option.split)
  show ?thesis unfolding merge using one [OF par(1)] one [OF par(2)] by (rule coord_set_union)
qed

lemma coord_ok_extend:
  assumes wf: "dag_wf d ch" and fresh: "d x0 = None" and x: "d x \<noteq> None" and ok: "coord_ok d x p c"
  shows "coord_ok (d(x0 \<mapsto> e0)) x p c"
proof -
  have dom: "y \<noteq> x0" if "reaches d x y" for y
    using reaches_dom [OF that wf x] fresh by auto
  then show ?thesis
    using ok unfolding coord_ok_def reaches_extend [OF wf fresh x]
    by (cases c) (auto split: if_splits)
qed

lemma parents_ok_extend: "parents_ok d e \<Longrightarrow> d x0 = None \<Longrightarrow> parents_ok (d(x0 \<mapsto> e0)) e"
  unfolding parents_ok_def by (metis fun_upd_apply option.distinct(1))

lemma indexed_extend: "indexed d e \<Longrightarrow> d x0 = None \<Longrightarrow> indexed (d(x0 \<mapsto> e0)) e"
  by (auto simp: indexed_def split: outcome.splits if_splits option.splits)

lemma indexed_nonneg: "dag_wf d ch \<Longrightarrow> indexed d e \<Longrightarrow> 0 \<le> ev_Index e"
  using dag_wfD(4) by (fastforce simp: indexed_def split: outcome.splits if_splits option.splits)

text \<open>The new event is above all events of its creator.\<close>

lemma creator_below:
  assumes wf: "dag_wf d ch" and ix: "indexed d e0" and sp: "SelfParent e0 = Ok sp"
    and self: "if sp = '''' then ch (Creator e0) = None else \<exists>i. ch (Creator e0) = Some (sp, i)"
    and f: "d y = Some f" "Creator f = Creator e0"
  shows "ev_Index f < ev_Index e0"
proof -
  obtain l i where l: "ch (Creator e0) = Some (l, i)" "ev_Index f \<le> i"
    using dag_wfD(7) [OF wf f(1)] f(2) by auto
  then have ne: "sp \<noteq> ''''" and "l = sp" using self by (auto split: if_splits)
  then obtain es where "d sp = Some es" "ev_Index es = i"
    using dag_wfD(9) [OF wf, of "Creator e0" l i] l by auto
  then have "ev_Index e0 = i + 1" using ix sp ne by (simp add: indexed_def)
  then show ?thesis using l(2) by simp
qed

lemma coord_ok_new:
  assumes wf: "dag_wf d ch" and fresh: "d x0 = None" and ix: "indexed d e0"
    and sp: "SelfParent e0 = Ok sp" and op: "OtherParent e0 = Ok op"
    and par: "sp \<noteq> '''' \<longrightarrow> d sp \<noteq> None" "op \<noteq> '''' \<longrightarrow> d op \<noteq> None"
    and self: "if sp = '''' then ch (Creator e0) = None else \<exists>i. ch (Creator e0) = Some (sp, i)"
    and la: "ev_lastAncestors e0 =
      AList.update (Creator e0) \<lparr>ec_Hash = x0, ec_Index = ev_Index e0\<rparr> (parent_ancestors d sp op)"
  shows "coord_ok (d(x0 \<mapsto> e0)) x0 p (map_of (ev_lastAncestors e0) p)"
proof -
  let ?d = "d(x0 \<mapsto> e0)"
  let ?R = "\<lambda>y. (sp \<noteq> '''' \<and> reaches d sp y) \<or> (op \<noteq> '''' \<and> reaches d op y)"
  have R: "reaches ?d x0 y \<longleftrightarrow> y = x0 \<or> ?R y" for y
    using wf fresh sp op par by (rule reaches_new)
  show ?thesis
  proof (cases "p = Creator e0")
    case True
    have "ev_Index f \<le> ev_Index e0" if "?d y = Some f" "Creator f = Creator e0" for y f
      using that creator_below [OF wf ix sp self, of y f] by (auto split: if_splits)
    then show ?thesis using True by (simp add: la coord_ok_def reaches.itself)
  next
    case False
    have "coord_set d ?R p (map_of (parent_ancestors d sp op) p)"
      using wf par by (rule coord_set_parents)
    moreover have "map_of (ev_lastAncestors e0) p = map_of (parent_ancestors d sp op) p"
      using False by (simp add: la)
    ultimately show ?thesis using False fresh unfolding coord_ok_set coord_set_def R
      by (auto split: option.splits)
  qed
qed

lemma distinct_parent_ancestors:
  assumes "dag_wf d ch"
  shows "distinct (map fst (parent_ancestors d sp op))"
  using dag_wfD(5) [OF assms] by (auto simp: parent_ancestors_def distinct_merge split: option.split)

lemma dag_wf_insert:
  assumes wf: "dag_wf d ch" and fresh: "d x0 = None" and x0: "x0 \<noteq> ''''"
    and par: "parents_ok d e0" and ix: "indexed d e0"
    and sp: "SelfParent e0 = Ok sp" and op: "OtherParent e0 = Ok op"
    and self: "if sp = '''' then ch (Creator e0) = None else \<exists>i. ch (Creator e0) = Some (sp, i)"
    and la: "ev_lastAncestors e0 =
      AList.update (Creator e0) \<lparr>ec_Hash = x0, ec_Index = ev_Index e0\<rparr> (parent_ancestors d sp op)"
    and ch: "\<And>c. ToUpper c = c \<Longrightarrow> ch' c = (if c = Creator e0 then Some (x0, ev_Index e0) else ch c)"
  shows "dag_wf (d(x0 \<mapsto> e0)) ch'"
  unfolding dag_wf_def
proof (intro conjI allI impI)
  let ?d = "d(x0 \<mapsto> e0)"
  have below: "ev_Index f < ev_Index e0" if "d y = Some f" "Creator f = Creator e0" for y f
    using wf ix sp self that by (rule creator_below)
  show "?d '''' = None" using x0 dag_wfD(1) [OF wf] by simp
  fix x e
  assume x: "?d x = Some e"
  then consider (new) "x = x0" "e = e0" | (old) "x \<noteq> x0" "d x = Some e" by (auto split: if_splits)
  note xcases = this
  show "parents_ok ?d e"
    using xcases par dag_wfD(2) [OF wf] parents_ok_extend [of d e x0 e0] fresh by cases auto
  show "indexed ?d e"
    using xcases ix dag_wfD(3) [OF wf] indexed_extend [of d e x0 e0] fresh by cases auto
  show "0 \<le> ev_Index e"
    using xcases indexed_nonneg [OF wf ix] dag_wfD(4) [OF wf] by cases auto
  show "distinct (map fst (ev_lastAncestors e))"
    using xcases la distinct_parent_ancestors [OF wf] dag_wfD(5) [OF wf]
    by cases (simp_all add: distinct_update)
  show "coord_ok ?d x p (map_of (ev_lastAncestors e) p)" for p
    using xcases
  proof cases
    case new
    have "sp \<noteq> '''' \<longrightarrow> d sp \<noteq> None" "op \<noteq> '''' \<longrightarrow> d op \<noteq> None"
      using par sp op by (auto simp: parents_ok_def)
    then show ?thesis unfolding new by (intro coord_ok_new [OF wf fresh ix sp op _ _ self la])
  next
    case old
    then show ?thesis using dag_wfD(6) [OF wf] by (intro coord_ok_extend [OF wf fresh]) auto
  qed
  have che: "ch' (Creator e) = (if Creator e = Creator e0 then Some (x0, ev_Index e0) else ch (Creator e))"
    by (rule ch) simp
  show "\<exists>l i. ch' (Creator e) = Some (l, i) \<and> ev_Index e \<le> i"
  proof (cases "Creator e = Creator e0")
    case True
    have "ev_Index e \<le> ev_Index e0" using xcases
    proof cases
      case old
      then show ?thesis using below [of x e] True by simp
    qed simp
    then show ?thesis using True che by simp
  next
    case False
    then have "d x = Some e" using xcases by cases auto
    then show ?thesis using dag_wfD(7) [OF wf, of x e] che False by simp
  qed
  fix y f
  assume y: "?d y = Some f" and same: "Creator e = Creator f" "ev_Index e = ev_Index f"
  from y consider (ynew) "y = x0" "f = e0" | (yold) "y \<noteq> x0" "d y = Some f" by (auto split: if_splits)
  note ycases = this
  show "x = y" using xcases
  proof cases
    case new
    then show ?thesis using ycases below [of y f] same by auto
  next
    case old
    then show ?thesis using ycases below [of x e] dag_wfD(8) [OF wf, of x e y f] same by auto
  qed
next
  let ?d = "d(x0 \<mapsto> e0)"
  fix c l i
  assume "ToUpper c = c" "ch' c = Some (l, i)"
  then show "\<exists>f. ?d l = Some f \<and> Creator f = c \<and> ev_Index f = i"
    using ch [of c] dag_wfD(9) [OF wf, of c l i] fresh by (auto split: if_splits)
qed

section \<open>No cycles\<close>

text \<open>An event is not reached from its parents.\<close>

definition parent_of :: "Event \<Rightarrow> string \<Rightarrow> bool" where
  "parent_of e p \<longleftrightarrow> p \<noteq> '''' \<and> (SelfParent e = Ok p \<or> OtherParent e = Ok p)"

definition dag_acyclic :: "(string \<Rightarrow> Event option) \<Rightarrow> bool" where
  "dag_acyclic d \<longleftrightarrow> (\<forall>x e p. d x = Some e \<longrightarrow> parent_of e p \<longrightarrow> \<not> reaches d p x)"

lemma parent_of_static [simp]: "parent_of (ev_static e) = parent_of e"
  by (simp add: parent_of_def fun_eq_iff)

lemma reaches_parent: "d x = Some e \<Longrightarrow> parent_of e p \<Longrightarrow> reaches d p y \<Longrightarrow> reaches d x y"
  by (auto simp: parent_of_def intro: reaches.via_self reaches.via_other)

lemma parent_present:
  assumes "parents_ok d e" and "parent_of e p"
  shows "d p \<noteq> None"
  using assms by (auto simp: parents_ok_def parent_of_def)

lemma dag_acyclic_insert:
  assumes wf: "dag_wf d ch" and fresh: "d x0 = None" and par: "parents_ok d e0" and ac: "dag_acyclic d"
  shows "dag_acyclic (d(x0 \<mapsto> e0))"
  unfolding dag_acyclic_def
proof (intro allI impI)
  fix x e p
  assume x: "(d(x0 \<mapsto> e0)) x = Some e" and p: "parent_of e p"
  show "\<not> reaches (d(x0 \<mapsto> e0)) p x"
  proof (cases "x = x0")
    case True
    then have dp: "d p \<noteq> None" using parent_present [OF par] p x by simp
    then have "\<not> reaches d p x0" using reaches_dom [OF _ wf] fresh by blast
    then show ?thesis using True reaches_extend [OF wf fresh dp] by simp
  next
    case False
    then have dx: "d x = Some e" using x by simp
    then have "d p \<noteq> None" using parent_present [OF dag_wfD(2) [OF wf dx] p] by simp
    then show ?thesis using ac dx p reaches_extend [OF wf fresh] by (simp add: dag_acyclic_def)
  qed
qed

text \<open>The number of ancestors of an event, itself included, shrinks towards the parents.\<close>

definition anc_count :: "(string \<Rightarrow> Event option) \<Rightarrow> string \<Rightarrow> nat" where
  "anc_count d x = card {y \<in> dom d. reaches d x y}"

lemma anc_count_parent:
  assumes fin: "finite (dom d)" and ac: "dag_acyclic d" and x: "d x = Some e" and p: "parent_of e p"
  shows "anc_count d p < anc_count d x"
  unfolding anc_count_def
proof (rule psubset_card_mono)
  show "finite {y \<in> dom d. reaches d x y}" using fin by simp
  have "\<not> reaches d p x" using ac x p by (simp add: dag_acyclic_def)
  then show "{y \<in> dom d. reaches d p y} \<subset> {y \<in> dom d. reaches d x y}"
    using x p reaches_parent [of d x e p] reaches.itself by blast
qed

lemma anc_count_le: "finite (dom d) \<Longrightarrow> anc_count d x \<le> card (dom d)"
  unfolding anc_count_def by (rule card_mono) auto

section \<open>Lamport timestamps\<close>

lemma lamport_of_extend:
  assumes "lamport_of d x t" and "dag_wf d ch" and "d x0 = None"
  shows "lamport_of (d(x0 \<mapsto> e0)) x t"
  using assms(1)
proof (induction rule: lamport_of.induct)
  case (lamportI x e sp op s t)
  have par: "parents_ok d e" using assms(2) lamportI(1) by (rule dag_wfD(2))
  then have op: "op \<noteq> '''' \<Longrightarrow> d op \<noteq> None" using lamportI(3) by (auto simp: parents_ok_def)
  show ?case
    by (rule lamport_of.lamportI [of _ x e sp op]) (use lamportI assms(3) op in \<open>auto split: if_splits\<close>)
qed

lemma lamport_of_unique: "lamport_of d x s \<Longrightarrow> lamport_of d x t \<Longrightarrow> s = t"
proof (induction arbitrary: t rule: lamport_of.induct)
  case (lamportI x e sp op s u)
  from lamportI.prems obtain s' u' where t: "t = max s' u' + 1"
    and s': "sp = '''' \<longrightarrow> s' = -1" "sp \<noteq> '''' \<longrightarrow> lamport_of d sp s'"
    and u': "op = '''' \<longrightarrow> u' = s'" "op \<noteq> '''' \<and> d op = None \<longrightarrow> u' = MinInt32"
      "op \<noteq> '''' \<and> d op \<noteq> None \<longrightarrow> lamport_of d op u'"
    by (cases rule: lamport_of.cases) (use lamportI(1-3) in auto)
  have "s = s'" using s' lamportI by blast
  moreover have "u = u'" using u' lamportI \<open>s = s'\<close> by (cases "op = ''''"; cases "d op") auto
  ultimately show ?case using t by simp
qed

text \<open>In a well-formed graph the timestamp of an event is above those of its parents, and at least 0.\<close>

lemma lamport_of_parent:
  assumes "lamport_of d x t" and x: "d x = Some e" and "parents_ok d e" and "parent_of e p"
  shows "\<exists>s. lamport_of d p s \<and> s < t"
  using assms(1)
proof cases
  case (lamportI e' sp op s u)
  then have "e' = e" using x by simp
  then consider "p = sp" "sp \<noteq> ''''" | "p = op" "op \<noteq> ''''" "d op \<noteq> None"
    using assms(3,4) lamportI by (auto simp: parent_of_def parents_ok_def)
  then show ?thesis
  proof cases
    case 1
    then show ?thesis using lamportI by (intro exI [of _ s]) simp
  next
    case 2
    then show ?thesis using lamportI by (intro exI [of _ u]) simp
  qed
qed

end
