(* ===== verification/Insertion.thy ===== *)
theory Insertion
  imports Dag
begin

text \<open>
  \<open>InsertEvent\<close> maintains the graph: from a state whose events form a well-formed graph, inserting
  an event with the right index leads to such a state again, whatever the outcome of the call.
  Reachable states are those that the methods of the hashgraph lead to from the empty one; in all of
  them \<open>ancestor\<close> answers reachability in the graph.
\<close>

section \<open>The checks\<close>

lemma pec_GetLast_chain:
  "pec_GetLast (is_participantEventsCache s) c = Ok v \<Longrightarrow> \<exists>i. chain_of s c = Some (v, i)"
  "pec_GetLast (is_participantEventsCache s) c = Err err \<Longrightarrow> IsStore err Empty \<Longrightarrow> chain_of s c = None"
  by (auto simp: pec_GetLast_def bindO_eq_Ok rim_GetLast_def GetLastWindow_def chain_of_def window_of_def
      bindO_def split: option.splits if_splits outcome.splits)

lemma checkSelfParent_Ok:
  assumes "checkSelfParent e h = (Ok u, h')" and "dag_wf (dag h) (chain_of (h_Store h))"
  shows "\<exists>sp. SelfParent e = Ok sp \<and>
    (if sp = '''' then chain_of (h_Store h) (Creator e) = None
     else \<exists>i. chain_of (h_Store h) (Creator e) = Some (sp, i))"
proof -
  obtain sp where sp: "SelfParent e = Ok sp"
    and run: "tryG (onStore (LastEventFrom (Creator e))) (\<lambda>r. case r of
       Inl err \<Rightarrow> if IsStore err Empty \<and> sp = '''' then okG ()
         else errG (SelfParentErr (error_text err) False)
     | Inr creatorLastKnown \<Rightarrow> if sp \<noteq> creatorLastKnown
         then errG (SelfParentErr ''Self-parent not last known event by creator'' True)
         else okG ()) h = (Ok u, h')"
    using assms(1) by (auto simp: checkSelfParent_def bindG_eq_Ok go_defs)
  let ?r = "pec_GetLast (is_participantEventsCache (h_Store h)) (Creator e)"
  have empty: "chain_of (h_Store h) (Creator e) \<noteq> Some ('''', i)" for i
    using dag_wfD(1,9) [OF assms(2)] ToUpper_Creator by fastforce
  show ?thesis
  proof (cases ?r)
    case (Ok v)
    then have "sp = v" using run
      by (auto simp: tryG_def onStore_def LastEventFrom_def go_defs split: if_splits)
    then show ?thesis using sp pec_GetLast_chain(1) [OF Ok] empty by auto
  next
    case (Err err)
    then have "IsStore err Empty" "sp = ''''" using run
      by (auto simp: tryG_def onStore_def LastEventFrom_def go_defs split: if_splits)
    then show ?thesis using sp pec_GetLast_chain(2) [OF Err] by simp
  qed (use run in \<open>auto simp: tryG_def onStore_def LastEventFrom_def\<close>)
qed

lemma checkOtherParent_Ok:
  assumes "checkOtherParent e h = (Ok u, h')"
  shows "\<exists>op. OtherParent e = Ok op \<and> (op \<noteq> '''' \<longrightarrow> dag h op \<noteq> None)"
  using assms
  by (auto simp: checkOtherParent_def bindG_eq_Ok go_defs tryG_def onStore_def GetEvent_run dag_def
      sdag_def split: if_splits option.splits)

lemma keeps_hframe_checks [hframe_intro]:
  "keeps (hframe P Q) (checkSelfParent e)"
  "keeps (hframe P Q) (checkOtherParent e)"
  unfolding checkSelfParent_def checkOtherParent_def
  by (intro hf.keeps_basic keeps_rules hframe_intro)+

section \<open>Wire fields and coordinates\<close>

lemma keeps_hframe_SetWireInfo [hframe_intro]: "keeps (hframe P Q) (hg_SetWireInfo e)"
  unfolding hg_SetWireInfo_def by (intro hf.keeps_basic keeps_rules hframe_intro)

lemma hg_SetWireInfo_Ok:
  assumes "hg_SetWireInfo e h = (Ok e', h')"
  shows "\<exists>a b c d. e' = ev_SetWireInfo a b c d e"
  using assms by (auto simp: hg_SetWireInfo_def bindG_eq_Ok go_defs split: option.splits prod.splits)

lemma keeps_hframe_initEventCoordinates [hframe_intro]: "keeps (hframe P Q) (initEventCoordinates P' e)"
  unfolding initEventCoordinates_def Let_def by (intro hf.keeps_basic hframe_intro)

lemma onStore_GetEvent:
  "onStore (GetEvent x) h =
     (case lru_lookup (is_eventCache (h_Store h)) x of
        None \<Rightarrow> Err (NewStoreErr ''EventCache'' KeyNotFound x) | Some e \<Rightarrow> Ok e,
      h\<lparr>h_Store := (h_Store h)\<lparr>is_eventCache := lru_touch x (is_eventCache (h_Store h))\<rparr>\<rparr>)"
  by (simp add: onStore_def GetEvent_run)

lemma initEventCoordinates_Ok:
  assumes "initEventCoordinates P e h = (Ok e', h')"
  shows "\<exists>sp op. SelfParent e = Ok sp \<and> OtherParent e = Ok op \<and>
    e' = e\<lparr>ev_lastAncestors :=
             AList.update (Creator e) (coordinates P e) (parent_ancestors (dag h) sp op),
           ev_firstDescendants := [(Creator e, coordinates P e)]\<rparr>"
proof -
  obtain sp where sp: "SelfParent e = Ok sp"
    using assms by (auto simp: initEventCoordinates_def bindG_eq_Ok go_defs)
  let ?c = "is_eventCache (h_Store h)"
  have step: "tryG (onStore (GetEvent x)) k g = k
      (case lru_lookup (is_eventCache (h_Store g)) x of
         None \<Rightarrow> Inl (NewStoreErr ''EventCache'' KeyNotFound x) | Some e \<Rightarrow> Inr e)
      (g\<lparr>h_Store := (h_Store g)\<lparr>is_eventCache := lru_touch x (is_eventCache (h_Store g))\<rparr>\<rparr>)"
    for x k and g :: "'c hashgraph_scheme"
    by (simp add: tryG_def onStore_GetEvent split: option.split)
  obtain op where op: "OtherParent e = Ok op"
    using assms sp by (auto simp: initEventCoordinates_def bindG_eq_Ok go_defs step)
  show ?thesis
    using assms sp op
    by (auto simp: initEventCoordinates_def step Let_def go_defs parent_ancestors_def dag_def sdag_def
        split: option.splits)
qed

section \<open>Storing a new event\<close>

lemma participantID_run:
  "participantID pec c =
     (case map_of (ps_ByPubKey (pec_participants pec)) (ToUpper c) of
        None \<Rightarrow> Err (NewStoreErr ''ParticipantEvents'' UnknownParticipant (ToUpper c))
      | Some p \<Rightarrow> Ok (peer_ID p))"
  by (simp add: participantID_def Let_def)

lemma pec_wf_peer:
  assumes "pec_wf pec" and "map_of (ps_ByPubKey (pec_participants pec)) k = Some p"
  shows "p \<in> set (ps_Peers (pec_participants pec))" and "PubKeyString p = k"
  using assms ByPubKey_New_SomeD [of "ps_Peers (pec_participants pec)" k p]
  by (auto simp: pec_wf_def ps_wf_def)

text \<open>Different participants have different windows.\<close>

lemma participantID_inj:
  assumes wf: "pec_wf pec" and "participantID pec c = Ok i" and "participantID pec c' = Ok i"
  shows "ToUpper c = ToUpper c'"
proof -
  obtain p q where p: "map_of (ps_ByPubKey (pec_participants pec)) (ToUpper c) = Some p" "peer_ID p = i"
    and q: "map_of (ps_ByPubKey (pec_participants pec)) (ToUpper c') = Some q" "peer_ID q = i"
    using assms(2,3) by (auto simp: participantID_run split: option.splits)
  have "distinct (map peer_ID (ps_Peers (pec_participants pec)))" using wf by (simp add: pec_wf_def)
  then have "p = q"
    using pec_wf_peer(1) [OF wf p(1)] pec_wf_peer(1) [OF wf q(1)] p(2) q(2)
    by (metis distinct_map inj_onD)
  then show ?thesis using pec_wf_peer(2) [OF wf p(1)] pec_wf_peer(2) [OF wf q(1)] by simp
qed

lemma pec_Set_next:
  assumes wf: "pec_wf pec" and i: "participantID pec c = Ok i"
    and w: "window_of pec c = Some w" and succ: "ri_lastIndex w < 0 \<or> index = ri_lastIndex w + 1"
  shows "\<exists>pec' w'. pec_Set c x index pec = (Ok (), pec') \<and> pec_wf pec' \<and>
    ri_items w' \<noteq> [] \<and> last (ri_items w') = x \<and> ri_lastIndex w' = index \<and>
    (\<forall>c'. window_of pec' c' = (if ToUpper c' = ToUpper c then Some w' else window_of pec c'))"
proof -
  have m: "map_of (rim_mapping (pec_rim pec)) i = Some w" using i w by (simp add: window_of_def)
  define w' where "w' = w\<lparr>ri_items := drop (if length (ri_items w) \<ge> ri_size w then ri_size w div 2 else 0)
      (ri_items w) @ [x], ri_lastIndex := index\<rparr>"
  define pec' where "pec' = pec\<lparr>pec_rim := (pec_rim pec)\<lparr>rim_mapping :=
      AList.update i w' (rim_mapping (pec_rim pec))\<rparr>\<rparr>"
  have run: "pec_Set c x index pec = (Ok (), pec')"
    using i m ri_Set_append [OF succ, of x]
    by (simp add: pec_Set_def rim_Set_def pec'_def w'_def)
  have "map_of (rim_mapping (pec_rim pec')) = (map_of (rim_mapping (pec_rim pec)))(i \<mapsto> w')"
    by (simp add: pec'_def update_conv')
  moreover have "i \<in> peer_ID ` set (ps_Peers (pec_participants pec))"
    using wf m unfolding pec_wf_def by (metis option.distinct(1))
  ultimately have wf': "pec_wf pec'"
    using wf by (auto simp: pec_wf_def pec'_def w'_def)
  have id: "participantID pec' c' = participantID pec c'" for c'
    by (simp add: participantID_run pec'_def)
  have "window_of pec' c' = (if ToUpper c' = ToUpper c then Some w' else window_of pec c')" for c'
  proof (cases "ToUpper c' = ToUpper c")
    case True
    then have "participantID pec c' = Ok i" using i by (simp add: participantID_run split: option.splits)
    then show ?thesis using True by (simp add: window_of_def id) (simp add: pec'_def)
  next
    case False
    then have "participantID pec c' \<noteq> Ok i" using participantID_inj [OF wf i] by metis
    then show ?thesis using False
      by (simp add: window_of_def id split: outcome.split) (simp add: pec'_def)
  qed
  moreover have "ri_items w' \<noteq> []" "last (ri_items w') = x" "ri_lastIndex w' = index"
    by (simp_all add: w'_def)
  ultimately show ?thesis using run wf' by blast
qed

text \<open>Storing a new event that comes next in its creator's chain.\<close>

lemma SetEvent_new:
  assumes good: "good_store P s" and fresh: "sdag s (Hex P e) = None"
    and room: "lru_Len (is_eventCache s) < lru_size (is_eventCache s)"
    and succ: "case chain_of s (Creator e) of None \<Rightarrow> True | Some (l, i) \<Rightarrow> ev_Index e = i + 1"
    and run: "SetEvent P e s = (r, s')"
  shows "sframe P Q s s' \<and> \<not> is_Ok r \<or>
    good_store P s' \<and> sdag s' = (sdag s)(Hex P e \<mapsto> ev_static e) \<and>
    chain_of s' = (\<lambda>c. if ToUpper c = Creator e then Some (Hex P e, ev_Index e) else chain_of s c)"
proof -
  let ?x = "Hex P e"
  let ?pec = "is_participantEventsCache s"
  let ?t = "s\<lparr>is_eventCache := lru_touch ?x (is_eventCache s)\<rparr>"
  have none: "lru_lookup (is_eventCache s) ?x = None" using fresh by (simp add: sdag_def)
  then have touch: "lru_touch ?x (is_eventCache s) = is_eventCache s" by (simp add: lru_Get_def)
  have wf: "pec_wf ?pec" using good by (simp add: good_store_def)
  have set: "SetEvent P e s =
      (case pec_Set (Creator e) ?x (ev_Index e) ?pec of
         (Ok _, pec) \<Rightarrow> (Ok (), s\<lparr>is_participantEventsCache := pec,
                              is_eventCache := lru_add ?x e (is_eventCache s)\<rparr>)
       | (r, pec) \<Rightarrow> (r, s\<lparr>is_participantEventsCache := pec\<rparr>))"
    by (simp add: SetEvent_def Let_def tryG_def GetEvent_run none touch bindG_def go_defs
        split: prod.split outcome.split)
  show ?thesis
  proof (cases "participantID ?pec (Creator e)")
    case (Ok i)
    then obtain p where p: "map_of (ps_ByPubKey (pec_participants ?pec)) (Creator e) = Some p" "peer_ID p = i"
      by (auto simp: participantID_run split: option.splits)
    have "map_of (rim_mapping (pec_rim ?pec)) i \<noteq> None"
      using wf pec_wf_peer(1) [OF wf p(1)] p(2) unfolding pec_wf_def by blast
    then obtain w where w: "window_of ?pec (Creator e) = Some w" using Ok by (auto simp: window_of_def)
    have "ri_lastIndex w < 0 \<or> ev_Index e = ri_lastIndex w + 1"
    proof (cases "ri_items w = []")
      case True
      then show ?thesis using w wf Ok by (auto simp: window_of_def pec_wf_def)
    next
      case False
      then show ?thesis using succ w by (simp add: chain_of_def)
    qed
    then obtain pec' w' where pec': "pec_Set (Creator e) ?x (ev_Index e) ?pec = (Ok (), pec')" "pec_wf pec'"
      "ri_items w' \<noteq> []" "last (ri_items w') = ?x" "ri_lastIndex w' = ev_Index e"
      "\<And>c'. window_of pec' c' = (if ToUpper c' = Creator e then Some w' else window_of ?pec c')"
      using pec_Set_next [OF wf Ok w, of "ev_Index e" ?x] by auto
    then have s': "s' = s\<lparr>is_participantEventsCache := pec',
        is_eventCache := lru_add ?x e (is_eventCache s)\<rparr>" using run set by simp
    have look: "lru_lookup (lru_add ?x e (is_eventCache s)) = (lru_lookup (is_eventCache s))(?x \<mapsto> e)"
      using good room by (intro lru_lookup_Add_room) (auto simp: good_store_def)
    have "good_store P s'"
      using good pec'(2) by (auto simp: good_store_def s' look lru_inv_Add)
    moreover have "sdag s' = (sdag s)(?x \<mapsto> ev_static e)"
      by (auto simp: sdag_def s' look fun_eq_iff)
    moreover have "chain_of s' = (\<lambda>c. if ToUpper c = Creator e then Some (?x, ev_Index e) else chain_of s c)"
      using pec' by (auto simp: chain_of_def s' fun_eq_iff)
    ultimately show ?thesis by blast
  next
    case (Err err)
    then have "s' = s" "\<not> is_Ok r" using run set by (auto simp: pec_Set_def bindG_def go_defs)
    then show ?thesis using sf.frame_refl by blast
  qed (auto simp: participantID_run split: option.splits)
qed

section \<open>The invariant of the hashgraph\<close>

definition hg_inv :: "crypto \<Rightarrow> 'c hashgraph_scheme \<Rightarrow> bool" where
  "hg_inv P h \<longleftrightarrow>
     good_store P (h_Store h) \<and> dag_wf (dag h) (chain_of (h_Store h)) \<and> dag_acyclic (dag h) \<and>
     memo_coh h"

lemma hg_inv_hframe: "hframe P (\<lambda>_. True) h h' \<Longrightarrow> hg_inv P h \<Longrightarrow> hg_inv P h'"
  by (simp add: hg_inv_def hframe_def hpre_def sframe_def dag_def)

text \<open>Two events with the same hash are the same event, as far as the hash covers it.\<close>

definition no_collision :: "crypto \<Rightarrow> 'c hashgraph_scheme \<Rightarrow> Event \<Rightarrow> bool" where
  "no_collision P h e \<longleftrightarrow>
     (case dag h (Hex P e) of
        None \<Rightarrow> True | Some f \<Rightarrow> eb_exported (ev_Body f) = eb_exported (ev_Body e))"

definition has_room :: "'c hashgraph_scheme \<Rightarrow> bool" where
  "has_room h \<longleftrightarrow> lru_Len (is_eventCache (h_Store h)) < lru_size (is_eventCache (h_Store h))"

lemma eb_exported_eqD:
  assumes "eb_exported a = eb_exported b"
  shows "eb_Creator a = eb_Creator b" and "eb_Index a = eb_Index b"
  using arg_cong [OF assms, of eb_Creator] arg_cong [OF assms, of eb_Index]
  by (simp_all add: eb_exported_def)

lemma insert_fresh:
  assumes inv: "hg_inv P h" and ix: "indexed (dag h) e" and nc: "no_collision P h e"
    and sp: "SelfParent e = Ok sp"
    and self: "if sp = '''' then chain_of (h_Store h) (Creator e) = None
      else \<exists>i. chain_of (h_Store h) (Creator e) = Some (sp, i)"
  shows "dag h (Hex P e) = None"
proof (rule ccontr)
  assume "dag h (Hex P e) \<noteq> None"
  then obtain f where f: "dag h (Hex P e) = Some f" by auto
  then have "eb_exported (ev_Body f) = eb_exported (ev_Body e)" using nc by (simp add: no_collision_def)
  then have "Creator f = Creator e" "ev_Index f = ev_Index e"
    by (auto simp: Creator_def dest: eb_exported_eqD)
  moreover have "dag_wf (dag h) (chain_of (h_Store h))" using inv by (simp add: hg_inv_def)
  ultimately show False using creator_below [of "dag h" _ e sp "Hex P e" f] ix sp self f by auto
qed

text \<open>The fields that the rest of the insertion changes do not matter for the graph.\<close>

definition same_event :: "crypto \<Rightarrow> Event \<Rightarrow> Event \<Rightarrow> bool" where
  "same_event P e e' \<longleftrightarrow>
     Hex P e' = Hex P e \<and> Creator e' = Creator e \<and> SelfParent e' = SelfParent e \<and>
     OtherParent e' = OtherParent e \<and> ev_Index e' = ev_Index e"

lemma same_event_trans: "same_event P a b \<Longrightarrow> same_event P b c \<Longrightarrow> same_event P a c"
  by (simp add: same_event_def)

lemma same_event_updates:
  "same_event P e (e\<lparr>ev_topologicalIndex := n\<rparr>)"
  "same_event P e (ev_SetWireInfo a b c i e)"
  "same_event P e (e\<lparr>ev_lastAncestors := la, ev_firstDescendants := fd\<rparr>)"
  by (simp_all add: same_event_def Hex_def ev_Hash_def Creator_def SelfParent_def OtherParent_def
      ev_SetWireInfo_def)

lemma wire_stage:
  assumes "(if w then wrapG msg (hg_SetWireInfo e) else okG e) h = (Ok e', h')"
  shows "same_event P e e'"
  using assms
  by (auto simp: wrapG_def tryG_def go_defs same_event_updates(2) split: if_splits prod.splits outcome.splits
      dest!: hg_SetWireInfo_Ok) (simp add: same_event_def)

lemma hg_inv_stored:
  assumes inv: "hg_inv P h" and ix: "indexed (dag h) e" and room: "has_room h"
    and sp: "SelfParent e = Ok sp" and op: "OtherParent e = Ok op"
    and self: "if sp = '''' then chain_of (h_Store h) (Creator e) = None
      else \<exists>i. chain_of (h_Store h) (Creator e) = Some (sp, i)"
    and other: "op \<noteq> '''' \<longrightarrow> dag h op \<noteq> None" and fresh: "dag h (Hex P e) = None"
    and la: "ev_lastAncestors e =
      AList.update (Creator e) (coordinates P e) (parent_ancestors (dag h) sp op)"
    and run: "onStore (SetEvent P e) h = (r, h')"
  shows "hg_inv P h'"
proof -
  have good: "good_store P (h_Store h)" and wf: "dag_wf (dag h) (chain_of (h_Store h))"
    and ac: "dag_acyclic (dag h)" and coh: "memo_coh h" using inv by (simp_all add: hg_inv_def)
  obtain s' where s': "SetEvent P e (h_Store h) = (r, s')" "h' = h\<lparr>h_Store := s'\<rparr>"
    using run by (auto simp: onStore_def split: prod.splits)
  have succ: "case chain_of (h_Store h) (Creator e) of None \<Rightarrow> True | Some (l, i) \<Rightarrow> ev_Index e = i + 1"
  proof (cases "sp = ''''")
    case False
    then obtain i where i: "chain_of (h_Store h) (Creator e) = Some (sp, i)" using self by auto
    then obtain f where "dag h sp = Some f" "ev_Index f = i" using dag_wfD(9) [OF wf _ i] by auto
    then show ?thesis using ix sp False i by (simp add: indexed_def)
  qed (use self in simp)
  from SetEvent_new [OF good _ _ succ s'(1), of "\<lambda>_. True"] fresh room
  consider (kept) "sframe P (\<lambda>_. True) (h_Store h) s'"
    | (new) "good_store P s'" "sdag s' = (sdag (h_Store h))(Hex P e \<mapsto> ev_static e)"
      "chain_of s' = (\<lambda>c. if ToUpper c = Creator e then Some (Hex P e, ev_Index e) else chain_of (h_Store h) c)"
    by (auto simp: dag_def has_room_def)
  then show ?thesis
  proof cases
    case kept
    then have "hframe P (\<lambda>_. True) h h'" unfolding s'(2) by (rule hframe_store)
    then show ?thesis using inv by (rule hg_inv_hframe)
  next
    case new
    have d': "dag h' = (dag h)(Hex P e \<mapsto> ev_static e)" using new(2) by (simp add: dag_def s'(2))
    have par: "parents_ok (dag h) (ev_static e)"
    proof -
      have "\<exists>es. dag h sp = Some es \<and> Creator es = Creator e" if "sp \<noteq> ''''"
        using that self dag_wfD(9) [OF wf, of "Creator e" sp] by auto
      then show ?thesis using sp op other by (auto simp: parents_ok_def)
    qed
    have "dag_wf (dag h') (chain_of s')" unfolding d'
    proof (rule dag_wf_insert [OF wf fresh _ par])
      show "Hex P e \<noteq> ''''" by (simp add: Hex_def EncodeToString_def)
      show "indexed (dag h) (ev_static e)" using ix sp
        by (auto simp: indexed_def split: option.splits if_splits)
      show "SelfParent (ev_static e) = Ok sp" "OtherParent (ev_static e) = Ok op" using sp op by simp_all
      show "if sp = '''' then chain_of (h_Store h) (Creator (ev_static e)) = None
        else \<exists>i. chain_of (h_Store h) (Creator (ev_static e)) = Some (sp, i)" using self by simp
      show "ev_lastAncestors (ev_static e) = AList.update (Creator (ev_static e))
          \<lparr>ec_Hash = Hex P e, ec_Index = ev_Index (ev_static e)\<rparr> (parent_ancestors (dag h) sp op)"
        using la by (simp add: coordinates_def)
      show "chain_of s' c = (if c = Creator (ev_static e) then Some (Hex P e, ev_Index (ev_static e))
          else chain_of (h_Store h) c)" if "ToUpper c = c" for c using that by (simp add: new(3))
    qed
    moreover have "dag_acyclic (dag h')" unfolding d' by (rule dag_acyclic_insert [OF wf fresh par ac])
    moreover have "memo_coh h'"
    proof -
      have "anc_fun (dag h') x y = Some b" if "anc_fun (dag h) x y = Some b" for x y b
        using that fresh by (auto simp: anc_fun_def d' split: option.splits if_splits)
      moreover have "selfanc_fun (dag h') x y = Some b" if "selfanc_fun (dag h) x y = Some b" for x y b
        using that fresh by (auto simp: selfanc_fun_def d' split: option.splits if_splits)
      moreover have "lamport_of (dag h') x t" if "lamport_of (dag h) x t" for x t
        unfolding d' using that wf fresh by (rule lamport_of_extend)
      ultimately show ?thesis using coh
        by (auto simp: memo_coh_def s'(2) intro: memo_ok_mono)
    qed
    ultimately show ?thesis using new(1) by (simp add: hg_inv_def s'(2))
  qed
qed

lemma hframe_view:
  assumes "hframe P (\<lambda>_. True) h h'" and "hg_inv P h"
  shows "hg_inv P h'" and "dag h' = dag h" and "chain_of (h_Store h') = chain_of (h_Store h)"
    and "has_room h' = has_room h"
  using assms by (simp_all add: hg_inv_def hframe_def hpre_def sframe_def dag_def has_room_def)

lemma wrapG_Ok: "wrapG msg m s = (Ok a, s') \<longleftrightarrow> m s = (Ok a, s')"
  by (auto simp: wrapG_def tryG_def go_defs split: prod.splits outcome.splits)

lemma wrapG_cases:
  assumes "wrapG msg m s = (r, s')"
  obtains r' where "m s = (r', s')" and "is_Ok r' = is_Ok r"
  using assms by (auto simp: wrapG_def tryG_def go_defs split: prod.splits outcome.splits)

section \<open>The whole insertion\<close>

text \<open>What \<open>checkSelfParent\<close> and \<open>checkOtherParent\<close> establish about an event, next to its index.\<close>

definition insertable :: "crypto \<Rightarrow> 'c hashgraph_scheme \<Rightarrow> Event \<Rightarrow> bool" where
  "insertable P h e \<longleftrightarrow>
     indexed (dag h) e \<and> has_room h \<and> dag h (Hex P e) = None \<and>
     (\<exists>sp op. SelfParent e = Ok sp \<and> OtherParent e = Ok op \<and>
        (if sp = '''' then chain_of (h_Store h) (Creator e) = None
         else \<exists>i. chain_of (h_Store h) (Creator e) = Some (sp, i)) \<and>
        (op \<noteq> '''' \<longrightarrow> dag h op \<noteq> None))"

lemma insertable_hframe:
  assumes "hframe P (\<lambda>_. True) h h'" and "hg_inv P h"
  shows "insertable P h' e = insertable P h e"
  using hframe_view [OF assms] by (simp add: insertable_def)

lemma indexed_same_event: "same_event P e e' \<Longrightarrow> indexed d e' = indexed d e"
  by (auto simp: indexed_def same_event_def split: outcome.splits option.splits)

lemma insertable_same_event:
  assumes "same_event P e e'" and "insertable P h e"
  shows "insertable P h e'"
  using assms indexed_same_event [OF assms(1)] unfolding insertable_def same_event_def by (simp split del: if_split cong: if_cong)

text \<open>The three stages of a successful insertion: the checks, the wire fields, and the coordinates
  with the write to the store.\<close>

lemma insertable_checked:
  assumes inv: "hg_inv P h" and ix: "indexed (dag h) e" and nc: "no_collision P h e" and room: "has_room h"
    and self: "checkSelfParent e h = (Ok u, h1)" and other: "checkOtherParent e h1 = (Ok v, h2)"
  shows "hg_inv P h2 \<and> insertable P h2 e"
proof -
  have fr1: "hframe P (\<lambda>_. True) h h1" using keeps_hframe_checks(1) self by (rule keepsD)
  note h1 = hframe_view [OF fr1 inv]
  have fr2: "hframe P (\<lambda>_. True) h1 h2" using keeps_hframe_checks(2) other by (rule keepsD)
  note h2 = hframe_view [OF fr2 h1(1)]
  have wf: "dag_wf (dag h) (chain_of (h_Store h))" using inv by (simp add: hg_inv_def)
  obtain sp where sp: "SelfParent e = Ok sp" and ch: "if sp = '''' then chain_of (h_Store h) (Creator e) = None
      else \<exists>i. chain_of (h_Store h) (Creator e) = Some (sp, i)"
    using checkSelfParent_Ok [OF self wf] by blast
  obtain op where op: "OtherParent e = Ok op" "op \<noteq> '''' \<longrightarrow> dag h1 op \<noteq> None"
    using checkOtherParent_Ok [OF other] by blast
  have "insertable P h2 e"
    using insert_fresh [OF inv ix nc sp ch] ix room sp ch op h1 h2 by (simp add: insertable_def)
  then show ?thesis using h2(1) by simp
qed

lemma insertable_wired:
  assumes inv: "hg_inv P h" and ins: "insertable P h e"
    and run: "(if w then wrapG msg (hg_SetWireInfo (e\<lparr>ev_topologicalIndex := n\<rparr>))
       else okG (e\<lparr>ev_topologicalIndex := n\<rparr>)) (h\<lparr>h_topologicalIndex := m\<rparr>) = (Ok e1, h1)"
  shows "hg_inv P h1 \<and> insertable P h1 e1"
proof -
  let ?h = "h\<lparr>h_topologicalIndex := m\<rparr>" and ?e = "e\<lparr>ev_topologicalIndex := n\<rparr>"
  have fr: "hframe P (\<lambda>_. True) h ?h" by (rule hframe_same) simp_all
  have inv0: "hg_inv P ?h" using fr inv by (rule hg_inv_hframe)
  have ins0: "insertable P ?h ?e"
    using ins insertable_hframe [OF fr inv] insertable_same_event [OF same_event_updates(1)] by blast
  have "keeps (hframe P (\<lambda>_. True)) (if w then wrapG msg (hg_SetWireInfo ?e) else okG ?e)"
    by (intro hf.keeps_basic keeps_rules hframe_intro)
  then have fr1: "hframe P (\<lambda>_. True) ?h h1" using run by (rule keepsD)
  have "insertable P h1 e1"
    using insertable_hframe [OF fr1 inv0] insertable_same_event [OF wire_stage [OF run] ins0] by blast
  then show ?thesis using hg_inv_hframe [OF fr1 inv0] by simp
qed

lemma insertable_stored:
  assumes inv: "hg_inv P h" and ins: "insertable P h e"
    and init: "initEventCoordinates P e h = (Ok e1, h1)" and set: "onStore (SetEvent P e1) h1 = (r, h2)"
  shows "hg_inv P h2"
proof -
  have fr: "hframe P (\<lambda>_. True) h h1" using keeps_hframe_initEventCoordinates init by (rule keepsD)
  note h1 = hframe_view [OF fr inv]
  obtain sp op where par: "SelfParent e = Ok sp" "OtherParent e = Ok op"
    and e1: "e1 = e\<lparr>ev_lastAncestors :=
             AList.update (Creator e) (coordinates P e) (parent_ancestors (dag h) sp op),
           ev_firstDescendants := [(Creator e, coordinates P e)]\<rparr>"
    using initEventCoordinates_Ok [OF init] by blast
  have same: "same_event P e e1" unfolding e1 by (rule same_event_updates(3))
  then have "insertable P h1 e1" using insertable_hframe [OF fr inv] ins insertable_same_event by blast
  then have ins1: "indexed (dag h1) e1" "has_room h1" "dag h1 (Hex P e1) = None"
    "if sp = '''' then chain_of (h_Store h1) (Creator e1) = None
     else \<exists>i. chain_of (h_Store h1) (Creator e1) = Some (sp, i)" "op \<noteq> '''' \<longrightarrow> dag h1 op \<noteq> None"
    using par same by (auto simp: insertable_def same_event_def split: if_splits)
  have par1: "SelfParent e1 = Ok sp" "OtherParent e1 = Ok op" using par same by (simp_all add: same_event_def)
  have "coordinates P e1 = coordinates P e" using same by (simp add: coordinates_def same_event_def)
  then have la: "ev_lastAncestors e1 =
      AList.update (Creator e1) (coordinates P e1) (parent_ancestors (dag h1) sp op)"
    using h1(2) same by (simp add: same_event_def) (simp add: e1)
  show ?thesis by (rule hg_inv_stored [OF h1(1) ins1(1,2) par1 ins1(4,5,3) la set])
qed

text \<open>Every outcome of the insertion keeps the invariant.\<close>

lemma hg_inv_frame: "keeps (hframe P (\<lambda>_. True)) m \<Longrightarrow> hg_inv P h \<Longrightarrow> m h = (r, h') \<Longrightarrow> hg_inv P h'"
  using hg_inv_hframe [of P h h'] keepsD [of "hframe P (\<lambda>_. True)" m h r h'] by blast

lemma hg_inv_insert_checked:
  assumes inv: "hg_inv P h" and ins: "insertable P h e" and run: "insert_checked P e w h = (r, h')"
  shows "hg_inv P h'"
proof -
  let ?h = "h\<lparr>h_topologicalIndex := h_topologicalIndex h + 1\<rparr>"
  let ?e = "e\<lparr>ev_topologicalIndex := h_topologicalIndex h\<rparr>"
  have fr: "hframe P (\<lambda>_. True) h ?h" by (rule hframe_same) simp_all
  have inv0: "hg_inv P ?h" using fr inv by (rule hg_inv_hframe)
  have wire: "keeps (hframe P (\<lambda>_. True))
      (if w then wrapG ''SetWireInfo: '' (hg_SetWireInfo ?e) else okG ?e)"
    by (intro hf.keeps_basic keeps_rules hframe_intro)
  from run [unfolded insert_checked_def bindG_prim] show ?thesis
  proof (cases rule: bindG_cases)
    case (ok e1 h1)
    have h1: "hg_inv P h1" "insertable P h1 e1" using insertable_wired [OF inv ins ok(1)] by simp_all
    from ok(2) show ?thesis
    proof (cases rule: bindG_cases)
      case (ok e2 h2)
      have init: "initEventCoordinates P e1 h1 = (Ok e2, h2)" using ok(1) by (simp add: wrapG_Ok)
      have stored: "hg_inv P h3" if "wrapG ''SetEvent: '' (onStore (SetEvent P e2)) h2 = (r3, h3)"
        for r3 :: "(go_error, unit) outcome" and h3
        using that insertable_stored [OF h1 init] by (auto elim!: wrapG_cases)
      from ok(2) show ?thesis
      proof (cases rule: bindG_cases)
        case (ok v h3)
        show ?thesis
          by (rule hg_inv_frame [rotated 2], rule ok(2),
              intro hf.keeps_basic hframe_intro keeps_hframe_updateAncestor keeps_hframe_modify)
            (simp_all add: stored [OF ok(1)])
      qed (rule stored)
    next
      case (fail r')
      show ?thesis using _ h1(1) fail(1) by (rule hg_inv_frame) (intro hframe_intro)
    qed
  next
    case (fail r')
    show ?thesis using wire inv0 fail(1) by (rule hg_inv_frame)
  qed
qed

lemma hg_inv_InsertEvent:
  assumes inv: "hg_inv P h" and ix: "indexed (dag h) e" and nc: "no_collision P h e" and room: "has_room h"
    and run: "InsertEvent P e w h = (r, h')"
  shows "hg_inv P h'"
proof (cases "ev_Verify P e = Ok True")
  case False
  then have "h' = h" using run unfolding InsertEvent_def
    by (cases "ev_Verify P e"; cases "SelfParent e") (auto simp: bindG_def go_defs)
  then show ?thesis using inv by simp
next
  case True
  from run have "bindG (checkSelfParent e) (\<lambda>_. bindG (checkOtherParent e) (\<lambda>_.
      insert_checked P e w)) h = (r, h')" by (simp add: InsertEvent_def True)
  then show ?thesis
  proof (cases rule: bindG_cases)
    case (ok u h1)
    then have self: "checkSelfParent e h = (Ok u, h1)" by simp
    have h1: "hg_inv P h1" by (rule hg_inv_frame [OF keeps_hframe_checks(1) inv self])
    from ok(2) show ?thesis
    proof (cases rule: bindG_cases)
      case (ok v h2)
      then show ?thesis
        using insertable_checked [OF inv ix nc room self ok(1)] hg_inv_insert_checked by blast
    qed (rule hg_inv_frame [OF keeps_hframe_checks(2) h1])
  qed (rule hg_inv_frame [OF keeps_hframe_checks(1) inv])
qed

end
