(* ===== verification/Reachable.thy ===== *)
theory Reachable
  imports Insertion Sample
begin

text \<open>
  The states that the methods of the hashgraph lead to from the empty one, in any order and with any
  outcome of the calls. \<open>InsertEvent\<close> is called while the event cache has room and with an event whose
  index follows its self-parent's; the commit callback is one that keeps the events of the store.
  In all these states the events form a graph without forks and cycles, \<open>ancestor\<close> and
  \<open>selfAncestor\<close> answer reachability in it, and Lamport timestamps grow along its edges.
\<close>

inductive hg_reachable ::
  "crypto \<Rightarrow> (Block \<Rightarrow> ('c, unit) hg) \<Rightarrow> 'c hashgraph_scheme \<Rightarrow> bool" for P cb where
  hg_new: "hashgraph.truncate h = NewHashgraph (NewInmemStore n) \<Longrightarrow> hg_reachable P cb h"
| hg_init: "hg_reachable P cb h \<Longrightarrow> hg_reachable P cb (snd (hg_Init ps h))"
| hg_peers: "hg_reachable P cb h \<Longrightarrow> hg_reachable P cb (snd (onStore (SetPeerSet r ps) h))"
| hg_insert: "hg_reachable P cb h \<Longrightarrow> has_room h \<Longrightarrow> indexed (dag h) e \<Longrightarrow> no_collision P h e \<Longrightarrow>
    hg_reachable P cb (snd (InsertEvent P e w h))"
| hg_divide: "hg_reachable P cb h \<Longrightarrow> hg_reachable P cb (snd (DivideRounds P h))"
| hg_fame: "hg_reachable P cb h \<Longrightarrow> hg_reachable P cb (snd (DecideFame P h))"
| hg_received: "hg_reachable P cb h \<Longrightarrow> hg_reachable P cb (snd (DecideRoundReceived P h))"
| hg_process: "hg_reachable P cb h \<Longrightarrow> hg_reachable P cb (snd (ProcessDecidedRounds P cb h))"
| hg_sigs: "hg_reachable P cb h \<Longrightarrow> hg_reachable P cb (snd (ProcessSigPool P h))"

definition keeps_events :: "crypto \<Rightarrow> (Block \<Rightarrow> ('c, unit) hg) \<Rightarrow> bool" where
  "keeps_events P cb \<longleftrightarrow> (\<forall>b. keeps (hframe P (\<lambda>_. True)) (cb b))"

section \<open>The invariant\<close>

lemma hg_inv_New:
  assumes "hashgraph.truncate h = NewHashgraph (NewInmemStore n)"
  shows "hg_inv P h"
proof -
  have sel: "h_Store h = NewInmemStore n" "h_ancestorCache h = NewLRU n" "h_selfAncestorCache h = NewLRU n"
    "h_timestampCache h = NewLRU n"
    using arg_cong [OF assms, of h_Store] arg_cong [OF assms, of h_ancestorCache]
      arg_cong [OF assms, of h_selfAncestorCache] arg_cong [OF assms, of h_timestampCache]
    by (simp_all add: hashgraph.defs NewHashgraph_def Let_def NewInmemStore_def)
  have d: "dag h = (\<lambda>_. None)"
    by (simp add: dag_def sdag_def sel NewInmemStore_def lru_lookup_def NewLRU_def fun_eq_iff)
  have "chain_of (h_Store h) = (\<lambda>_. None)"
    by (simp add: sel NewInmemStore_def chain_of_def window_of_def NewParticipantEventsCache_def
        NewRollingIndexMap_def fun_eq_iff split: outcome.split)
  moreover have "good_store P (h_Store h)"
    by (simp add: sel good_store_def NewInmemStore_def lru_inv_New lru_lookup_def pec_wf_def
        NewParticipantEventsCache_def NewRollingIndexMap_def)
      (simp add: NewLRU_def)
  ultimately show ?thesis
    by (simp add: hg_inv_def d dag_wf_empty dag_acyclic_def memo_coh_def sel memo_ok_New)
qed

lemma hg_inv_snd: "keeps (hframe P (\<lambda>_. True)) m \<Longrightarrow> hg_inv P h \<Longrightarrow> hg_inv P (snd (m h))"
  by (rule hg_inv_hframe) (auto simp: keeps_def)

theorem hg_reachable_inv: "hg_reachable P cb h \<Longrightarrow> keeps_events P cb \<Longrightarrow> hg_inv P h"
proof (induction rule: hg_reachable.induct)
  case (hg_new h n)
  then show ?case by (intro hg_inv_New)
next
  case (hg_init h ps)
  then show ?case unfolding hg_Init_def by (intro hg_inv_snd keeps_hframe_wrap hframe_intro)
next
  case (hg_insert h e w)
  then show ?case using hg_inv_InsertEvent [of P h e w, OF _ _ _ _ surjective_pairing] by blast
next
  case (hg_process h)
  then show ?case
    by (intro hg_inv_snd keeps_hframe_ProcessDecidedRounds) (simp_all add: keeps_events_def)
qed (intro hg_inv_snd hframe_intro; simp)+

section \<open>The sample run\<close>

lemma sample_cb_keeps: "keeps_events sample_crypto sample_cb"
  unfolding keeps_events_def sample_cb_def by (intro allI hf.keeps_ok)

lemma sample_h0_reachable: "hg_reachable sample_crypto sample_cb sample_h0"
  unfolding sample_h0_def
  by (rule hg_init, rule hg_new [where n = 10]) (simp add: hashgraph.defs NewHashgraph_def Let_def)

lemma sample_h1_steps:
  "has_room sample_h0 \<and> indexed (dag sample_h0) sample_e1 \<and> no_collision sample_crypto sample_h0 sample_e1"
  by code_simp

lemma sample_h2_steps:
  "has_room sample_h1 \<and> indexed (dag sample_h1) sample_e2 \<and> no_collision sample_crypto sample_h1 sample_e2"
  by code_simp

lemma sample_h2_reachable: "hg_reachable sample_crypto sample_cb sample_h2"
  unfolding sample_h2_def sample_h1_def
  using sample_h0_reachable sample_h1_steps sample_h2_steps
  by (auto intro!: hg_insert simp: sample_h1_def)

lemma sample_h2_events:
  "map_option (\<lambda>e. (Creator e, ev_Index e)) (dag sample_h2 (Hex sample_crypto sample_e1)) = Some (''0X01'', 0) \<and>
   map_option (\<lambda>e. (Creator e, ev_Index e, OtherParent e)) (dag sample_h2 (Hex sample_crypto sample_e2)) =
     Some (''0X02'', 0, Ok (Hex sample_crypto sample_e1))"
  by code_simp

section \<open>Ancestry\<close>

lemma GetEvent_dag:
  assumes "dag h x = Some e"
  shows "\<exists>e' h'. onStore (GetEvent x) h = (Ok e', h') \<and> ev_static e' = e \<and> dag h' = dag h"
  using assms by (auto simp: onStore_GetEvent dag_def sdag_def fun_eq_iff)

lemma ancestor_run:
  assumes inv: "hg_inv P h" and x: "dag h x = Some ex" and y: "dag h y = Some ey"
  shows "\<exists>h'. ancestor x y h = (Ok (reaches (dag h) x y), h')"
proof -
  have wf: "dag_wf (dag h) (chain_of (h_Store h))" using inv by (simp add: hg_inv_def)
  have a: "anc_fun (dag h) x y = Some (reaches (dag h) x y)" using wf x y by (rule anc_fun_reaches)
  obtain r h' where run: "ancestor x y h = (r, h')" by fastforce
  have "hpre P (\<lambda>_. True) h" using inv by (simp add: hg_inv_def hpre_def)
  then have "r = Ok b \<Longrightarrow> anc_fun (dag h) x y = Some b" for b
    using hframe_memo [OF memo_parts(1) keeps_hframe_ancestor_raw _ run [unfolded ancestor_def], of P "\<lambda>_. True"]
    by (auto dest: ancestor_raw_anc_fun)
  moreover have "is_Ok r" using run unfolding ancestor_def
  proof (cases rule: memoG_cases)
    case failed
    let ?h = "h\<lparr>h_ancestorCache := lru_touch \<lparr>key_x = x, key_y = y\<rparr> (h_ancestorCache h)\<rparr>"
    obtain ex' h1 where 1: "onStore (GetEvent x) ?h = (Ok ex', h1)" "dag h1 = dag ?h"
      using GetEvent_dag [of ?h x ex] x by (auto simp: dag_def)
    obtain ey' h2 where "onStore (GetEvent y) h1 = (Ok ey', h2)"
      using GetEvent_dag [of h1 y ey] y 1(2) by (auto simp: dag_def)
    then show ?thesis using failed(2) 1(1)
      by (cases "x = y") (auto simp: ancestor_raw_def bindG_run go_defs)
  qed auto
  ultimately show ?thesis using a run by (cases r) auto
qed

text \<open>C1: In every reachable state, for stored events \<open>x\<close> and \<open>y\<close>, \<open>ancestor\<close> succeeds and returns
  whether \<open>y\<close> can be reached from \<open>x\<close> through self-parents and other-parents: the comparison of
  coordinates, and whatever the memo table holds, decide exactly reachability in the graph.\<close>

theorem ancestor_is_reachability:
  assumes "hg_reachable P cb h" and "keeps_events P cb"
    and "dag h x \<noteq> None" and "dag h y \<noteq> None"
  shows "\<exists>h'. ancestor x y h = (Ok (reaches (dag h) x y), h')"
  using ancestor_run [OF hg_reachable_inv [OF assms(1,2)]] assms(3,4) by blast

theorem ancestor_is_reachability_witness:
  "\<exists>h'. ancestor (Hex sample_crypto sample_e2) (Hex sample_crypto sample_e1) sample_h2 =
     (Ok (reaches (dag sample_h2) (Hex sample_crypto sample_e2) (Hex sample_crypto sample_e1)), h')"
  by (rule ancestor_is_reachability [OF sample_h2_reachable sample_cb_keeps])
    (use sample_h2_events in auto)

text \<open>C4: In every reachable state two stored events of one creator with one index are the same
  event: there are no forks, and the events of a creator are ordered by their indexes.\<close>

theorem no_forks:
  assumes "hg_reachable P cb h" and "keeps_events P cb"
    and "dag h x = Some e" and "dag h y = Some f" and "Creator e = Creator f" and "ev_Index e = ev_Index f"
  shows "x = y"
  using hg_reachable_inv [OF assms(1,2)] dag_wfD(8) [OF _ assms(3-6)] by (auto simp: hg_inv_def)

theorem no_forks_witness:
  "\<exists>e. dag sample_h2 (Hex sample_crypto sample_e1) = Some e \<and>
     (\<forall>y f. dag sample_h2 y = Some f \<and> Creator f = ''0X01'' \<and> ev_Index f = 0 \<longrightarrow>
       Hex sample_crypto sample_e1 = y)"
  using sample_h2_events no_forks [OF sample_h2_reachable sample_cb_keeps] by fastforce

section \<open>Lamport timestamps\<close>

lemma dom_dag:
  assumes "lru_inv (is_eventCache (h_Store h))"
  shows "finite (dom (dag h))" and "card (dom (dag h)) = lru_Len (is_eventCache (h_Store h))"
proof -
  let ?al = "lru_evictList (is_eventCache (h_Store h))"
  have d: "dom (dag h) = fst ` set ?al"
    by (auto simp: dag_def sdag_def lru_lookup_def dom_map_of_conv_image_fst [symmetric])
  show "finite (dom (dag h))" by (simp add: d)
  have "distinct (map fst ?al)" using assms by (simp add: lru_inv_def)
  then show "card (dom (dag h)) = lru_Len (is_eventCache (h_Store h))"
    using distinct_card [of "map fst ?al"] by (simp add: d lru_Len_def)
qed

lemma memoG_Ok:
  assumes "lru_lookup (cache s) k = None \<Longrightarrow> \<exists>a s'. m (set_cache (lru_touch k (cache s)) s) = (Ok a, s')"
  shows "\<exists>a s'. memoG cache set_cache k m s = (Ok a, s')"
proof -
  obtain r s' where run: "memoG cache set_cache k m s = (r, s')" by fastforce
  then show ?thesis
  proof (cases rule: memoG_cases)
    case failed
    then show ?thesis using assms by auto
  qed (use run in auto)
qed

lemma lamport_fuel_Ok:
  fixes h :: "'c hashgraph_scheme"
  assumes "finite (dom d)" and "dag_acyclic d" and par: "\<And>x e. d x = Some e \<Longrightarrow> parents_ok d e"
  shows "hpre P (\<lambda>d'. d' = d) h \<Longrightarrow> d x = Some e \<Longrightarrow> anc_count d x < n \<Longrightarrow>
    \<exists>t h'. lamport_fuel n x h = (Ok t, h')"
proof (induction n arbitrary: x e h)
  case (Suc n)
  let ?Q = "\<lambda>d'. d' = d"
  let ?h = "h\<lparr>h_timestampCache := lru_touch x (h_timestampCache h)\<rparr>"
  have rec: "\<exists>t h'. lamport_fuel n p g = (Ok t, h') \<and> hpre P ?Q h'"
    if g: "hpre P ?Q g" and p: "parent_of e p" for p and g :: "'c hashgraph_scheme"
  proof -
    have "anc_count d p < n" using anc_count_parent [OF assms(1,2) Suc.prems(2) p] Suc.prems(3) by simp
    moreover obtain f where "d p = Some f" using parent_present [OF par [OF Suc.prems(2)] p] by blast
    ultimately obtain t h' where "lamport_fuel n p g = (Ok t, h')" using Suc.IH g by blast
    then show ?thesis using hframe_lamport_fuel hframe_pre(1) [OF _ g] by blast
  qed
  have get: "\<exists>f' h'. onStore (GetEvent p) g = (Ok f', h') \<and> ev_static f' = f \<and> hpre P ?Q h'"
    if g: "hpre P ?Q g" and p: "d p = Some f" for p f and g :: "'c hashgraph_scheme"
  proof -
    have "dag g p = Some f" using g p by (simp add: hpre_def)
    then obtain f' h' where "onStore (GetEvent p) g = (Ok f', h')" "ev_static f' = f"
      using GetEvent_dag by blast
    then show ?thesis using keepsD [OF keeps_hframe_GetEvent] hframe_pre(1) [OF _ g] by blast
  qed
  have "\<exists>t h'. lamportTimestamp_raw (lamport_fuel n) x ?h = (Ok t, h')" if h: "hpre P ?Q ?h"
  proof -
    obtain e' h1 where e': "onStore (GetEvent x) ?h = (Ok e', h1)" "ev_static e' = e" "hpre P ?Q h1"
      using get [OF h Suc.prems(2)] by blast
    obtain sp op where so: "SelfParent e = Ok sp" "OtherParent e = Ok op" "op \<noteq> '''' \<longrightarrow> d op \<noteq> None"
      using par [OF Suc.prems(2)] by (auto simp: parents_ok_def)
    have so': "SelfParent e' = Ok sp" "OtherParent e' = Ok op" using so e'(2) by auto
    obtain s h2 where s: "(if sp \<noteq> '''' then lamport_fuel n sp else okG (-1)) h1 = (Ok s, h2)" "hpre P ?Q h2"
      using rec [OF e'(3), of sp] so(1) e'(3)
      by (cases "sp = ''''") (auto simp: parent_of_def go_defs)
    show ?thesis
    proof (cases "op = ''''")
      case True
      then show ?thesis using e'(1) so' s(1)
        by (simp add: lamportTimestamp_raw_def bindG_run(1) go_defs)
    next
      case False
      then obtain f where "d op = Some f" using so(3) by blast
      then obtain f' h3 where f': "onStore (GetEvent op) h2 = (Ok f', h3)" "hpre P ?Q h3"
        using get [OF s(2)] by blast
      obtain t h4 where "lamport_fuel n op h3 = (Ok t, h4)"
        using rec [OF f'(2), of op] so(2) False by (auto simp: parent_of_def)
      then show ?thesis using e'(1) so' s(1) False f'(1)
        by (simp add: lamportTimestamp_raw_def tryG_run(1) bindG_run(1) go_defs)
    qed
  qed
  moreover have "hpre P ?Q ?h" using Suc.prems(1)
    by (auto simp: hpre_def memo_coh_def dag_def memo_ok_touch)
  ultimately show ?case unfolding lamport_fuel.simps by (intro memoG_Ok) blast
qed simp

lemma lamportTimestamp_run:
  assumes inv: "hg_inv P h" and x: "dag h x = Some e"
  shows "\<exists>t h'. lamportTimestamp x h = (Ok t, h') \<and> lamport_of (dag h) x t \<and> hframe P (\<lambda>_. True) h h'"
proof -
  have inv': "lru_inv (is_eventCache (h_Store h))" "dag_wf (dag h) (chain_of (h_Store h))"
    "dag_acyclic (dag h)" "hpre P (\<lambda>d. d = dag h) h" "hpre P (\<lambda>_. True) h"
    using inv by (simp_all add: hg_inv_def good_store_def hpre_def)
  have "anc_count (dag h) x < events_fuel h"
    using anc_count_le [OF dom_dag(1) [OF inv'(1)]] dom_dag(2) [OF inv'(1)]
    by (simp add: events_fuel_def less_Suc_eq_le)
  then obtain t h' where run: "lamportTimestamp x h = (Ok t, h')"
    using lamport_fuel_Ok [OF dom_dag(1) [OF inv'(1)] inv'(3) _ inv'(4) x] dag_wfD(2) [OF inv'(2)]
    unfolding lamportTimestamp_def by blast
  then show ?thesis
    using lamportTimestamp_of [OF run inv'(5)] keepsD [OF keeps_hframe_lamport run] by blast
qed

text \<open>C7: In every reachable state \<open>lamportTimestamp\<close> returns a timestamp for every stored event and
  for every parent of it, and the event's timestamp is greater than its parent's. Both are the
  timestamps that the graph determines, whatever calls have filled the memo table.\<close>

theorem lamport_increases:
  assumes "hg_reachable P cb h" and "keeps_events P cb"
    and "dag h x = Some e" and "parent_of e p"
  shows "\<exists>t s h1 h2. lamportTimestamp x h = (Ok t, h1) \<and> lamportTimestamp p h1 = (Ok s, h2) \<and> s < t \<and>
    lamport_of (dag h) x t \<and> lamport_of (dag h) p s"
proof -
  have inv: "hg_inv P h" using assms(1,2) by (rule hg_reachable_inv)
  have "dag_wf (dag h) (chain_of (h_Store h))" using inv by (simp add: hg_inv_def)
  then have par: "parents_ok (dag h) e" using assms(3) by (rule dag_wfD(2))
  obtain t h1 where t: "lamportTimestamp x h = (Ok t, h1)" "lamport_of (dag h) x t" "hframe P (\<lambda>_. True) h h1"
    using lamportTimestamp_run [OF inv assms(3)] by blast
  note h1 = hframe_view [OF t(3) inv]
  obtain f where "dag h p = Some f" using parent_present [OF par assms(4)] by blast
  then obtain s h2 where s: "lamportTimestamp p h1 = (Ok s, h2)" "lamport_of (dag h) p s"
    using lamportTimestamp_run [OF h1(1)] h1(2) by metis
  obtain s' where "lamport_of (dag h) p s'" "s' < t"
    using lamport_of_parent [OF t(2) assms(3) par assms(4)] by blast
  then show ?thesis using lamport_of_unique [OF s(2)] t s by blast
qed

theorem lamport_increases_witness:
  "\<exists>t s h1 h2. lamportTimestamp (Hex sample_crypto sample_e2) sample_h2 = (Ok t, h1) \<and>
     lamportTimestamp (Hex sample_crypto sample_e1) h1 = (Ok s, h2) \<and> s < t"
proof -
  obtain e where e: "dag sample_h2 (Hex sample_crypto sample_e2) = Some e"
    "OtherParent e = Ok (Hex sample_crypto sample_e1)" using sample_h2_events by auto
  then have "parent_of e (Hex sample_crypto sample_e1)"
    by (simp add: parent_of_def Hex_def EncodeToString_def)
  then show ?thesis
    using lamport_increases [OF sample_h2_reachable sample_cb_keeps e(1)] by blast
qed

end
