(* ===== verification/Halting.thy ===== *)
theory Halting
  imports Reachable
begin

text \<open>
  The recursion of \<open>round\<close> and \<open>lamportTimestamp\<close> and the walk of
  \<open>updateAncestorFirstDescendant\<close> are modelled with as much fuel as there are events in the store,
  and running out of fuel is the outcome \<open>Diverge\<close>. In a graph without cycles the number of
  ancestors shrinks with every step, so that outcome does not occur: every method returns.
\<close>

named_theorems nodiv_intro \<open>statements that return from every state\<close>
named_theorems halts_intro \<open>methods that return from every state with an acyclic graph\<close>

section \<open>Statements without recursion\<close>

definition nodiv :: "('s \<Rightarrow> ('e, 'a) outcome \<times> 's) \<Rightarrow> bool" where
  "nodiv m \<longleftrightarrow> (\<forall>s. fst (m s) \<noteq> Diverge)"

lemma nodiv_run: "nodiv m \<Longrightarrow> m s \<noteq> (Diverge, s')"
  by (metis nodiv_def fst_conv)

lemma nodiv_basic [nodiv_intro]:
  "nodiv (okG a)" "nodiv (errG e)" "nodiv (getsG f)" "nodiv (modifyG g)" "r \<noteq> Diverge \<Longrightarrow> nodiv (liftO r)"
  by (simp_all add: nodiv_def go_defs)

lemma nodiv_bind [nodiv_intro]: "nodiv m \<Longrightarrow> (\<And>a. nodiv (k a)) \<Longrightarrow> nodiv (bindG m k)"
  by (auto simp: nodiv_def bindG_def split: prod.split outcome.split) (metis fst_conv)

lemma nodiv_try [nodiv_intro]: "nodiv m \<Longrightarrow> (\<And>a. nodiv (k a)) \<Longrightarrow> nodiv (tryG m k)"
  by (auto simp: nodiv_def tryG_def split: prod.split outcome.split) (metis fst_conv)

lemma nodiv_foldG [nodiv_intro]: "(\<And>x a. nodiv (f x a)) \<Longrightarrow> nodiv (foldG f xs a)"
  by (induction xs arbitrary: a) (simp_all add: nodiv_intro)

lemma nodiv_loopG [nodiv_intro]: "(\<And>x a. nodiv (f x a)) \<Longrightarrow> nodiv (loopG f xs a)"
  by (induction xs arbitrary: a) (auto intro!: nodiv_intro split: loop.split)

lemma nodiv_branches [nodiv_intro]:
  "nodiv m \<Longrightarrow> nodiv n \<Longrightarrow> nodiv (if b then m else n)"
  "(\<And>a. nodiv (f1 a)) \<Longrightarrow> (\<And>a. nodiv (g1 a)) \<Longrightarrow> nodiv (case_sum f1 g1 s)"
  "nodiv n \<Longrightarrow> (\<And>a. nodiv (f2 a)) \<Longrightarrow> nodiv (case_option n f2 x)"
  "(\<And>a b. nodiv (f3 a b)) \<Longrightarrow> nodiv (case_prod f3 p)"
  by (simp_all split: sum.split option.split prod.split)

lemma nodiv_onStore [nodiv_intro]: "nodiv m \<Longrightarrow> nodiv (onStore m)"
  by (auto simp: nodiv_def onStore_def split: prod.split) (metis fst_conv)

lemma nodiv_memo: "nodiv m \<Longrightarrow> nodiv (memoG c s k m)"
  unfolding nodiv_def
proof
  fix h
  assume "\<forall>h. fst (m h) \<noteq> Diverge"
  then have "nodiv m" by (simp add: nodiv_def)
  then have "nodiv (bindG m (\<lambda>a. bindG (modifyG (\<lambda>h. s (lru_add k a (c h)) h)) (\<lambda>_. okG a)))"
    by (intro nodiv_intro)
  then show "fst (memoG c s k m h) \<noteq> Diverge"
    by (auto simp: nodiv_def memoG_def split: prod.split option.split)
qed

lemma parents_not_Diverge [simp]: "SelfParent e \<noteq> Diverge" "OtherParent e \<noteq> Diverge"
  by (simp_all add: SelfParent_def OtherParent_def split: list.split)

lemma verify_not_Diverge:
  "verify_signature P pub data sig \<noteq> Diverge" "verify_itxs P itxs \<noteq> Diverge"
proof -
  have sig: "verify_signature P pub data sig \<noteq> Diverge" for P pub data sig
    by (auto simp: verify_signature_def DecodeSignature_def keys_Verify_def bindO_def
        split: list.splits outcome.splits prod.splits option.splits if_splits)
  then show "verify_signature P pub data sig \<noteq> Diverge" .
  show "verify_itxs P itxs \<noteq> Diverge"
    by (induction P itxs rule: verify_itxs.induct)
      (auto simp: it_Verify_def bindO_def sig split: outcome.splits)
qed

lemma ev_Verify_not_Diverge: "ev_Verify P e \<noteq> Diverge"
  by (auto simp: ev_Verify_def bindO_def verify_not_Diverge split: outcome.split)

lemma nodiv_store [nodiv_intro]:
  "nodiv (GetEvent x)" "nodiv (GetRound r)" "nodiv (SetRound r ri)" "nodiv (GetBlock i)"
  "nodiv (store_GetFrame i)" "nodiv (AddConsensusEvent P e)" "nodiv (LastConsensusEventFrom c)"
  by (auto simp: nodiv_def GetEvent_def GetRound_def SetRound_def GetBlock_def store_GetFrame_def
      AddConsensusEvent_def LastConsensusEventFrom_def Let_def split: prod.split option.split)

lemma nodiv_SetBlock [nodiv_intro]: "nodiv (SetBlock b)"
  unfolding SetBlock_def Let_def by (intro nodiv_intro)

lemma nodiv_SetFrame [nodiv_intro]: "nodiv (SetFrame f)"
  unfolding SetFrame_def by (intro nodiv_intro)

lemma reads_not_Diverge:
  "psc_Get c r \<noteq> Diverge" "pec_GetItem pec p i \<noteq> Diverge" "pec_GetLast pec p \<noteq> Diverge"
  by (auto simp: psc_Get_def psc_at_def pec_GetItem_def pec_GetLast_def participantID_run rim_GetItem_def
      rim_GetLast_def ri_GetItem_def Let_def bindO_def split: option.splits list.splits outcome.splits prod.splits)

lemma nodiv_reads [nodiv_intro]:
  "nodiv (GetPeerSet r)" "nodiv (ParticipantEvent c i)" "nodiv (LastEventFrom c)"
  by (simp_all add: nodiv_def GetPeerSet_def ParticipantEvent_def LastEventFrom_def reads_not_Diverge)

lemma nodiv_GetAllPeerSets [nodiv_intro]: "nodiv GetAllPeerSets"
proof -
  have "psc_GetAll_loop c rs acc \<noteq> Diverge" for c rs acc
    by (induction c rs acc rule: psc_GetAll_loop.induct) (auto simp: psc_at_def split: option.split)
  then show ?thesis by (simp add: nodiv_def GetAllPeerSets_def psc_GetAll_def)
qed

lemma nodiv_SetEvent [nodiv_intro]: "nodiv (SetEvent P e)"
proof -
  have "fst (ri_Set x i w) \<noteq> Diverge" for x :: string and i w
    by (simp add: ri_Set_def Let_def)
  then have "nodiv (\<lambda>s. let (r, pec) = pec_Set c k i (is_participantEventsCache s)
      in (r, s\<lparr>is_participantEventsCache := pec\<rparr>))" for c k i
    by (auto simp: nodiv_def pec_Set_def bindG_def go_defs rim_Set_def Let_def participantID_run
        split: prod.split outcome.split option.split) (metis fst_conv)+
  then show ?thesis unfolding SetEvent_def Let_def by (intro nodiv_intro)
qed

lemma nodiv_see [nodiv_intro]: "nodiv (ancestor x y)" "nodiv (see x y)" "nodiv (stronglySee P x y ps)"
  unfolding see_def ancestor_def ancestor_raw_def stronglySee_def stronglySee_raw_def
  by (intro nodiv_memo nodiv_intro)+

lemma nodiv_writes [nodiv_intro]:
  "nodiv (poke_event x e)" "nodiv (poke_round r ri)" "nodiv (queue_round r ri)"
  unfolding poke_event_def poke_round_def queue_round_def by (intro nodiv_intro)+

lemma nodiv_wrap [nodiv_intro]: "nodiv m \<Longrightarrow> nodiv (wrapG msg m)"
  unfolding wrapG_def by (intro nodiv_intro)

section \<open>Methods that recur on the graph\<close>

definition halts ::
  "crypto \<Rightarrow> ((string \<Rightarrow> Event option) \<Rightarrow> bool) \<Rightarrow> ('c, 'a) hg \<Rightarrow> bool" where
  "halts P Q m \<longleftrightarrow> (\<forall>h. hpre P Q h \<longrightarrow> fst (m h) \<noteq> Diverge)"

text \<open>What the graph must satisfy.\<close>

definition tame :: "(string \<Rightarrow> Event option) \<Rightarrow> bool" where
  "tame d \<longleftrightarrow> dag_acyclic d \<and> d '''' = None \<and> finite (dom d)"

lemma halts_nodiv: "nodiv m \<Longrightarrow> halts P Q m"
  by (simp add: nodiv_def halts_def)

lemma halts_bind:
  fixes m :: "('c, 'a) hg"
  assumes "keeps (hframe P Q) m" and "halts P Q m" and "\<And>a. halts P Q (k a)"
  shows "halts P Q (bindG m k)"
  unfolding halts_def
proof (intro allI impI)
  fix h :: "'c hashgraph_scheme"
  assume h: "hpre P Q h"
  obtain r h1 where m: "m h = (r, h1)" by fastforce
  then have "hpre P Q h1" using hframe_pre(1) [OF keepsD [OF assms(1) m] h] by simp
  then show "fst (bindG m k h) \<noteq> Diverge"
    using m h assms(2,3) by (cases r) (auto simp: halts_def bindG_run dest!: spec [of _ h])
qed

lemma halts_bind_nodiv:
  fixes m :: "('c, 'a) hg"
  assumes "halts P Q m" and "\<And>a. nodiv (k a)"
  shows "halts P Q (bindG m k)"
  unfolding halts_def
proof (intro allI impI)
  fix h :: "'c hashgraph_scheme"
  assume "hpre P Q h"
  then have "fst (m h) \<noteq> Diverge" using assms(1) by (simp add: halts_def)
  then show "fst (bindG m k h) \<noteq> Diverge"
    using assms(2) by (auto simp: bindG_def nodiv_def split: prod.split outcome.split)
qed

lemma halts_try:
  fixes m :: "('c, 'a) hg"
  assumes "keeps (hframe P Q) m" and "halts P Q m" and "\<And>a. halts P Q (k a)"
  shows "halts P Q (tryG m k)"
  unfolding halts_def
proof (intro allI impI)
  fix h :: "'c hashgraph_scheme"
  assume h: "hpre P Q h"
  obtain r h1 where m: "m h = (r, h1)" by fastforce
  then have "hpre P Q h1" using hframe_pre(1) [OF keepsD [OF assms(1) m] h] by simp
  then show "fst (tryG m k h) \<noteq> Diverge"
    using m h assms(2,3) by (cases r) (auto simp: halts_def tryG_run dest!: spec [of _ h])
qed

lemma halts_foldG:
  assumes "\<And>x a. keeps (hframe P Q) (f x a)" and "\<And>x a. halts P Q (f x a)"
  shows "halts P Q (foldG f xs a)"
proof (induction xs arbitrary: a)
  case Nil
  show ?case by (simp add: halts_nodiv nodiv_intro)
next
  case (Cons x xs)
  then show ?case using assms by (simp add: halts_bind)
qed

lemma halts_loopG:
  assumes "\<And>x a. keeps (hframe P Q) (f x a)" and "\<And>x a. halts P Q (f x a)"
  shows "halts P Q (loopG f xs a)"
proof (induction xs arbitrary: a)
  case Nil
  show ?case by (simp add: halts_nodiv nodiv_intro)
next
  case (Cons x xs)
  have "halts P Q (case r of Continue b \<Rightarrow> loopG f xs b | Break b \<Rightarrow> okG b)" for r
    using Cons by (auto intro!: halts_nodiv [OF nodiv_basic(1)] split: loop.split)
  then show ?case using assms by (simp add: halts_bind)
qed

lemma halts_branches:
  "(b \<Longrightarrow> halts P Q m) \<Longrightarrow> (\<not> b \<Longrightarrow> halts P Q n) \<Longrightarrow> halts P Q (if b then m else n)"
  "(\<And>a. halts P Q (f1 a)) \<Longrightarrow> (\<And>a. halts P Q (g1 a)) \<Longrightarrow> halts P Q (case_sum f1 g1 s)"
  "halts P Q n \<Longrightarrow> (\<And>a. halts P Q (f2 a)) \<Longrightarrow> halts P Q (case_option n f2 x)"
  "(\<And>a b. halts P Q (f3 a b)) \<Longrightarrow> halts P Q (case_prod f3 p)"
  by (simp_all split: sum.split option.split prod.split)

lemma halts_prod1: "(\<And>a b. halts P Q (f a b c)) \<Longrightarrow> halts P Q ((case p of (a, b) \<Rightarrow> f a b) c)"
  by (simp split: prod.split)

lemmas halts_rules = halts_bind halts_try halts_foldG halts_loopG halts_branches halts_prod1

lemma halts_bind_lift: "(\<And>a. r = Ok a \<Longrightarrow> halts P Q (k a)) \<Longrightarrow> r \<noteq> Diverge \<Longrightarrow> halts P Q (bindG (liftO r) k)"
  by (cases r) (auto simp: halts_def bindG_def go_defs)

lemma hpre_GetEvent:
  assumes "onStore (GetEvent x) h = (Ok e, h1)" and "hpre P Q h"
  shows "hpre P (\<lambda>d. Q d \<and> d x = Some (ev_static e)) h1"
proof -
  have "hpre P Q h1" "dag h1 = dag h"
    using hframe_pre [OF keepsD [OF keeps_hframe_GetEvent assms(1)] assms(2)] by simp_all
  moreover have "dag h x = Some (ev_static e)"
    using assms(1) by (auto simp: onStore_GetEvent dag_def sdag_def split: option.splits)
  ultimately show ?thesis by (simp add: hpre_def)
qed

lemma halts_bind_GetEvent:
  fixes k :: "Event \<Rightarrow> ('c, 'a) hg"
  assumes "\<And>e. halts P (\<lambda>d. Q d \<and> d x = Some (ev_static e)) (k e)"
  shows "halts P Q (bindG (onStore (GetEvent x)) k)"
  unfolding halts_def
proof (intro allI impI)
  fix h :: "'c hashgraph_scheme"
  assume h: "hpre P Q h"
  obtain r h1 where m: "onStore (GetEvent x) h = (r, h1)" by fastforce
  have "nodiv (onStore (GetEvent x) :: ('c, Event) hg)" by (intro nodiv_intro)
  then have "r \<noteq> Diverge" using m by (auto simp: nodiv_def dest!: spec [of _ h])
  then show "fst (bindG (onStore (GetEvent x)) k h) \<noteq> Diverge"
    using m assms hpre_GetEvent [OF _ h] by (cases r) (auto simp: halts_def bindG_run)
qed

lemma halts_try_GetEvent:
  fixes k :: "go_error + Event \<Rightarrow> ('c, 'a) hg"
  assumes "\<And>e. halts P (\<lambda>d. Q d \<and> d x = Some (ev_static e)) (k (Inr e))" and "\<And>e. halts P Q (k (Inl e))"
  shows "halts P Q (tryG (onStore (GetEvent x)) k)"
  unfolding halts_def
proof (intro allI impI)
  fix h :: "'c hashgraph_scheme"
  assume h: "hpre P Q h"
  obtain r h1 where m: "onStore (GetEvent x) h = (r, h1)" by fastforce
  have "nodiv (onStore (GetEvent x) :: ('c, Event) hg)" by (intro nodiv_intro)
  then have "r \<noteq> Diverge" using m by (auto simp: nodiv_def dest!: spec [of _ h])
  moreover have "hpre P Q h1" using hframe_pre(1) [OF keepsD [OF keeps_hframe_GetEvent m] h] .
  ultimately show "fst (tryG (onStore (GetEvent x)) k h) \<noteq> Diverge"
    using m assms hpre_GetEvent [OF _ h] by (cases r) (auto simp: halts_def tryG_run)
qed

lemma halts_memo:
  fixes m :: "('c, 'a) hg"
  assumes "\<And>h. hframe P Q h (sc (lru_touch k (c h)) h)" and "halts P Q m"
  shows "halts P Q (memoG c sc k m)"
  unfolding halts_def
proof (intro allI impI)
  fix h :: "'c hashgraph_scheme"
  assume h: "hpre P Q h"
  obtain r h' where run: "memoG c sc k m h = (r, h')" by fastforce
  then have "r \<noteq> Diverge"
  proof (cases rule: memoG_cases)
    case failed
    have "hpre P Q (sc (lru_touch k (c h)) h)" using hframe_pre(1) [OF assms(1) h] .
    then show ?thesis using failed(2) assms(2) by (auto simp: halts_def dest!: spec)
  qed auto
  then show "fst (memoG c sc k m h) \<noteq> Diverge" using run by simp
qed

definition fuel_ok :: "((string \<Rightarrow> Event option) \<Rightarrow> bool) \<Rightarrow> string \<Rightarrow> nat \<Rightarrow> bool" where
  "fuel_ok Q x n \<longleftrightarrow> (\<forall>d. Q d \<longrightarrow> tame d \<and> anc_count d x < n)"

lemma fuel_ok_parent:
  assumes "fuel_ok Q x (Suc n)" and "parent_of e p"
  shows "fuel_ok (\<lambda>d. Q d \<and> d x = Some (ev_static e)) p n"
  using assms anc_count_parent [of _ x "ev_static e" p]
  by (fastforce simp: fuel_ok_def tame_def)

lemma halts_no_fuel: "fuel_ok Q x 0 \<Longrightarrow> halts P Q m"
  by (auto simp: fuel_ok_def halts_def hpre_def)

lemma halts_with_fuel:
  assumes tame: "\<And>d. Q d \<Longrightarrow> tame d" and m: "\<And>n Q. fuel_ok Q x n \<Longrightarrow> halts P Q (m n)"
  shows "halts P Q (\<lambda>h. m (events_fuel h) h)"
  unfolding halts_def
proof (intro allI impI)
  fix h :: "'a hashgraph_scheme"
  assume h: "hpre P Q h"
  then have "lru_inv (is_eventCache (h_Store h))" by (simp add: hpre_def good_store_def)
  then have "anc_count (dag h) x < events_fuel h"
    using anc_count_le [OF dom_dag(1)] dom_dag(2) by (metis events_fuel_def less_Suc_eq_le)
  then have "hpre P (\<lambda>d. Q d \<and> anc_count d x < events_fuel h) h" using h by (simp add: hpre_def)
  moreover have "fuel_ok (\<lambda>d. Q d \<and> anc_count d x < events_fuel h) x (events_fuel h)"
    using tame by (simp add: fuel_ok_def)
  ultimately show "fst (m (events_fuel h) h) \<noteq> Diverge" using m by (auto simp: halts_def)
qed

lemma halts_parent_round:
  assumes "\<And>p. keeps (hframe P Q) (rec p)" and "\<And>p. parent_of e p \<Longrightarrow> halts P Q (rec p)"
  shows "halts P Q (parent_round rec e)"
  unfolding parent_round_def
  by (intro halts_bind_lift halts_rules hf.keeps_basic keeps_rules halts_nodiv nodiv_intro assms)
    (simp_all add: parent_of_def)

lemma halts_round_fuel: "fuel_ok Q x n \<Longrightarrow> halts P Q (round_fuel P' n x :: ('c, int) hg)"
proof (induction n arbitrary: Q x)
  case (Suc n)
  have "halts P Q (round_raw P' (round_fuel P' n) x :: ('c, int) hg)"
    unfolding round_raw_def
  proof (rule halts_bind_GetEvent, goal_cases)
    case (1 e)
    let ?Q = "\<lambda>d. Q d \<and> d x = Some (ev_static e)"
    have rec: "halts P ?Q (round_fuel P' n p :: ('c, int) hg)" if "parent_of e p" for p
      using Suc.IH fuel_ok_parent [OF Suc.prems that] by simp
    show ?case
      unfolding count_stronglySeen_def
      by (rule halts_bind [OF keeps_hframe_parent_round halts_parent_round])
        (rule keeps_hframe_round_fuel, rule keeps_hframe_round_fuel, erule rec, intro halts_nodiv nodiv_intro)
  qed
  then show ?case unfolding round_fuel.simps
    by (intro halts_memo hframe_same) simp_all
qed (simp add: halts_no_fuel)

lemma halts_lamport_fuel: "fuel_ok Q x n \<Longrightarrow> halts P Q (lamport_fuel n x :: ('c, int) hg)"
proof (induction n arbitrary: Q x)
  case (Suc n)
  have "halts P Q (lamportTimestamp_raw (lamport_fuel n) x :: ('c, int) hg)"
    unfolding lamportTimestamp_raw_def
  proof (rule halts_bind_GetEvent, goal_cases)
    case (1 e)
    let ?Q = "\<lambda>d. Q d \<and> d x = Some (ev_static e)"
    have rec: "halts P ?Q (lamport_fuel n p :: ('c, int) hg)" if "parent_of e p" for p
      using Suc.IH fuel_ok_parent [OF Suc.prems that] by simp
    show ?case
      by (intro halts_bind_lift halts_rules hf.keeps_basic keeps_rules keeps_hframe_lamport_fuel hframe_intro;
          (rule rec, simp add: parent_of_def)?; (intro halts_nodiv nodiv_intro)?; simp?)
  qed
  then show ?case unfolding lamport_fuel.simps
    by (intro halts_memo hframe_set_memo [OF memo_parts(3)] memo_ok_touch)
      (simp_all add: hpre_def memo_coh_def)
qed (simp add: halts_no_fuel)

lemma halts_round [halts_intro]: "(\<And>d. Q d \<Longrightarrow> tame d) \<Longrightarrow> halts P Q (hg_round P' x)"
  unfolding hg_round_def [abs_def] by (rule halts_with_fuel [OF _ halts_round_fuel])

lemma halts_lamport [halts_intro]: "(\<And>d. Q d \<Longrightarrow> tame d) \<Longrightarrow> halts P Q (lamportTimestamp x)"
  unfolding lamportTimestamp_def [abs_def] by (rule halts_with_fuel [OF _ halts_lamport_fuel])

lemma halts_witness [halts_intro]: "(\<And>d. Q d \<Longrightarrow> tame d) \<Longrightarrow> halts P Q (witness P' x)"
  unfolding witness_def witness_raw_def
  by (rule halts_memo, rule hframe_same; (simp; fail)?)
    (intro halts_rules hf.keeps_basic keeps_rules hframe_intro halts_intro;
     (intro halts_nodiv nodiv_intro)?; simp?)

section \<open>Insertion\<close>

lemma halts_keyed:
  assumes "x = Hex P e \<Longrightarrow> halts P (\<lambda>d. Q d \<and> d x = Some (ev_static e)) m"
  shows "halts P (\<lambda>d. Q d \<and> d x = Some (ev_static e)) m"
proof (cases "x = Hex P e")
  case False
  have "\<not> (good_store P s \<and> sdag s x = Some (ev_static e))" for s
    using False by (auto simp: good_store_def sdag_def) (metis ev_methods_static(1))
  then show ?thesis by (auto simp: halts_def hpre_def dag_def)
qed (rule assms)

lemma fuel_ok_self:
  assumes fuel: "fuel_ok Q x (Suc n)" and "SelfParent e = Ok sp"
  shows "fuel_ok (\<lambda>d. Q d \<and> d x = Some (ev_static e)) sp n"
proof (cases "sp = ''''")
  case True
  have "anc_count d '''' < n" if "tame d" "anc_count d x < Suc n" "d x = Some (ev_static e)" for d
  proof -
    have "reaches d '''' y \<longleftrightarrow> y = ''''" for y
      using that(1) by (auto simp: tame_def intro: reaches.itself elim: reaches.cases)
    then have "anc_count d '''' = 0" using that(1) by (auto simp: anc_count_def tame_def)
    moreover have "x \<in> {y \<in> dom d. reaches d x y}" using that(3) by (auto intro: reaches.itself)
    then have "0 < anc_count d x"
      unfolding anc_count_def using that(1) by (auto simp: card_gt_0_iff tame_def)
    ultimately show ?thesis using that(2) by simp
  qed
  then show ?thesis using fuel True by (auto simp: fuel_ok_def)
next
  case False
  then show ?thesis using fuel_ok_parent [OF fuel, of e sp] assms(2) by (simp add: parent_of_def)
qed

lemma halts_walk_down: "fuel_ok Q x n \<Longrightarrow> halts P Q (walk_down P event n x :: ('c, unit) hg)"
proof (induction n arbitrary: Q x)
  case (Suc n)
  have tame: "Q d \<Longrightarrow> tame d" for d using Suc.prems by (simp add: fuel_ok_def)
  have down: "halts P (\<lambda>d. Q d \<and> d x = Some (ev_static a)) (walk_down P event n sp :: ('c, unit) hg)"
    if "SelfParent a = Ok sp" for a sp
    using Suc.IH fuel_ok_self [OF Suc.prems that] by simp
  have step: "halts P (\<lambda>d. Q d \<and> d x = Some (ev_static a))
      (bindG (onStore (SetEvent P (a\<lparr>ev_firstDescendants := fd\<rparr>)))
         (\<lambda>_. tryG (witness P x) (\<lambda>w. if w = Inr True then okG ()
            else bindG (liftO (SelfParent a)) (walk_down P event n))) :: ('c, unit) hg)" for a fd
  proof (rule halts_keyed)
    assume x: "x = Hex P a"
    show ?thesis
      by (intro halts_bind halts_try halts_branches(1) halts_bind_lift keeps_hframe_SetEvent keeps_hframe_witness
          halts_witness down halts_nodiv [OF nodiv_basic(1)] halts_nodiv [OF nodiv_onStore [OF nodiv_SetEvent]])
        (auto simp: x tame)
  qed
  show ?case unfolding walk_down.simps
  proof (rule halts_try_GetEvent, goal_cases)
    case (1 a)
    show ?case by (auto intro!: step halts_nodiv nodiv_intro split: option.split)
  qed (auto intro!: halts_nodiv nodiv_intro)
qed (simp add: halts_no_fuel)

lemma halts_updateAncestor [halts_intro]:
  "(\<And>d. Q d \<Longrightarrow> tame d) \<Longrightarrow> halts P Q (updateAncestorFirstDescendant P event)"
  unfolding updateAncestorFirstDescendant_def
  by (rule halts_foldG; simp only: split_beta)
    (rule keeps_run, rule keeps_hframe_walk_down, rule halts_with_fuel [OF _ halts_walk_down])

lemma hg_inv_hpre: "hg_inv P h \<Longrightarrow> hpre P tame h"
  using dom_dag(1) [of h] dag_wfD(1) [of "dag h"]
  by (auto simp: hg_inv_def hpre_def tame_def good_store_def)

lemma nodiv_InsertEvent_parts [nodiv_intro]:
  "nodiv (checkSelfParent e)" "nodiv (checkOtherParent e)" "nodiv (initEventCoordinates P e)"
  "nodiv (hg_SetWireInfo e)"
  unfolding checkSelfParent_def checkOtherParent_def initEventCoordinates_def hg_SetWireInfo_def Let_def
  by (intro nodiv_intro parents_not_Diverge)+

lemma InsertEvent_returns:
  assumes inv: "hg_inv P h" and ix: "indexed (dag h) e" and nc: "no_collision P h e" and room: "has_room h"
  shows "fst (InsertEvent P e w h) \<noteq> Diverge"
proof
  assume "fst (InsertEvent P e w h) = Diverge"
  then obtain h' where run: "InsertEvent P e w h = (Diverge, h')" by (auto simp: prod_eq_iff)
  have parts: "checkSelfParent e g \<noteq> (Diverge, g')" "checkOtherParent e g \<noteq> (Diverge, g')"
    "initEventCoordinates P e0 g \<noteq> (Diverge, g')" "hg_SetWireInfo e0 g \<noteq> (Diverge, g')"
    "onStore (SetEvent P e0) g \<noteq> (Diverge, g')" for g g' :: "'a hashgraph_scheme" and e0
    by (intro nodiv_run nodiv_intro)+
  obtain u v h1 h2 where chk: "checkSelfParent e h = (Ok u, h1)" "checkOtherParent e h1 = (Ok v, h2)"
    and ins: "insert_checked P e w h2 = (Diverge, h')"
    using run ev_Verify_not_Diverge [of P e]
    by (auto simp: InsertEvent_def bindG_Diverge go_defs parts split: if_splits)
  let ?h = "h2\<lparr>h_topologicalIndex := h_topologicalIndex h2 + 1\<rparr>"
  let ?e = "e\<lparr>ev_topologicalIndex := h_topologicalIndex h2\<rparr>"
  have h2: "hg_inv P h2" "insertable P h2 e" using insertable_checked [OF inv ix nc room chk] by simp_all
  have wrap: "wrapG msg m g = (Diverge, g') \<longleftrightarrow> m g = (Diverge, g')"
    for msg and m :: "('a, 'b) hg" and g g' :: "'a hashgraph_scheme"
    by (auto simp: wrapG_def tryG_def go_defs split: prod.splits outcome.splits)
  obtain e1 h3 e2 h4 x h5 where
    wire: "(if w then wrapG ''SetWireInfo: '' (hg_SetWireInfo ?e) else okG ?e) ?h = (Ok e1, h3)"
    and init: "initEventCoordinates P e1 h3 = (Ok e2, h4)" and set: "onStore (SetEvent P e2) h4 = (Ok x, h5)"
    and up: "updateAncestorFirstDescendant P e2 h5 = (Diverge, h')"
    using ins by (auto simp: insert_checked_def bindG_Diverge wrap wrapG_Ok go_defs parts split: if_splits)
  have h3: "hg_inv P h3" "insertable P h3 e1" using insertable_wired [OF h2 wire] by simp_all
  have "hg_inv P h5" by (rule insertable_stored [OF h3 init set])
  then have "fst (updateAncestorFirstDescendant P e2 h5) \<noteq> Diverge"
    using halts_updateAncestor [of tame P e2] hg_inv_hpre by (auto simp: halts_def)
  then show False using up by simp
qed

section \<open>Consensus\<close>

lemma halts_DivideRounds [halts_intro]:
  assumes tame: "\<And>d. Q d \<Longrightarrow> tame d"
  shows "halts P Q (DivideRounds P :: ('c, unit) hg)"
proof -
  have "halts P Q (divide_event P x :: ('c, unit) hg)" for x
    unfolding divide_event_def
  proof (rule halts_bind_GetEvent, rule halts_keyed, goal_cases)
    case (1 e)
    let ?Q = "\<lambda>d. Q d \<and> d x = Some (ev_static e)"
    have t: "?Q d \<Longrightarrow> tame d" for d using tame by simp
    have poke: "keeps (hframe P ?Q) (poke_event x (SetRound_ev r e) :: ('c, unit) hg)" for r
      using 1 by (intro keeps_hframe_poke_event) simp_all
    have "halts P ?Q (assign_round P x e :: ('c, Event) hg)"
      unfolding assign_round_def Let_def
      by (intro halts_bind halts_round hframe_intro poke halts_witness;
          (intro hf.keeps_basic keeps_rules hframe_intro halts_nodiv nodiv_intro)?; (simp add: t)?)
    then have r: "halts P ?Q (if ev_round e = None then bindG (assign_round P x e) (\<lambda>ev. okG (ev, True))
        else okG (e, False) :: ('c, Event \<times> bool) hg)"
      using 1 by (intro halts_branches halts_bind keeps_hframe_assign_round halts_nodiv [OF nodiv_basic(1)]) auto
    have keep: "keeps (hframe P ?Q) (if ev_round e = None then bindG (assign_round P x e) (\<lambda>ev. okG (ev, True))
        else okG (e, False) :: ('c, Event \<times> bool) hg)"
      using 1 by (intro keeps_if hf.keeps_bind hf.keeps_ok keeps_hframe_assign_round) auto
    have "halts P ?Q (assign_timestamp x e' :: ('c, Event) hg)" for e'
      unfolding assign_timestamp_def Let_def
      by (rule halts_bind [OF keeps_hframe_lamport halts_lamport [OF t]]) (assumption, intro halts_nodiv nodiv_intro)
    note stamp = this
    show ?case
      by (rule halts_bind [OF keep r], simp only: split_beta, rule halts_bind_nodiv)
        (intro halts_branches(1) halts_bind_nodiv stamp nodiv_intro halts_nodiv [OF nodiv_basic(1)])+
  qed
  then show ?thesis unfolding DivideRounds_def
    by (intro halts_bind halts_foldG hf.keeps_basic hframe_intro halts_nodiv [OF nodiv_basic(3)])
qed

lemma nodiv_DecideFame [nodiv_intro]: "nodiv (DecideFame P)"
proof -
  have hex: "middleBit y \<noteq> Diverge" for y
    by (auto simp: middleBit_def DecodeFromString_def bindO_def Let_def split: outcome.splits prod.splits if_splits)
  have "nodiv (vote P i x j ps y acc)" for i x j ps y acc
    unfolding vote_def stronglySeen_def Let_def by (intro nodiv_intro hex)
  then have "nodiv (vote_round P i x j acc)" for i x j acc
    unfolding vote_round_def by (intro nodiv_intro)
  then have "nodiv (decide_witness P i x acc)" for i x acc
    unfolding decide_witness_def by (intro nodiv_intro)
  then have "nodiv (decide_round P r acc)" for r acc
    unfolding decide_round_def Let_def by (intro nodiv_intro)
  then show ?thesis unfolding DecideFame_def by (intro nodiv_intro)
qed

lemma nodiv_receive_in [nodiv_intro]: "nodiv (receive_in P x i b)"
  unfolding receive_in_def famous_that_see_def Let_def by (intro nodiv_intro)

lemma halts_DecideRoundReceived [halts_intro]:
  "(\<And>d. Q d \<Longrightarrow> tame d) \<Longrightarrow> halts P Q (DecideRoundReceived P)"
  unfolding DecideRoundReceived_def receive_event_def
  by (intro halts_rules hf.keeps_basic hframe_intro keeps_hframe_receive_in halts_intro;
      (intro halts_nodiv nodiv_intro)?; simp?)

section \<open>Frames and blocks\<close>

lemma halts_createFrameEvent [halts_intro]:
  "(\<And>d. Q d \<Longrightarrow> tame d) \<Longrightarrow> halts P Q (createFrameEvent P' x)"
  unfolding createFrameEvent_def
  by (intro halts_bind halts_branches hf.keeps_basic keeps_rules hframe_intro halts_intro;
      (intro halts_nodiv nodiv_intro)?; simp?)

lemma halts_createRoot [halts_intro]:
  "(\<And>d. Q d \<Longrightarrow> tame d) \<Longrightarrow> halts P Q (createRoot P' c x)"
  unfolding createRoot_def Let_def
  by (intro halts_rules hf.keeps_basic keeps_rules hframe_intro halts_intro;
      (intro halts_nodiv nodiv_intro)?; simp?)

lemma SortFrameEvents_not_Diverge: "SortFrameEvents es \<noteq> Diverge"
  by (simp add: SortFrameEvents_def)

lemma halts_GetFrame [halts_intro]:
  assumes "\<And>d. Q d \<Longrightarrow> tame d"
  shows "halts P Q (hg_GetFrame P' rr :: ('c, Frame) hg)"
proof -
  note [simp] = assms
  have 1: "halts P Q (frame_events P' xs :: ('c, FrameEvent list) hg)"
    "keeps (hframe P Q) (frame_events P' xs :: ('c, FrameEvent list) hg)" for xs
    unfolding frame_events_def
    by (intro halts_rules hf.keeps_basic hframe_intro halts_intro; (intro halts_nodiv nodiv_intro)?; simp?)+
  have 2: "halts P Q (roots_of_events P' es :: ('c, (string \<times> Root) list) hg)"
    "keeps (hframe P Q) (roots_of_events P' es :: ('c, (string \<times> Root) list) hg)" for es
    unfolding roots_of_events_def Let_def
    by (intro halts_rules hf.keeps_basic keeps_rules hframe_intro halts_intro; (intro halts_nodiv nodiv_intro)?; simp?)+
  have 3: "halts P Q (roots_of_others P' rr rs :: ('c, (string \<times> Root) list) hg)"
    "keeps (hframe P Q) (roots_of_others P' rr rs :: ('c, (string \<times> Root) list) hg)" for rs
    unfolding roots_of_others_def
    by (intro halts_rules hf.keeps_basic keeps_rules hframe_intro halts_intro; (intro halts_nodiv nodiv_intro)?; simp?)+
  have 4: "nodiv (witness_timestamps ws :: ('c, int list) hg)"
    "keeps (hframe P Q) (witness_timestamps ws :: ('c, int list) hg)" for ws
    unfolding witness_timestamps_def by (intro nodiv_intro hf.keeps_basic hframe_intro)+
  show ?thesis unfolding hg_GetFrame_def Let_def
    by (intro halts_rules hf.keeps_basic hframe_intro 1 2 3 4(2);
        (intro halts_nodiv nodiv_intro 4 SortFrameEvents_not_Diverge)?)
qed

lemma halts_ProcessDecidedRounds:
  assumes "\<And>d. Q d \<Longrightarrow> tame d" and cb: "\<And>b. keeps (hframe P Q) (cb b)" "\<And>b. halts P Q (cb b)"
  shows "halts P Q (ProcessDecidedRounds P' cb :: ('c, unit) hg)"
proof -
  note [simp] = assms(1)
  have step: "halts P Q (process_round P' cb i)" for i
    unfolding process_round_def commit_events_def commit_block_def setLastConsensusRound_def Let_def wrapG_def
    by (intro halts_rules hf.keeps_basic keeps_rules hframe_intro halts_intro cb keeps_hframe_modify;
        (intro halts_nodiv nodiv_intro)?; simp?)
  have "fst (process_rounds P' cb rs ps h) \<noteq> Diverge" if "hpre P Q h" for rs ps h
    using that
  proof (induction rs arbitrary: ps h)
    case (Cons r rs)
    obtain r1 h1 where r1: "process_round P' cb (pr_Index r) h = (r1, h1)" by fastforce
    have "hpre P Q h1" using hframe_pre(1) [OF keepsD [OF keeps_hframe_process_round [OF cb(1)] r1] Cons.prems] .
    moreover have "r1 \<noteq> Diverge" using step Cons.prems r1 by (metis halts_def fst_conv)
    ultimately show ?case using Cons.IH r1 by (cases r1) auto
  qed simp
  then show ?thesis
    by (auto simp: halts_def ProcessDecidedRounds_def split: prod.split) (metis fst_conv)
qed

lemma bl_Verify_not_Diverge: "bl_Verify P b s \<noteq> Diverge"
  by (simp add: bl_Verify_def verify_not_Diverge)

lemma nodiv_ProcessSigPool [nodiv_intro]: "nodiv (ProcessSigPool P)"
  unfolding ProcessSigPool_def process_sig_def SetAnchorBlock_def setAnchorBlock_def Let_def
  by (intro nodiv_intro bl_Verify_not_Diverge)

text \<open>C3: From every reachable state, the insertion of an event followed by the whole consensus pass
  returns: the recursion of rounds and timestamps and the update of first descendants end, however
  the graph looks, provided that the commit callback returns.\<close>

theorem consensus_returns:
  assumes "hg_reachable P cb h" and "keeps_events P cb" and "\<And>b. halts P tame (cb b)"
    and "has_room h" and "indexed (dag h) e" and "no_collision P h e"
  shows "fst (InsertEventAndRunConsensus P cb e w h) \<noteq> Diverge"
proof
  assume "fst (InsertEventAndRunConsensus P cb e w h) = Diverge"
  then obtain h' where run: "InsertEventAndRunConsensus P cb e w h = (Diverge, h')"
    by (auto simp: prod_eq_iff)
  have inv: "hg_inv P h" using assms(1,2) by (rule hg_reachable_inv)
  have cb: "keeps (hframe P tame) (cb b)" for b
    using assms(2) by (auto simp: keeps_events_def intro: keeps_hframe_weaken)
  have rest: "halts P tame (bindG (DivideRounds P) (\<lambda>_. bindG (DecideFame P) (\<lambda>_.
      bindG (DecideRoundReceived P) (\<lambda>_. ProcessDecidedRounds P cb))))"
    by (intro halts_bind hframe_intro halts_intro halts_ProcessDecidedRounds cb assms(3)
        halts_nodiv [OF nodiv_DecideFame]) simp_all
  obtain u h1 where ok: "InsertEvent P e w h = (Ok u, h1)"
    and div: "bindG (DivideRounds P) (\<lambda>_. bindG (DecideFame P) (\<lambda>_.
      bindG (DecideRoundReceived P) (\<lambda>_. ProcessDecidedRounds P cb))) h1 = (Diverge, h')"
    using run InsertEvent_returns [OF inv assms(5,6,4), of w]
    unfolding InsertEventAndRunConsensus_def by (auto simp: bindG_Diverge [of "InsertEvent P e w"])
  have "hpre P tame h1" by (rule hg_inv_hpre [OF hg_inv_InsertEvent [OF inv assms(5,6,4) ok]])
  then show False using rest div by (auto simp: halts_def)
qed

theorem consensus_returns_witness:
  "fst (InsertEventAndRunConsensus sample_crypto sample_cb sample_e2 True sample_h1) \<noteq> Diverge"
proof (rule consensus_returns)
  show "hg_reachable sample_crypto sample_cb sample_h1"
    unfolding sample_h1_def using sample_h0_reachable sample_h1_steps by (auto intro!: hg_insert)
  show "halts sample_crypto tame (sample_cb b)" for b
    unfolding sample_cb_def by (intro halts_nodiv nodiv_intro)
qed (use sample_h2_steps sample_cb_keeps in auto)

end
