(* ===== verification/Fame.thy ===== *)
theory Fame
  imports Reachable
begin

text \<open>
  The virtual vote. Votes are counted over strongly seen witnesses of the previous round; a count
  that reaches a super-majority decides. The first section is about the counting alone: a decision
  binds the other witnesses of the round. The second is about \<open>DecideFame\<close> as a method on the stored
  rounds: a decided fame is never changed, whatever the outcome of the call.
\<close>

section \<open>Counting\<close>

lemma tally_counts:
  "tally votes ss x =
     (let yays = length (filter (\<lambda>w. getVote votes w x) ss);
          nays = length (filter (\<lambda>w. \<not> getVote votes w x) ss)
      in if yays \<ge> nays then (True, yays) else (False, nays))"
proof -
  have "foldl (\<lambda>(yays, nays) w. if getVote votes w x then (yays + 1, nays) else (yays, nays + 1)) (a, b) ss =
      (a + length (filter (\<lambda>w. getVote votes w x) ss), b + length (filter (\<lambda>w. \<not> getVote votes w x) ss))"
    for a b by (induction ss arbitrary: a b) auto
  from this [of 0 0] show ?thesis by (simp add: tally_def)
qed

lemma tally_counted:
  assumes "tally votes ss x = (v, t)"
  shows "t = length (filter (\<lambda>w. getVote votes w x = v) ss)"
  using assms by (auto simp: tally_counts Let_def split: if_splits)

text \<open>The voters of two lists over the same witnesses.\<close>

lemma votes_of_two:
  assumes W: "distinct W" and S1: "distinct S1" "set S1 \<subseteq> set W" and S2: "distinct S2" "set S2 \<subseteq> set W"
  shows "length (filter p S1) + length (filter (\<lambda>w. \<not> p w) S2) \<le> length W"
proof -
  have "length (filter p S1) = card (set (filter p S1))"
    "length (filter (\<lambda>w. \<not> p w) S2) = card (set (filter (\<lambda>w. \<not> p w) S2))"
    using S1(1) S2(1) by (simp_all add: distinct_card [symmetric])
  moreover have "card (set (filter p S1)) + card (set (filter (\<lambda>w. \<not> p w) S2)) =
      card (set (filter p S1) \<union> set (filter (\<lambda>w. \<not> p w) S2))"
    by (rule card_Un_disjoint [symmetric]) auto
  moreover have "card (set (filter p S1) \<union> set (filter (\<lambda>w. \<not> p w) S2)) \<le> card (set W)"
    using S1(2) S2(2) by (intro card_mono) auto
  ultimately show ?thesis using distinct_card [OF W] by simp
qed

text \<open>C5: A decision binds the whole round. Among the witnesses of a round (at most as many as there
  are peers), if the strongly seen ones of some later witness give \<open>v\<close> a super-majority, then every
  other later witness that strongly sees a super-majority of them counts a majority for \<open>v\<close> as well; in
  particular none can reach a super-majority for the opposite.\<close>

theorem decision_binds_round:
  assumes W: "distinct W" "length W \<le> ps_Len ps"
    and S1: "distinct S1" "set S1 \<subseteq> set W" and S2: "distinct S2" "set S2 \<subseteq> set W"
    and decided: "tally votes S1 x = (v, t)" "SuperMajority ps \<le> t"
    and sees: "SuperMajority ps \<le> length S2"
  shows "\<exists>t'. tally votes S2 x = (v, t') \<and>
    length (filter (\<lambda>w. getVote votes w x \<noteq> v) S2) < SuperMajority ps"
proof -
  let ?p = "\<lambda>w. getVote votes w x = v"
  let ?n = "length (filter (\<lambda>w. \<not> ?p w) S2)"
  have "t + ?n \<le> length W"
    using votes_of_two [OF W(1) S1 S2, of ?p] tally_counted [OF decided(1)] by simp
  then have few: "SuperMajority ps + ?n \<le> ps_Len ps" using W(2) decided(2) by simp
  moreover have "length (filter ?p S2) + ?n = length S2" by (rule sum_length_filter_compl)
  ultimately have "?n < length (filter ?p S2)" using sees by (auto simp: SuperMajority_def)
  moreover have "?n < SuperMajority ps" using few by (auto simp: SuperMajority_def)
  ultimately show ?thesis by (cases v) (auto simp: tally_counts Let_def)
qed

theorem decision_binds_round_witness:
  "\<exists>t'. tally [((''a'', ''x''), True), ((''b'', ''x''), True), ((''c'', ''x''), True)] [''b'', ''c'', ''d''] ''x'' = (True, t')"
proof -
  let ?votes = "[((''a'', ''x''), True), ((''b'', ''x''), True), ((''c'', ''x''), True)]"
  have 1: "tally ?votes [''a'', ''b'', ''c''] ''x'' = (True, 3)" by code_simp
  have 2: "SuperMajority four_peers = 3" "ps_Len four_peers = 4" by code_simp+
  show ?thesis
    using decision_binds_round [of "[''a'', ''b'', ''c'', ''d'']" four_peers "[''a'', ''b'', ''c'']"
        "[''b'', ''c'', ''d'']" ?votes "''x''" True 3] 1 2 by auto
qed

text \<open>Unanimity persists: when all the strongly seen witnesses voted \<open>v\<close>, the count is \<open>v\<close> with
  all of their votes; with a super-majority of them it decides \<open>v\<close>, and in a coin round it reaches
  the threshold that keeps the coin out.\<close>

theorem unanimity_decides:
  assumes "ss \<noteq> []" and "\<And>w. w \<in> set ss \<Longrightarrow> getVote votes w x = v"
  shows "tally votes ss x = (v, length ss)"
proof -
  have "filter (\<lambda>w. getVote votes w x) ss = (if v then ss else [])"
    "filter (\<lambda>w. \<not> getVote votes w x) ss = (if v then [] else ss)"
    using assms(2) by (auto simp: filter_empty_conv)
  then show ?thesis using assms(1) by (cases v) (auto simp: tally_counts Let_def)
qed

theorem unanimity_decides_witness: "tally [] [''a'', ''b''] ''x'' = (False, 2)"
  using unanimity_decides [of "[''a'', ''b'']" "[]" "''x''" False] by (simp add: getVote_def)

section \<open>Decided fame is final\<close>

definition round_at :: "'c hashgraph_scheme \<Rightarrow> int \<Rightarrow> RoundInfo option" where
  "round_at h = lru_lookup (is_roundCache (h_Store h))"

text \<open>Statements that do not write rounds.\<close>

definition rsame :: "'c hashgraph_scheme \<Rightarrow> 'c hashgraph_scheme \<Rightarrow> bool" where
  "rsame h h' \<longleftrightarrow>
     lru_inv (is_roundCache (h_Store h)) \<longrightarrow>
       lru_inv (is_roundCache (h_Store h')) \<and> round_at h' = round_at h"

interpretation rf: frame_rel rsame
  by unfold_locales (auto simp: rsame_def)

named_theorems rsame_intro \<open>methods that do not write rounds\<close>

lemma keeps_rsame_onStore:
  "(\<And>s. is_roundCache (snd (m s)) = is_roundCache s) \<Longrightarrow> keeps rsame (onStore m)"
  by (simp add: keeps_def rsame_def onStore_def round_at_def split_beta)

lemma keeps_rsame_modify:
  "(\<And>h. is_roundCache (h_Store (f h)) = is_roundCache (h_Store h)) \<Longrightarrow> keeps rsame (modifyG f)"
  by (simp add: keeps_def rsame_def round_at_def go_defs)

lemma keeps_rsame_reads [rsame_intro]:
  "keeps rsame (onStore (GetEvent x))" "keeps rsame (onStore (GetPeerSet r))"
  by (rule keeps_rsame_onStore; simp add: GetEvent_def GetPeerSet_def split_beta)+

lemma keeps_rsame_GetRound [rsame_intro]: "keeps rsame (onStore (GetRound r))"
  by (simp add: keeps_def rsame_def onStore_def GetRound_def round_at_def split_beta lru_inv_Get)

lemma keeps_rsame_memo:
  assumes "keeps rsame m" and "\<And>c h. h_Store (set_cache c h) = h_Store h"
  shows "keeps rsame (memoG cache set_cache k m)"
proof (rule keepsI)
  fix h r h'
  have same: "rsame h (set_cache c h)" for c h by (simp add: rsame_def round_at_def assms(2))
  assume "memoG cache set_cache k m h = (r, h')"
  then show "rsame h h'"
  proof (cases rule: memoG_cases)
    case (computed a h1)
    have "rsame (set_cache (lru_touch k (cache h)) h) h1" using assms(1) computed(2) by (rule keepsD)
    with same have "rsame h h1" by (rule rf.frame_trans)
    then show ?thesis unfolding computed(4) using same by (rule rf.frame_trans)
  next
    case failed
    have "rsame (set_cache (lru_touch k (cache h)) h) h'" using assms(1) failed(2) by (rule keepsD)
    with same show ?thesis by (rule rf.frame_trans)
  qed (simp add: same)
qed

lemma keeps_rsame_see [rsame_intro]: "keeps rsame (see x y)" "keeps rsame (stronglySee P x y ps)"
  unfolding see_def ancestor_def ancestor_raw_def stronglySee_def stronglySee_raw_def
  by (intro keeps_rsame_memo rf.keeps_basic keeps_rules rsame_intro; simp)+

lemma keeps_rsame_stronglySeen [rsame_intro]: "keeps rsame (stronglySeen P y ps ws)"
  unfolding stronglySeen_def by (intro rf.keeps_basic rsame_intro)

text \<open>Rounds are kept, and what is decided in them is.\<close>

definition decided_fame :: "RoundInfo \<Rightarrow> string \<Rightarrow> roundEvent \<Rightarrow> bool" where
  "decided_fame ri x re \<longleftrightarrow> map_of (rd_CreatedEvents ri) x = Some re \<and> re_Famous re \<noteq> Undefined"

definition fame_kept :: "'c hashgraph_scheme \<Rightarrow> 'c hashgraph_scheme \<Rightarrow> bool" where
  "fame_kept h h' \<longleftrightarrow>
     (\<forall>r ri. round_at h r = Some ri \<longrightarrow>
        (\<exists>ri'. round_at h' r = Some ri' \<and> (\<forall>x re. decided_fame ri x re \<longrightarrow> decided_fame ri' x re)))"

definition rounds_ok :: "'c hashgraph_scheme \<Rightarrow> bool" where
  "rounds_ok h \<longleftrightarrow>
     lru_inv (is_roundCache (h_Store h)) \<and> (\<forall>r ri. round_at h r = Some ri \<longrightarrow> rd_wf ri)"

definition voting :: "'c hashgraph_scheme \<Rightarrow> 'c hashgraph_scheme \<Rightarrow> bool" where
  "voting h0 h \<longleftrightarrow> rounds_ok h \<and> fame_kept h0 h"

lemma voting_rsame: "voting h0 h \<Longrightarrow> rsame h h' \<Longrightarrow> voting h0 h'"
  by (simp add: voting_def rounds_ok_def fame_kept_def rsame_def)

text \<open>The round that is voted on, with the witnesses \<open>ws\<close> that are voted on in it.\<close>

definition voting_on ::
  "'c hashgraph_scheme \<Rightarrow> int \<Rightarrow> string list \<Rightarrow> RoundInfo \<Rightarrow> 'c hashgraph_scheme \<Rightarrow> bool" where
  "voting_on h0 i ws ri h \<longleftrightarrow>
     voting h0 h \<and> round_at h i = Some ri \<and>
     (\<forall>x\<in>set ws. \<exists>re. map_of (rd_CreatedEvents ri) x = Some re \<and> re_Witness re)"

lemma voting_on_rsame: "voting_on h0 i ws ri h \<Longrightarrow> rsame h h' \<Longrightarrow> voting_on h0 i ws ri h'"
  using voting_rsame [of h0 h h'] by (auto simp: voting_on_def voting_def rounds_ok_def rsame_def)

lemma round_at_poke:
  "snd (poke_round i ri h) = h' \<Longrightarrow> round_at h i \<noteq> None \<Longrightarrow> round_at h' = (round_at h)(i \<mapsto> ri)"
  by (auto simp: poke_round_def go_defs round_at_def fun_eq_iff)

lemma voting_on_write:
  assumes "voting_on h0 i ws ri h" and at: "round_at h' = (round_at h)(i \<mapsto> ri')"
    and inv: "lru_inv (is_roundCache (h_Store h'))" and wf: "rd_wf ri'"
    and dec: "\<And>x re. decided_fame ri x re \<Longrightarrow> decided_fame ri' x re"
    and ws: "\<And>x re. x \<in> set ws \<Longrightarrow> map_of (rd_CreatedEvents ri) x = Some re \<Longrightarrow> re_Witness re \<Longrightarrow>
      \<exists>re'. map_of (rd_CreatedEvents ri') x = Some re' \<and> re_Witness re'"
  shows "voting_on h0 i ws ri' h'"
proof -
  have v: "voting h0 h" "round_at h i = Some ri"
    "\<forall>x\<in>set ws. \<exists>re. map_of (rd_CreatedEvents ri) x = Some re \<and> re_Witness re"
    using assms(1) by (simp_all add: voting_on_def)
  have "rounds_ok h'" using v(1) inv wf by (auto simp: rounds_ok_def voting_def at)
  moreover have "fame_kept h0 h'"
    unfolding fame_kept_def
  proof (intro allI impI)
    fix r ri0
    assume "round_at h0 r = Some ri0"
    then obtain ri1 where ri1: "round_at h r = Some ri1" "\<forall>x re. decided_fame ri0 x re \<longrightarrow> decided_fame ri1 x re"
      using v(1) by (simp add: voting_def fame_kept_def) blast
    then show "\<exists>ri2. round_at h' r = Some ri2 \<and> (\<forall>x re. decided_fame ri0 x re \<longrightarrow> decided_fame ri2 x re)"
      using v(2) dec by (cases "r = i") (auto simp: at)
  qed
  ultimately show ?thesis using v(3) ws by (auto simp: voting_on_def voting_def at)
qed

lemma voting_on_SetFame:
  assumes "voting_on h0 i ws ri h" and "x \<in> set ws" and "\<not> IsDecided x ri"
    and "poke_round i (SetFame x v ri) h = (r, h')"
  shows "voting_on h0 i ws (SetFame x v ri) h'"
proof (rule voting_on_write [OF assms(1)])
  have ri: "round_at h i = Some ri" "rd_wf ri" "lru_inv (is_roundCache (h_Store h))"
    and w: "\<exists>re. map_of (rd_CreatedEvents ri) x = Some re \<and> re_Witness re"
    using assms(1,2) by (auto simp: voting_on_def voting_def rounds_ok_def)
  show "round_at h' = (round_at h)(i \<mapsto> SetFame x v ri)"
    using round_at_poke [of i "SetFame x v ri" h h'] assms(4) ri(1) by simp
  show "lru_inv (is_roundCache (h_Store h'))"
    using assms(4) ri(3) by (auto simp: poke_round_def go_defs lru_inv_poke)
  show "rd_wf (SetFame x v ri)" using ri(2) by simp
  show "decided_fame (SetFame x v ri) y re" if "decided_fame ri y re" for y re
    using that w assms(3) by (auto simp: decided_fame_def map_of_SetFame IsDecided_iff)
  show "\<exists>re'. map_of (rd_CreatedEvents (SetFame x v ri)) y = Some re' \<and> re_Witness re'"
    if "y \<in> set ws" "map_of (rd_CreatedEvents ri) y = Some re" "re_Witness re" for y re
    using that w by (auto simp: map_of_SetFame)
qed

text \<open>The invariant of the loops over voters: the accumulator holds the votes, the round info and
  whether \<open>x\<close> was decided.\<close>

definition vote_inv ::
  "'c hashgraph_scheme \<Rightarrow> int \<Rightarrow> string list \<Rightarrow> string \<Rightarrow> votes \<times> RoundInfo \<times> bool
    \<Rightarrow> 'c hashgraph_scheme \<Rightarrow> bool" where
  "vote_inv h0 i ws x acc h \<longleftrightarrow>
     voting_on h0 i ws (fst (snd acc)) h \<and> (\<not> snd (snd acc) \<longrightarrow> \<not> IsDecided x (fst (snd acc)))"

definition still_voting ::
  "'c hashgraph_scheme \<Rightarrow> int \<Rightarrow> string list \<Rightarrow> string \<Rightarrow> votes \<times> RoundInfo \<times> bool
    \<Rightarrow> 'c hashgraph_scheme \<Rightarrow> bool" where
  "still_voting h0 i ws x acc h \<longleftrightarrow> vote_inv h0 i ws x acc h \<and> \<not> snd (snd acc)"

abbreviation loop_post where
  "loop_post h0 i ws x \<equiv> \<lambda>r. case r of Continue b \<Rightarrow> still_voting h0 i ws x b | Break b \<Rightarrow> vote_inv h0 i ws x b"

lemma hoare_rsame:
  assumes "keeps rsame m" and "\<And>h h'. A h \<Longrightarrow> rsame h h' \<Longrightarrow> A h'" and "\<And>h. A h \<Longrightarrow> voting h0 h"
  shows "hoare A m (\<lambda>_. A) (voting h0)"
  by (rule hoare_post [OF hoare_keeps [OF assms(1,2)]]) (auto intro: assms(3))

lemma still_voting_facts:
  "still_voting h0 i ws x acc h \<Longrightarrow> rsame h h' \<Longrightarrow> still_voting h0 i ws x acc h'"
  "still_voting h0 i ws x acc h \<Longrightarrow> voting h0 h"
  using voting_on_rsame [of h0 i ws "fst (snd acc)" h h']
  by (simp_all add: still_voting_def vote_inv_def) (simp add: voting_on_def)

lemma hoare_cases:
  "(b \<Longrightarrow> hoare A m Q E) \<Longrightarrow> (\<not> b \<Longrightarrow> hoare A n Q E) \<Longrightarrow> hoare A (if b then m else n) Q E"
  "(\<And>u v. hoare A (f u v) Q E) \<Longrightarrow> hoare A (case p of (u, v) \<Rightarrow> f u v) Q E"
  by (simp_all split: prod.split)

lemma hoare_read:
  "keeps rsame m \<Longrightarrow> hoare (still_voting h0 i ws x acc) m (\<lambda>_. still_voting h0 i ws x acc) (voting h0)"
  by (rule hoare_rsame, assumption, rule still_voting_facts(1), assumption, assumption, rule still_voting_facts(2))

lemma hoare_vote:
  assumes "x \<in> set ws"
  shows "hoare (still_voting h0 i ws x acc) (vote P i x j ps y acc) (loop_post h0 i ws x) (voting h0)"
proof -
  obtain votes ri d where acc: "acc = (votes, ri, d)" by (cases acc)
  have cont: "hoare (still_voting h0 i ws x acc) (okG (Continue (vs, ri, False))) (loop_post h0 i ws x) (voting h0)" for vs
    by (rule hoareI) (auto simp: go_defs acc still_voting_def vote_inv_def)
  have decide: "hoare (still_voting h0 i ws x acc)
      (bindG (poke_round i (SetFame x v ri)) (\<lambda>_. okG (Break (vs, SetFame x v ri, True))))
      (loop_post h0 i ws x) (voting h0)" for v vs
    using assms voting_on_SetFame [of h0 i ws ri _ x v]
    by (intro hoareI) (auto simp: bindG_def go_defs acc still_voting_def vote_inv_def poke_round_def)
  show ?thesis unfolding vote_def Let_def
    by (subst (2) acc, simp only: prod.case)
      (intro hoare_cases hoare_bind [OF hoare_read] rf.keeps_lift rsame_intro cont decide)
qed

lemma hoare_vote_round:
  assumes "x \<in> set ws"
  shows "hoare (still_voting h0 i ws x acc) (vote_round P i x j acc) (loop_post h0 i ws x) (voting h0)"
proof -
  have exit: "still_voting h0 i ws x a h \<Longrightarrow> vote_inv h0 i ws x a h" for a h by (simp add: still_voting_def)
  have ret: "hoare (vote_inv h0 i ws x a) (okG (if snd (snd a) then Break a else Continue a))
      (loop_post h0 i ws x) (voting h0)" for a
    by (rule hoareI) (auto simp: go_defs still_voting_def)
  have loop: "hoare (still_voting h0 i ws x acc) (loopG (vote P i x j ps) ys acc) (vote_inv h0 i ws x) (voting h0)"
    for ps ys
    by (rule hoare_loopG [where I = "still_voting h0 i ws x"], rule hoare_vote [OF assms], erule exit)
  show ?thesis unfolding vote_round_def
    by (rule hoare_bind [OF hoare_read [OF keeps_rsame_GetRound]],
        rule hoare_bind [OF hoare_read [OF keeps_rsame_reads(2)]], rule hoare_bind [OF loop ret])
qed

lemma hoare_decide_witness:
  assumes "x \<in> set ws"
  shows "hoare (voting_on h0 i ws ri) (decide_witness P i x (votes, ri))
    (\<lambda>(_, ri') h. voting_on h0 i ws ri' h) (voting h0)"
proof (cases "IsDecided x ri")
  case True
  then show ?thesis by (auto simp: decide_witness_def hoare_def go_defs)
next
  case False
  let ?acc = "(votes, ri, False)"
  have exit: "still_voting h0 i ws x a h \<Longrightarrow> vote_inv h0 i ws x a h" for a h by (simp add: still_voting_def)
  have loop: "hoare (still_voting h0 i ws x ?acc)
      (loopG (vote_round P i x) [i + 1..l] ?acc) (vote_inv h0 i ws x) (voting h0)" for l
    by (rule hoare_loopG [where I = "still_voting h0 i ws x"], rule hoare_vote_round [OF assms], erule exit)
  have ret: "hoare (vote_inv h0 i ws x a) ((\<lambda>(votes, ri, _). okG (votes, ri)) a)
      (\<lambda>(_, ri') h. voting_on h0 i ws ri' h) (voting h0)" for a
    by (rule hoareI) (auto simp: go_defs vote_inv_def split: prod.splits)
  have "hoare (still_voting h0 i ws x ?acc) (decide_witness P i x (votes, ri))
      (\<lambda>(_, ri') h. voting_on h0 i ws ri' h) (voting h0)"
    unfolding decide_witness_def prod.case if_not_P [OF False]
    by (rule hoare_bind [OF hoare_read [OF rf.keeps_gets]], rule hoare_bind [OF loop ret])
  then show ?thesis by (rule hoare_pre) (simp add: still_voting_def vote_inv_def False)
qed

lemma hoare_GetRound:
  assumes "\<And>h h'. A h \<Longrightarrow> rsame h h' \<Longrightarrow> A h'" and "\<And>h. A h \<Longrightarrow> voting h0 h"
  shows "hoare A (onStore (GetRound i)) (\<lambda>ri h. A h \<and> round_at h i = Some ri) (voting h0)"
proof (rule hoareI)
  fix h r h'
  assume A: "A h" and run: "onStore (GetRound i) h = (r, h')"
  then have "A h'" using assms(1) keepsD [OF keeps_rsame_GetRound run] by blast
  then show "voting h0 h'" by (rule assms(2))
next
  fix h ri h'
  assume A: "A h" and run: "onStore (GetRound i) h = (Ok ri, h')"
  have fr: "rsame h h'" using keeps_rsame_GetRound run by (rule keepsD)
  have "round_at h' i = round_at h i"
    using fr assms(2) [OF A] by (simp add: rsame_def voting_def rounds_ok_def)
  moreover have "round_at h i = Some ri"
    using run by (auto simp: onStore_def GetRound_def round_at_def split_beta split: option.splits)
  ultimately show "A h' \<and> round_at h' i = Some ri" using assms(1) [OF A fr] by simp
qed

lemma hoare_decide_round: "hoare (voting h0) (decide_round P r acc) (\<lambda>_. voting h0) (voting h0)"
proof -
  obtain votes ds where acc: "acc = (votes, ds)" by (cases acc)
  let ?i = "pr_Index r"
  have start: "hoare (\<lambda>h. voting h0 h \<and> round_at h ?i = Some ri) (onStore (GetPeerSet ?i))
      (\<lambda>_. voting_on h0 ?i (Witnesses ri) ri) (voting h0)" for ri
  proof (rule hoare_post [OF hoare_keeps [OF keeps_rsame_reads(2)]])
    fix h h' :: "'a hashgraph_scheme"
    assume "voting h0 h \<and> round_at h ?i = Some ri" "rsame h h'"
    then show "voting h0 h' \<and> round_at h' ?i = Some ri"
      using voting_rsame [of h0 h h'] by (auto simp: rsame_def voting_def rounds_ok_def)
  next
    fix h :: "'a hashgraph_scheme"
    assume v: "voting h0 h \<and> round_at h ?i = Some ri"
    then have "rd_wf ri" by (auto simp: voting_def rounds_ok_def)
    then show "voting_on h0 ?i (Witnesses ri) ri h" using v by (auto simp: voting_on_def set_Witnesses)
  qed simp
  have loop: "hoare (voting_on h0 ?i ws ri) (foldG (decide_witness P ?i) ws (votes, ri))
      (\<lambda>(_, ri') h. voting_on h0 ?i ws ri' h) (voting h0)" for ws ri
  proof -
    have "hoare ((\<lambda>(_, ri') h. voting_on h0 ?i ws ri' h) (votes, ri)) (foldG (decide_witness P ?i) ws (votes, ri))
        (\<lambda>(_, ri') h. voting_on h0 ?i ws ri' h) (voting h0)"
      by (rule hoare_foldG) (auto intro: hoare_decide_witness)
    then show ?thesis by simp
  qed
  have fin: "hoare (voting_on h0 ?i ws ri)
      (let (decided, ri') = WitnessesDecided ps ri in
       bindG (onStore (SetRound ?i ri')) (\<lambda>_. okG (vs, if decided then ds @ [?i] else ds)))
      (\<lambda>_. voting h0) (voting h0)" for ws ri ps vs
  proof -
    have set: "voting_on h0 ?i ws (snd (WitnessesDecided ps ri)) h'"
      if v: "voting_on h0 ?i ws ri h" and run: "onStore (SetRound ?i (snd (WitnessesDecided ps ri))) h = (q, h')" for h q h'
    proof (rule voting_on_write [OF v])
      have ri: "round_at h ?i = Some ri" "rd_wf ri" "lru_inv (is_roundCache (h_Store h))"
        using v by (auto simp: voting_on_def voting_def rounds_ok_def)
      show "round_at h' = (round_at h)(?i \<mapsto> snd (WitnessesDecided ps ri))"
        using run lru_lookup_Add_room [OF ri(3), of ?i] ri(1)
        by (auto simp: onStore_def SetRound_def round_at_def)
      show "lru_inv (is_roundCache (h_Store h'))" using run ri(3)
        by (auto simp: onStore_def SetRound_def lru_inv_Add)
    qed (use v in \<open>auto simp: decided_fame_def voting_on_def voting_def rounds_ok_def\<close>)
    have out: "voting h0 h'"
      if "voting_on h0 ?i ws ri h" and "onStore (SetRound ?i (snd (WitnessesDecided ps ri))) h = (q, h')" for h q h'
      using set [OF that] by (simp only: voting_on_def)
    have "hoare (voting_on h0 ?i ws ri) (onStore (SetRound ?i (snd (WitnessesDecided ps ri))))
        (\<lambda>_. voting h0) (voting h0)"
      by (rule hoareI) (erule (1) out)+
    then show ?thesis unfolding Let_def split_beta
      by (rule hoare_bind) (simp add: hoare_def go_defs)
  qed
  show ?thesis unfolding decide_round_def acc prod.case
    by (simp only: Let_def [of "pr_Index r"],
        rule hoare_bind [OF hoare_GetRound [OF voting_rsame]], assumption, assumption, assumption,
        rule hoare_bind [OF start], rule hoare_bind [OF loop], simp only: split_beta)
      (rule fin)
qed

lemma hoare_DecideFame: "hoare (voting h0) (DecideFame P) (\<lambda>_. voting h0) (voting h0)"
proof -
  have pending: "hoare (voting h0) (getsG f) (\<lambda>_. voting h0) (voting h0)" for f
    by (rule hoareI) (auto simp: go_defs)
  have loop: "hoare (voting h0) (foldG (decide_round P) rs acc) (\<lambda>_. voting h0) (voting h0)" for rs acc
    using hoare_foldG [of rs "\<lambda>_. voting h0" "decide_round P" "voting h0" acc] hoare_decide_round by blast
  have update: "hoare (voting h0) (modifyG (\<lambda>h. h\<lparr>h_PendingRounds := f h\<rparr>)) (\<lambda>_. voting h0) (voting h0)" for f
    by (rule hoareI) (auto simp: go_defs voting_def rounds_ok_def fame_kept_def round_at_def)
  show ?thesis unfolding DecideFame_def split_beta
    by (rule hoare_bind [OF pending], rule hoare_bind [OF loop], rule update)
qed

lemma voting_DecideFame: "rounds_ok h \<Longrightarrow> DecideFame P h = (r, h') \<Longrightarrow> voting h h'"
  using hoare_DecideFame [of h P] by (cases r) (auto simp: hoare_def voting_def fame_kept_def split_beta)

text \<open>C2: The fame of a witness is final.  Whatever \<open>DecideFame\<close> does on a hashgraph whose round table
  is well-formed, also when it stops at an error in the middle of its loops, every round of the
  table is still there, and a witness whose fame was decided in it, famous or not, keeps that verdict.\<close>

theorem fame_is_final:
  assumes "rounds_ok h" and "DecideFame P h = (r, h')"
    and "round_at h i = Some ri" and "decided_fame ri x re"
  shows "\<exists>ri'. round_at h' i = Some ri' \<and> decided_fame ri' x re"
  using voting_DecideFame [OF assms(1,2)] assms(3,4) unfolding voting_def fame_kept_def by blast

lemma rounds_ok_SetRound:
  assumes "rounds_ok h" and "rd_wf ri"
  shows "rounds_ok (snd (onStore (SetRound i ri) h))"
  using assms lru_lookup_Add_sound [of "is_roundCache (h_Store h)" i ri]
  by (auto simp: rounds_ok_def onStore_def SetRound_def round_at_def lru_inv_Add)

definition sample_round :: RoundInfo where
  "sample_round = AddCreatedEvent ''b'' True (SetFame ''a'' True (AddCreatedEvent ''a'' True NewRoundInfo))"

definition sample_voting :: hashgraph where
  "sample_voting = snd (onStore (SetRound 0 sample_round)
     (sample_h0\<lparr>h_PendingRounds := prc_Set \<lparr>pr_Index = 0, pr_Decided = False\<rparr> NewPendingRoundsCache\<rparr>))"

lemma rounds_ok_sample: "rounds_ok sample_voting"
  unfolding sample_voting_def
proof (rule rounds_ok_SetRound)
  have "is_roundCache (h_Store sample_h0) = NewLRU 10" by code_simp
  then show "rounds_ok (sample_h0\<lparr>h_PendingRounds := prc_Set \<lparr>pr_Index = 0, pr_Decided = False\<rparr> NewPendingRoundsCache\<rparr>)"
    by (simp add: rounds_ok_def round_at_def lru_inv_New) (simp add: lru_lookup_def NewLRU_def)
qed (simp add: sample_round_def)

theorem fame_is_final_witness:
  "\<exists>ri'. round_at (snd (DecideFame sample_crypto sample_voting)) 0 = Some ri'
     \<and> decided_fame ri' ''a'' \<lparr>re_Witness = True, re_Famous = TTrue\<rparr>"
proof -
  have 1: "round_at sample_voting 0 = Some sample_round" by code_simp
  have 2: "decided_fame sample_round ''a'' \<lparr>re_Witness = True, re_Famous = TTrue\<rparr>" by code_simp
  obtain r h' where "DecideFame sample_crypto sample_voting = (r, h')" by fastforce
  then show ?thesis using fame_is_final [OF rounds_ok_sample _ 1 2] by simp
qed

end
