(* ===== verification/Reads.thy ===== *)
theory Reads
  imports Hashgraph_Frame
begin

text \<open>
  The methods of the hashgraph that only read. They may refresh the recency of cache entries and fill
  memo tables; every other part of the state, and what the caches answer, is unchanged. \<open>reads\<close> is
  this relation, and it implies the frames that the later theories need: of the rounds, of the blocks,
  of the client's part of the state.
\<close>

definition same_answers :: "('k, 'v) LRU \<Rightarrow> ('k, 'v) LRU \<Rightarrow> bool" where
  "same_answers c c' \<longleftrightarrow>
     lru_lookup c' = lru_lookup c \<and> lru_size c' = lru_size c \<and>
     (lru_inv c \<longrightarrow> lru_inv c' \<and> lru_Len c' = lru_Len c)"

lemma same_answers_refl [simp]: "same_answers c c"
  by (simp add: same_answers_def)

lemma same_answers_trans: "same_answers a b \<Longrightarrow> same_answers b c \<Longrightarrow> same_answers a c"
  by (auto simp: same_answers_def)

lemma same_answers_touch [simp]: "same_answers c (lru_touch k c)"
  by (simp add: same_answers_def lru_inv_Get lru_touch_length)

definition store_reads :: "InmemStore \<Rightarrow> InmemStore \<Rightarrow> bool" where
  "store_reads s s' \<longleftrightarrow>
     same_answers (is_eventCache s) (is_eventCache s') \<and> same_answers (is_roundCache s) (is_roundCache s') \<and>
     same_answers (is_blockCache s) (is_blockCache s') \<and> same_answers (is_frameCache s) (is_frameCache s') \<and>
     s'\<lparr>is_eventCache := is_eventCache s, is_roundCache := is_roundCache s,
       is_blockCache := is_blockCache s, is_frameCache := is_frameCache s\<rparr> = s"

definition reads :: "'c hashgraph_scheme \<Rightarrow> 'c hashgraph_scheme \<Rightarrow> bool" where
  "reads h h' \<longleftrightarrow>
     store_reads (h_Store h) (h_Store h') \<and>
     h'\<lparr>h_Store := h_Store h, h_ancestorCache := h_ancestorCache h, h_selfAncestorCache := h_selfAncestorCache h,
       h_stronglySeeCache := h_stronglySeeCache h, h_roundCache := h_roundCache h,
       h_timestampCache := h_timestampCache h, h_witnessCache := h_witnessCache h\<rparr> = h"

lemma store_reads_trans: "store_reads s t \<Longrightarrow> store_reads t u \<Longrightarrow> store_reads s u"
  unfolding store_reads_def
  by (intro conjI) (blast intro: same_answers_trans, blast intro: same_answers_trans,
      blast intro: same_answers_trans, blast intro: same_answers_trans, (cases s; cases t; cases u; simp))

interpretation rd: frame_rel reads
proof
  fix s :: "'c hashgraph_scheme"
  show "reads s s" by (simp add: reads_def store_reads_def)
next
  fix s t u :: "'c hashgraph_scheme"
  assume st: "reads s t" and tu: "reads t u"
  have "store_reads (h_Store s) (h_Store u)" using st tu unfolding reads_def by (blast intro: store_reads_trans)
  then show "reads s u" using st tu unfolding reads_def by (cases s; cases t; cases u; simp)
qed

named_theorems reads_intro \<open>methods that only read\<close>

lemma keeps_reads_onStore: "(\<And>s. store_reads s (snd (m s))) \<Longrightarrow> keeps reads (onStore m)"
  by (simp add: keeps_def reads_def onStore_def split_beta)

lemma keeps_reads_store [reads_intro]:
  "keeps reads (onStore (GetEvent x))" "keeps reads (onStore (GetRound r))" "keeps reads (onStore (GetBlock b))"
  "keeps reads (onStore (store_GetFrame f))" "keeps reads (onStore (GetPeerSet r))"
  "keeps reads (onStore (ParticipantEvent p i))" "keeps reads (onStore (ParticipantEvents p i))"
  "keeps reads (onStore (LastEventFrom p))" "keeps reads (onStore (LastConsensusEventFrom p))"
  "keeps reads (onStore GetAllPeerSets)"
  by (rule keeps_reads_onStore; simp add: store_reads_def GetEvent_def GetRound_def GetBlock_def store_GetFrame_def
      GetPeerSet_def ParticipantEvent_def ParticipantEvents_def LastEventFrom_def LastConsensusEventFrom_def
      GetAllPeerSets_def split_beta)+

lemma keeps_reads_memo:
  assumes "keeps reads m" and "\<And>c h. reads h (set_cache c h)"
  shows "keeps reads (memoG cache set_cache k m)"
proof (rule keepsI)
  fix h r h'
  assume "memoG cache set_cache k m h = (r, h')"
  then show "reads h h'"
  proof (cases rule: memoG_cases)
    case (hit v)
    then show ?thesis using assms(2) by simp
  next
    case (computed a h1)
    have "reads h h1" using rd.frame_trans [OF assms(2) keepsD [OF assms(1) computed(2)]] .
    then show ?thesis using rd.frame_trans [OF _ assms(2)] computed(4) by blast
  next
    case failed
    then show ?thesis using rd.frame_trans [OF assms(2) keepsD [OF assms(1) failed(2)]] by simp
  qed
qed

lemma reads_memo_tables [simp]:
  "reads h (h\<lparr>h_ancestorCache := a\<rparr>)" "reads h (h\<lparr>h_selfAncestorCache := a\<rparr>)"
  "reads h (h\<lparr>h_stronglySeeCache := ss\<rparr>)" "reads h (h\<lparr>h_roundCache := ro\<rparr>)"
  "reads h (h\<lparr>h_timestampCache := ro\<rparr>)" "reads h (h\<lparr>h_witnessCache := wi\<rparr>)"
  by (simp_all add: reads_def store_reads_def)

lemma keeps_reads_ancestor [reads_intro]:
  "keeps reads (ancestor x y)" "keeps reads (see x y)" "keeps reads (selfAncestor x y)" "keeps reads (stronglySee P x y ps)"
  unfolding ancestor_def see_def selfAncestor_def stronglySee_def ancestor_raw_def selfAncestor_raw_def stronglySee_raw_def
  by (intro keeps_reads_memo rd.keeps_basic keeps_rules reads_intro reads_memo_tables)+

lemma keeps_reads_round_fuel: "keeps reads (round_fuel P n x)"
proof (induction n arbitrary: x)
  case 0
  show ?case by (simp add: rd.keeps_lift)
next
  case (Suc n)
  show ?case unfolding round_fuel.simps round_raw_def parent_round_def count_stronglySeen_def
    by (intro keeps_reads_memo rd.keeps_basic keeps_rules reads_intro reads_memo_tables Suc)
qed

lemma keeps_reads_lamport_fuel: "keeps reads (lamport_fuel n x)"
proof (induction n arbitrary: x)
  case 0
  show ?case by (simp add: rd.keeps_lift)
next
  case (Suc n)
  show ?case unfolding lamport_fuel.simps lamportTimestamp_raw_def
    by (intro keeps_reads_memo rd.keeps_basic keeps_rules reads_intro reads_memo_tables Suc)
qed

lemma keeps_reads_round [reads_intro]:
  "keeps reads (hg_round P x)" "keeps reads (lamportTimestamp x)"
  unfolding hg_round_def [abs_def] lamportTimestamp_def [abs_def]
  by (rule keeps_run, rule keeps_reads_round_fuel, rule keeps_run, rule keeps_reads_lamport_fuel)

lemma keeps_reads_witness [reads_intro]: "keeps reads (witness P x)"
  unfolding witness_def witness_raw_def
  by (intro keeps_reads_memo rd.keeps_basic keeps_rules reads_intro reads_memo_tables)

lemma keeps_reads_roundDiff [reads_intro]: "keeps reads (roundDiff P x y)" "keeps reads (roundReceived x)"
  unfolding roundDiff_def roundReceived_def
  by (intro rd.keeps_basic keeps_rules reads_intro)+

lemma keeps_reads_checks [reads_intro]:
  "keeps reads (checkSelfParent e)" "keeps reads (checkOtherParent e)" "keeps reads (initEventCoordinates P e)"
  "keeps reads (hg_SetWireInfo e)" "keeps reads (ReadWireInfo w)"
  unfolding checkSelfParent_def checkOtherParent_def initEventCoordinates_def hg_SetWireInfo_def ReadWireInfo_def
  by (intro rd.keeps_basic keeps_rules reads_intro)+

lemma keeps_reads_seen [reads_intro]:
  "keeps reads (stronglySeen P y ps ws)" "keeps reads (famous_that_see x fws)"
  unfolding stronglySeen_def famous_that_see_def by (intro rd.keeps_basic keeps_rules reads_intro)+

lemma keeps_reads_frame_parts [reads_intro]:
  "keeps reads (createFrameEvent P x)" "keeps reads (witness_timestamps fws)"
  unfolding createFrameEvent_def witness_timestamps_def by (intro rd.keeps_basic keeps_rules reads_intro)+

lemma keeps_reads_createRoot [reads_intro]: "keeps reads (createRoot P p head)"
  unfolding createRoot_def by (intro rd.keeps_basic keeps_rules reads_intro)

lemma keeps_reads_frame_lists [reads_intro]:
  "keeps reads (frame_events P xs)" "keeps reads (roots_of_events P es)" "keeps reads (roots_of_others P rr roots)"
  unfolding frame_events_def roots_of_events_def roots_of_others_def
  by (intro rd.keeps_basic keeps_rules reads_intro)+

section \<open>What reading keeps\<close>

lemma readsD:
  assumes "reads h h'"
  shows "lru_lookup (is_roundCache (h_Store h')) = lru_lookup (is_roundCache (h_Store h))"
    and "lru_lookup (is_blockCache (h_Store h')) = lru_lookup (is_blockCache (h_Store h))"
    and "lru_lookup (is_frameCache (h_Store h')) = lru_lookup (is_frameCache (h_Store h))"
    and "lru_lookup (is_eventCache (h_Store h')) = lru_lookup (is_eventCache (h_Store h))"
    and "is_lastRound (h_Store h') = is_lastRound (h_Store h)"
    and "is_lastBlock (h_Store h') = is_lastBlock (h_Store h)"
    and "is_peerSetCache (h_Store h') = is_peerSetCache (h_Store h)"
    and "is_participantEventsCache (h_Store h') = is_participantEventsCache (h_Store h)"
    and "h_UndeterminedEvents h' = h_UndeterminedEvents h"
    and "h_PendingRounds h' = h_PendingRounds h" and "h_PendingSignatures h' = h_PendingSignatures h"
    and "h_LastConsensusRound h' = h_LastConsensusRound h" and "h_AnchorBlock h' = h_AnchorBlock h"
    and "h_roundLowerBound h' = h_roundLowerBound h"
    and "hashgraph.more h' = hashgraph.more h"
proof -
  have s: "same_answers (is_eventCache (h_Store h)) (is_eventCache (h_Store h'))"
    "same_answers (is_roundCache (h_Store h)) (is_roundCache (h_Store h'))"
    "same_answers (is_blockCache (h_Store h)) (is_blockCache (h_Store h'))"
    "same_answers (is_frameCache (h_Store h)) (is_frameCache (h_Store h'))"
    using assms by (simp_all add: reads_def store_reads_def)
  then show "lru_lookup (is_roundCache (h_Store h')) = lru_lookup (is_roundCache (h_Store h))"
    "lru_lookup (is_blockCache (h_Store h')) = lru_lookup (is_blockCache (h_Store h))"
    "lru_lookup (is_frameCache (h_Store h')) = lru_lookup (is_frameCache (h_Store h))"
    "lru_lookup (is_eventCache (h_Store h')) = lru_lookup (is_eventCache (h_Store h))"
    by (simp_all add: same_answers_def)
  have eq: "h'\<lparr>h_Store := h_Store h, h_ancestorCache := h_ancestorCache h, h_selfAncestorCache := h_selfAncestorCache h,
       h_stronglySeeCache := h_stronglySeeCache h, h_roundCache := h_roundCache h,
       h_timestampCache := h_timestampCache h, h_witnessCache := h_witnessCache h\<rparr> = h"
    and seq: "(h_Store h')\<lparr>is_eventCache := is_eventCache (h_Store h), is_roundCache := is_roundCache (h_Store h),
       is_blockCache := is_blockCache (h_Store h), is_frameCache := is_frameCache (h_Store h)\<rparr> = h_Store h"
    using assms by (simp_all add: reads_def store_reads_def)
  show "is_lastRound (h_Store h') = is_lastRound (h_Store h)" "is_lastBlock (h_Store h') = is_lastBlock (h_Store h)"
    "is_peerSetCache (h_Store h') = is_peerSetCache (h_Store h)"
    "is_participantEventsCache (h_Store h') = is_participantEventsCache (h_Store h)"
    using arg_cong [OF seq, of is_lastRound] arg_cong [OF seq, of is_lastBlock]
      arg_cong [OF seq, of is_peerSetCache] arg_cong [OF seq, of is_participantEventsCache] by simp_all
  show "h_UndeterminedEvents h' = h_UndeterminedEvents h"
    "h_PendingRounds h' = h_PendingRounds h" "h_PendingSignatures h' = h_PendingSignatures h"
    "h_LastConsensusRound h' = h_LastConsensusRound h" "h_AnchorBlock h' = h_AnchorBlock h"
    "h_roundLowerBound h' = h_roundLowerBound h" "hashgraph.more h' = hashgraph.more h"
    using arg_cong [OF eq, of h_UndeterminedEvents] arg_cong [OF eq, of h_PendingRounds]
      arg_cong [OF eq, of h_PendingSignatures] arg_cong [OF eq, of h_LastConsensusRound]
      arg_cong [OF eq, of h_AnchorBlock] arg_cong [OF eq, of h_roundLowerBound]
      arg_cong [OF eq, of hashgraph.more] by simp_all
qed

end
