(* ===== verification/Ordering.thy ===== *)
theory Ordering
  imports Reads "HOL-Library.Sublist"
begin

text \<open>
  \<open>ProcessDecidedRounds\<close>: the decided rounds at the front of the queue are processed in order, and the
  blocks that reach the commit callback are numbered consecutively, in the order of their rounds.

  The callback is any client that does not touch the queue, the number of the last block or the
  frames. To speak about the blocks it receives, \<open>logged\<close> adds each of them to a log in the client's
  part of the state before the client sees it.
\<close>

record blocklog = hashgraph +
  lg_blocks :: "Block list"

definition logged :: "(Block \<Rightarrow> ('d blocklog_scheme, unit) go) \<Rightarrow> Block \<Rightarrow> ('d blocklog_scheme, unit) go" where
  "logged cb b = bindG (modifyG (\<lambda>h. h\<lparr>lg_blocks := lg_blocks h @ [b]\<rparr>)) (\<lambda>_. cb b)"

abbreviation last_block :: "'c hashgraph_scheme \<Rightarrow> int" where
  "last_block h \<equiv> is_lastBlock (h_Store h)"

text \<open>Every cached frame is cached under its own round.\<close>

definition frames_keyed :: "'c hashgraph_scheme \<Rightarrow> bool" where
  "frames_keyed h \<longleftrightarrow>
     lru_inv (is_frameCache (h_Store h)) \<and>
     (\<forall>i f. lru_lookup (is_frameCache (h_Store h)) i = Some f \<longrightarrow> fr_Round f = i)"

text \<open>No block is committed, and the queue stays.\<close>

definition quiet :: "'d blocklog_scheme \<Rightarrow> 'd blocklog_scheme \<Rightarrow> bool" where
  "quiet h h' \<longleftrightarrow>
     lg_blocks h' = lg_blocks h \<and> last_block h' = last_block h \<and> h_PendingRounds h' = h_PendingRounds h \<and>
     (frames_keyed h \<longrightarrow> frames_keyed h')"

interpretation qt: frame_rel quiet
  by unfold_locales (auto simp: quiet_def)

lemma quiet_reads: "reads h h' \<Longrightarrow> quiet h h'"
proof -
  assume rd: "reads h h'"
  have "same_answers (is_frameCache (h_Store h)) (is_frameCache (h_Store h'))"
    using rd by (simp add: reads_def store_reads_def)
  then have "frames_keyed h \<longrightarrow> frames_keyed h'" by (simp add: frames_keyed_def same_answers_def)
  moreover have "lg_blocks h' = lg_blocks h"
    using readsD(15) [OF rd] by (cases h; cases h') simp
  ultimately show ?thesis using readsD(6,10) [OF rd] by (simp add: quiet_def)
qed

named_theorems quiet_intro \<open>statements that commit nothing\<close>

lemma keeps_quiet_reads [quiet_intro]: "keeps reads m \<Longrightarrow> keeps quiet m"
  by (auto simp: keeps_def intro: quiet_reads)

lemma keeps_quiet_store:
  assumes "\<And>s. is_lastBlock (snd (m s)) = is_lastBlock s" and "\<And>s. is_frameCache (snd (m s)) = is_frameCache s"
  shows "keeps quiet (onStore m)"
  using assms by (simp add: keeps_def quiet_def onStore_def split_beta frames_keyed_def)

lemma keeps_quiet_modify:
  assumes "\<And>h. h_Store (f h) = h_Store h" and "\<And>h. lg_blocks (f h) = lg_blocks h"
    and "\<And>h. h_PendingRounds (f h) = h_PendingRounds h"
  shows "keeps quiet (modifyG f)"
  using assms by (simp add: keeps_def quiet_def go_defs frames_keyed_def)

lemma GetFrame_run:
  "store_GetFrame i s =
     ((case lru_lookup (is_frameCache s) i of None \<Rightarrow> Err (NewStoreErr ''FrameCache'' KeyNotFound (itoa i)) | Some f \<Rightarrow> Ok f),
      s\<lparr>is_frameCache := lru_touch i (is_frameCache s)\<rparr>)"
  by (simp add: store_GetFrame_def split_beta)

lemma SetFrame_run: "SetFrame f s = (Ok (), put_frame f (s\<lparr>is_frameCache := lru_touch (fr_Round f) (is_frameCache s)\<rparr>))"
  by (auto simp: SetFrame_def tryG_def GetFrame_run go_defs NewStoreErr_def split: option.splits)

lemma frames_keyed_SetFrame: "frames_keyed h \<Longrightarrow> frames_keyed (snd (onStore (SetFrame f) h))"
  using lru_lookup_Add_sound [OF lru_inv_Get [of "is_frameCache (h_Store h)" "fr_Round f"], of "fr_Round f" f]
  by (auto simp: frames_keyed_def onStore_def SetFrame_run put_frame_def lru_inv_Add lru_inv_Get)

lemma keeps_quiet_SetFrame [quiet_intro]: "keeps quiet (onStore (SetFrame f))"
  using frames_keyed_SetFrame
  by (auto simp: keeps_def quiet_def) (auto simp: onStore_def SetFrame_run put_frame_def)

lemma keeps_quiet_GetFrame [quiet_intro]: "keeps quiet (hg_GetFrame P rr)"
  unfolding hg_GetFrame_def Let_def by (intro qt.keeps_basic keeps_rules quiet_intro reads_intro)

lemma keeps_quiet_wrap [quiet_intro]: "keeps quiet m \<Longrightarrow> keeps quiet (wrapG msg m)"
  unfolding wrapG_def by (intro qt.keeps_basic keeps_rules)

lemma keeps_quiet_commit_events [quiet_intro]: "keeps quiet (commit_events P es)"
  unfolding commit_events_def
  by (intro qt.keeps_basic keeps_quiet_store keeps_quiet_modify) (simp_all add: AddConsensusEvent_def split_beta)

lemma keeps_quiet_setLast [quiet_intro]: "keeps quiet (setLastConsensusRound i)"
  unfolding setLastConsensusRound_def by (intro keeps_quiet_modify) simp_all

text \<open>The frame of a round is a frame of that round.\<close>

lemma GetFrame_round:
  assumes "frames_keyed h" and "hg_GetFrame P rr h = (Ok f, h')"
  shows "fr_Round f = rr"
proof (cases "lru_lookup (is_frameCache (h_Store h)) rr")
  case None
  then show ?thesis using assms(2)
    by (auto simp: hg_GetFrame_def tryG_def onStore_def GetFrame_run bindG_eq_Ok go_defs Let_def NewStoreErr_def)
next
  case (Some g)
  then show ?thesis using assms by (auto simp: hg_GetFrame_def tryG_def onStore_def GetFrame_run go_defs frames_keyed_def)
qed

section \<open>One round\<close>

lemma GetBlock_run:
  "GetBlock i s =
     ((case lru_lookup (is_blockCache s) i of None \<Rightarrow> Err (NewStoreErr ''BlockCache'' KeyNotFound (itoa i)) | Some b \<Rightarrow> Ok b),
      s\<lparr>is_blockCache := lru_touch i (is_blockCache s)\<rparr>)"
  by (simp add: GetBlock_def split_beta)

lemma SetBlock_run:
  "SetBlock b s = (Ok (), s\<lparr>is_blockCache := lru_add (bl_Index b) b (lru_touch (bl_Index b) (is_blockCache s)),
     is_lastBlock := max (bl_Index b) (is_lastBlock s)\<rparr>)"
  by (auto simp: SetBlock_def Let_def tryG_def GetBlock_run go_defs NewStoreErr_def max_def split: option.splits)

text \<open>What the processing of the round \<open>i\<close> may add to the log: nothing, or the next block.\<close>

definition commits :: "int \<Rightarrow> 'd blocklog_scheme \<Rightarrow> 'd blocklog_scheme \<Rightarrow> bool" where
  "commits i h h' \<longleftrightarrow>
     h_PendingRounds h' = h_PendingRounds h \<and> frames_keyed h' \<and>
     ((lg_blocks h' = lg_blocks h \<and> last_block h' = last_block h) \<or>
      (\<exists>b. lg_blocks h' = lg_blocks h @ [b] \<and> last_block h' = last_block h + 1 \<and>
         bl_Index b = last_block h + 1 \<and> bl_RoundReceived b = i \<and>
         (bb_Transactions (bl_Body b) \<noteq> [] \<or> bb_InternalTransactions (bl_Body b) \<noteq> [])))"

lemma commits_quiet: "frames_keyed h \<Longrightarrow> quiet h h' \<Longrightarrow> commits i h h'"
  by (simp add: commits_def quiet_def)

lemma commits_before: "quiet h h1 \<Longrightarrow> commits i h1 h' \<Longrightarrow> commits i h h'"
  by (auto simp: commits_def quiet_def)

lemma commits_after: "commits i h h1 \<Longrightarrow> quiet h1 h' \<Longrightarrow> commits i h h'"
  by (auto simp: commits_def quiet_def)

lemma quiet_keyed: "quiet h h' \<Longrightarrow> frames_keyed h \<Longrightarrow> frames_keyed h'"
  by (simp add: quiet_def)

lemma commits_commit_block:
  assumes cb: "\<And>b. keeps quiet (cb b)" and keyed: "frames_keyed h" and i: "fr_Round f = i"
    and run: "commit_block P (logged cb) f h = (r, h')"
  shows "commits i h h'"
proof -
  let ?b = "NewBlockFromFrame P (last_block h + 1) f"
  show ?thesis
  proof (cases "bb_Transactions (bl_Body ?b) \<noteq> [] \<or> bb_InternalTransactions (bl_Body ?b) \<noteq> []")
    case False
    then have "h' = h" using run by (simp add: commit_block_def Let_def go_defs)
    then show ?thesis using keyed by (simp add: commits_quiet qt.frame_refl)
  next
    case True
    let ?h1 = "snd (onStore (SetBlock ?b) h)"
    let ?h2 = "?h1\<lparr>lg_blocks := lg_blocks ?h1 @ [?b]\<rparr>"
    have ok: "onStore (SetBlock ?b) h = (Ok (), ?h1)" by (simp add: onStore_def SetBlock_run)
    have "commits i h ?h2"
      using True keyed i by (auto simp: commits_def onStore_def SetBlock_run frames_keyed_def)
    moreover have "quiet ?h2 h'"
    proof -
      have "tryG (logged cb ?b) (\<lambda>_. okG ()) ?h1 = (r, h')"
        using run True ok by (simp add: commit_block_def Let_def bindG_run)
      then have "h' = snd (cb ?b ?h2)"
        by (auto simp: tryG_def logged_def go_defs split: prod.splits outcome.splits)
      then show ?thesis using cb [of ?b] by (simp add: keeps_def)
    qed
    ultimately show ?thesis by (rule commits_after)
  qed
qed

lemma commits_bind:
  assumes "\<And>r h1. m h = (r, h1) \<Longrightarrow> commits i h h1" and "\<And>a. keeps quiet (k a)" and "bindG m k h = (r, h')"
  shows "commits i h h'"
  using assms(3)
proof (cases rule: bindG_cases)
  case (ok a h1)
  show ?thesis using assms(1) [OF ok(1)] keepsD [OF assms(2) ok(2)] by (rule commits_after)
next
  case (fail r')
  then show ?thesis using assms(1) by blast
qed

lemma commits_bind_quiet:
  assumes "keeps quiet m" and "frames_keyed h" and "bindG m k h = (r, h')"
    and "\<And>a h1. m h = (Ok a, h1) \<Longrightarrow> frames_keyed h1 \<Longrightarrow> k a h1 = (r, h') \<Longrightarrow> commits i h1 h'"
  shows "commits i h h'"
  using assms(3)
proof (cases rule: bindG_cases)
  case (ok a h1)
  have q: "quiet h h1" using assms(1) ok(1) by (rule keepsD)
  show ?thesis by (rule commits_before [OF q assms(4) [OF ok(1) quiet_keyed [OF q assms(2)] ok(2)]])
next
  case (fail r')
  then show ?thesis using commits_quiet [OF assms(2) keepsD [OF assms(1) fail(1)]] by simp
qed

lemma commits_process_round:
  assumes cb: "\<And>b. keeps quiet (cb b)" and keyed: "frames_keyed h"
    and run: "process_round P (logged cb) i h = (r, h')"
  shows "commits i h h'"
proof (rule commits_bind_quiet [OF _ keyed run [unfolded process_round_def]], goal_cases)
  case 1
  show ?case by (intro quiet_intro reads_intro)
next
  case (2 a h1)
  show ?case
  proof (rule commits_bind_quiet [OF _ 2(2,3)], goal_cases)
    case 1
    show ?case by (intro quiet_intro)
  next
    case frame: (2 frame h2)
    have round: "fr_Round frame = i"
      using frame(1) by (auto simp: wrapG_def tryG_def go_defs split: prod.splits outcome.splits
          dest: GetFrame_round [OF 2(2)])
    show ?case
    proof (rule commits_bind [OF _ _ frame(3)], goal_cases)
      case body: (1 r1 h3)
      show ?case
      proof (cases "length (fr_Events frame) > 0")
        case False
        then have "h3 = h2" using body by (simp add: go_defs)
        then show ?thesis using frame(2) by (simp add: commits_quiet qt.frame_refl)
      next
        case True
        show ?thesis
        proof (rule commits_bind_quiet [OF keeps_quiet_commit_events frame(2) body [unfolded if_P [OF True]]], goal_cases)
          case (1 a h4)
          show ?case
            by (rule commits_bind [OF commits_commit_block [OF cb 1(2) round] _ 1(3)]) (auto intro: keeps_quiet_modify)
        qed
      qed
    next
      case (2 a)
      show ?case by (intro qt.keeps_basic keeps_rules quiet_intro)
    qed
  qed
qed

section \<open>The queue\<close>

text \<open>The blocks that are committed while the rounds \<open>rs\<close> are processed.\<close>

definition commits_list :: "int list \<Rightarrow> 'd blocklog_scheme \<Rightarrow> 'd blocklog_scheme \<Rightarrow> bool" where
  "commits_list rs h h' \<longleftrightarrow>
     h_PendingRounds h' = h_PendingRounds h \<and> frames_keyed h' \<and>
     (\<exists>bs. lg_blocks h' = lg_blocks h @ bs \<and>
        last_block h' = last_block h + int (length bs) \<and>
        map bl_Index bs = [last_block h + 1..last_block h'] \<and> subseq (map bl_RoundReceived bs) rs \<and>
        (\<forall>b \<in> set bs. bb_Transactions (bl_Body b) \<noteq> [] \<or> bb_InternalTransactions (bl_Body b) \<noteq> []))"

lemma commits_list_Nil: "frames_keyed h \<Longrightarrow> commits_list rs h h"
  by (auto simp: commits_list_def intro!: exI [of _ "[]"])

lemma commits_list_Cons:
  assumes "commits i h h1" and "commits_list rs h1 h'"
  shows "commits_list (i # rs) h h'"
proof -
  obtain bs where bs: "lg_blocks h' = lg_blocks h1 @ bs" "last_block h' = last_block h1 + int (length bs)"
    "map bl_Index bs = [last_block h1 + 1..last_block h']" "subseq (map bl_RoundReceived bs) rs"
    "\<forall>b \<in> set bs. bb_Transactions (bl_Body b) \<noteq> [] \<or> bb_InternalTransactions (bl_Body b) \<noteq> []"
    using assms(2) by (auto simp: commits_list_def)
  have rest: "h_PendingRounds h' = h_PendingRounds h" "frames_keyed h'"
    using assms by (simp_all add: commits_def commits_list_def)
  from assms(1) consider (none) "lg_blocks h1 = lg_blocks h" "last_block h1 = last_block h"
    | (some) b where "lg_blocks h1 = lg_blocks h @ [b]" "last_block h1 = last_block h + 1"
      "bl_Index b = last_block h + 1" "bl_RoundReceived b = i"
      "bb_Transactions (bl_Body b) \<noteq> [] \<or> bb_InternalTransactions (bl_Body b) \<noteq> []"
    by (auto simp: commits_def)
  then show ?thesis
  proof cases
    case none
    then show ?thesis using bs rest by (auto simp: commits_list_def intro!: exI [of _ bs])
  next
    case some
    have "map bl_Index (b # bs) = [last_block h + 1..last_block h']"
      using some bs(2,3) upto_rec1 [of "last_block h + 1" "last_block h'"] by (simp add: add.assoc)
    then show ?thesis using some bs rest by (auto simp: commits_list_def intro!: exI [of _ "b # bs"])
  qed
qed

lemma process_rounds_commits:
  assumes "\<And>b. keeps quiet (cb b)"
  shows "frames_keyed h \<Longrightarrow> process_rounds P (logged cb) rs processed h = (r, processed', h') \<Longrightarrow>
    commits_list (map pr_Index (takeWhile pr_Decided rs)) h h'"
proof (induction rs arbitrary: h processed)
  case Nil
  then show ?case by (simp add: commits_list_Nil)
next
  case (Cons q rs)
  show ?case
  proof (cases "pr_Decided q")
    case False
    then show ?thesis using Cons.prems by (simp add: commits_list_Nil)
  next
    case True
    obtain r1 h1 where step: "process_round P (logged cb) (pr_Index q) h = (r1, h1)" by fastforce
    have c: "commits (pr_Index q) h h1" by (rule commits_process_round [OF assms Cons.prems(1) step])
    then have keyed: "frames_keyed h1" by (simp add: commits_def)
    have "commits_list (map pr_Index (takeWhile pr_Decided rs)) h1 h'"
    proof (cases r1)
      case (Ok u)
      then show ?thesis using Cons.IH [OF keyed] Cons.prems(2) True step by simp
    qed (use Cons.prems(2) True step commits_list_Nil [OF keyed] in auto)
    then show ?thesis using commits_list_Cons [OF c] True by simp
  qed
qed

lemma process_rounds_prefix:
  "process_rounds P cb rs processed h = (r, processed', h') \<Longrightarrow>
   \<exists>k \<le> length (takeWhile pr_Decided rs). processed' = processed @ map pr_Index (take k rs) \<and>
     (r = Ok () \<longrightarrow> k = length (takeWhile pr_Decided rs))"
proof (induction rs arbitrary: h processed)
  case Nil
  then show ?case by simp
next
  case (Cons q rs)
  show ?case
  proof (cases "pr_Decided q")
    case False
    then show ?thesis using Cons.prems by simp
  next
    case True
    obtain r1 h1 where step: "process_round P cb (pr_Index q) h = (r1, h1)" by fastforce
    show ?thesis
    proof (cases r1)
      case (Ok u)
      then have "process_rounds P cb rs (processed @ [pr_Index q]) h1 = (r, processed', h')"
        using Cons.prems True step by simp
      then obtain k where "k \<le> length (takeWhile pr_Decided rs)"
        "processed' = processed @ [pr_Index q] @ map pr_Index (take k rs)"
        "r = Ok () \<longrightarrow> k = length (takeWhile pr_Decided rs)" using Cons.IH by fastforce
      then show ?thesis using True by (intro exI [of _ "Suc k"]) simp
    qed (use Cons.prems True step in \<open>auto intro!: exI [of _ 0]\<close>)
  qed
qed

lemma prc_Clean_prefix:
  assumes "prc_inv c"
  shows "prc_sortedItems (prc_Clean (map pr_Index (take k (prc_sortedItems c))) c) = drop k (prc_sortedItems c)"
proof -
  let ?q = "prc_sortedItems c" and ?d = "prc_Clean (map pr_Index (take k (prc_sortedItems c))) c"
  have q: "sorted (map pr_Index ?q)" "distinct (map pr_Index ?q)" using assms by (simp_all add: prc_inv_def)
  have d: "sorted (map pr_Index (prc_sortedItems ?d))" "distinct (map pr_Index (prc_sortedItems ?d))"
    using prc_inv_Clean [OF assms] by (simp_all only: prc_inv_def)
  have inj: "inj_on pr_Index (set ?q)" using q(2) by (simp add: distinct_map)
  have split: "?q = take k ?q @ drop k ?q" by simp
  have disj: "pr_Index ` set (take k ?q) \<inter> pr_Index ` set (drop k ?q) = {}"
    using q(2) by (metis append_take_drop_id distinct_append list.set_map map_append)
  have "set (prc_sortedItems ?d) = {pr \<in> set ?q. pr_Index pr \<notin> pr_Index ` set (take k ?q)}"
    using prc_Clean_sorted [OF assms] by simp
  also have "\<dots> = set (drop k ?q)"
  proof -
    have "set ?q = set (take k ?q) \<union> set (drop k ?q)" by (metis append_take_drop_id set_append)
    then show ?thesis using disj by (auto simp: disjoint_iff)
  qed
  finally have set: "set (prc_sortedItems ?d) = set (drop k ?q)" .
  have "sorted (map pr_Index (drop k ?q))" "distinct (map pr_Index (drop k ?q))"
    using q by (simp_all only: drop_map [symmetric] sorted_wrt_drop distinct_drop)
  then have "map pr_Index (prc_sortedItems ?d) = map pr_Index (drop k ?q)"
    using d set by (intro sorted_distinct_set_unique) (simp_all only: set_map)
  then show ?thesis
    using inj set set_drop_subset [of k ?q] by (intro map_inj_on [of pr_Index]) (simp_all add: inj_on_subset)
qed

lemma set_subseq: "subseq xs ys \<Longrightarrow> set xs \<subseteq> set ys"
  by (induction rule: list_emb.induct) auto

lemma sorted_wrt_subseq: "subseq xs ys \<Longrightarrow> sorted_wrt R ys \<Longrightarrow> sorted_wrt R xs"
  by (induction rule: list_emb.induct) (auto dest: list_emb_set)

section \<open>Properties\<close>

text \<open>C9: Blocks are committed in order. Whatever the outcome of \<open>ProcessDecidedRounds\<close>, the blocks it
  hands to the client are numbered consecutively from the last block, their rounds are strictly
  increasing rounds of the decided prefix of the queue, and none of them is empty.\<close>

theorem blocks_committed_in_order:
  assumes "frames_keyed h" and "prc_inv (h_PendingRounds h)" and "\<And>b. keeps quiet (cb b)"
    and "ProcessDecidedRounds P (logged cb) h = (r, h')"
  shows "\<exists>bs. lg_blocks h' = lg_blocks h @ bs \<and> map bl_Index bs = [last_block h + 1..last_block h'] \<and>
    sorted_wrt (<) (map bl_RoundReceived bs) \<and>
    set (map bl_RoundReceived bs) \<subseteq> pr_Index ` set (takeWhile pr_Decided (GetOrderedPendingRounds (h_PendingRounds h))) \<and>
    (\<forall>b \<in> set bs. bb_Transactions (bl_Body b) \<noteq> [] \<or> bb_InternalTransactions (bl_Body b) \<noteq> [])"
proof -
  let ?q = "GetOrderedPendingRounds (h_PendingRounds h)"
  obtain processed h1 where run: "process_rounds P (logged cb) ?q [] h = (r, processed, h1)"
    and h': "lg_blocks h' = lg_blocks h1" "last_block h' = last_block h1"
    using assms(4) by (auto simp: ProcessDecidedRounds_def split: prod.splits)
  obtain bs where bs: "lg_blocks h1 = lg_blocks h @ bs" "map bl_Index bs = [last_block h + 1..last_block h1]"
    "subseq (map bl_RoundReceived bs) (map pr_Index (takeWhile pr_Decided ?q))"
    "\<forall>b \<in> set bs. bb_Transactions (bl_Body b) \<noteq> [] \<or> bb_InternalTransactions (bl_Body b) \<noteq> []"
    using process_rounds_commits [OF assms(3,1) run] by (auto simp: commits_list_def)
  have "sorted_wrt (<) (map pr_Index ?q)"
    using assms(2) by (simp add: prc_inv_def GetOrderedPendingRounds_def strict_sorted_iff)
  then have "sorted_wrt (<) (map pr_Index (takeWhile pr_Decided ?q))"
    by (metis sorted_wrt_map sorted_wrt_append takeWhile_dropWhile_id)
  then have "sorted_wrt (<) (map bl_RoundReceived bs)" using bs(3) by (rule sorted_wrt_subseq [rotated])
  moreover have "set (map bl_RoundReceived bs) \<subseteq> pr_Index ` set (takeWhile pr_Decided ?q)"
    using set_subseq [OF bs(3)] by simp
  ultimately show ?thesis using bs(1,2,4) h' by (intro exI [of _ bs]) simp
qed


section \<open>Criteria that compute\<close>

lemma frames_keyed_iff:
  "frames_keyed h \<longleftrightarrow>
     lru_inv (is_frameCache (h_Store h)) \<and>
     list_all (\<lambda>(i, f). fr_Round f = i) (lru_evictList (is_frameCache (h_Store h)))"
  by (auto simp: frames_keyed_def lru_inv_def lru_lookup_def list_all_iff)

lemma prc_inv_criterion:
  assumes "sorted (map pr_Index (prc_sortedItems c))" and "distinct (map pr_Index (prc_sortedItems c))"
    and "distinct (map fst (prc_items c))" and "set (prc_items c) = set (map (\<lambda>pr. (pr_Index pr, pr)) (prc_sortedItems c))"
  shows "prc_inv c"
  using assms by (auto simp: prc_inv_def)

end
