(* ===== verification/Solo.thy ===== *)
theory Solo
  imports Reachable Ordering
begin

text \<open>
  A run of the whole algorithm on concrete data: one participant, four events in a chain, and the
  consensus pass after each of them. The fourth event decides the fame of the second one; the first
  event is received and a block is committed. The statements about consensus are applied to this run.
\<close>

lemma snd_bindG_reachable:
  assumes "hg_reachable P cb (snd (m h))" and "\<And>a. hg_reachable P cb (snd (m h)) \<Longrightarrow> hg_reachable P cb (snd (k a (snd (m h))))"
  shows "hg_reachable P cb (snd (bindG m k h))"
proof -
  obtain r h1 where m: "m h = (r, h1)" by fastforce
  then show ?thesis using assms by (cases r) (auto simp: bindG_run)
qed

lemma hg_run:
  assumes "hg_reachable P cb h" and "has_room h" and "indexed (dag h) e" and "no_collision P h e"
  shows "hg_reachable P cb (snd (InsertEventAndRunConsensus P cb e w h))"
  unfolding InsertEventAndRunConsensus_def
  by (intro snd_bindG_reachable hg_insert hg_divide hg_fame hg_received hg_process assms)

definition solo_event :: "int \<Rightarrow> string \<Rightarrow> Event" where
  "solo_event index selfParent = sample_event 1 index selfParent ''''"

definition solo_x :: "nat \<Rightarrow> string" where
  "solo_x n = rec_nat (Hex sample_crypto (solo_event 0 ''''))
     (\<lambda>k x. Hex sample_crypto (solo_event (int k + 1) x)) n"

definition solo_e :: "nat \<Rightarrow> Event" where
  "solo_e n = solo_event (int n) (if n = 0 then '''' else solo_x (n - 1))"

definition solo_h0 :: hashgraph where
  "solo_h0 = snd (hg_Init (NewPeerSet [sample_peer 1]) (NewHashgraph (NewInmemStore 10)))"

definition solo_step :: "nat \<Rightarrow> hashgraph \<Rightarrow> hashgraph" where
  "solo_step n h = snd (InsertEventAndRunConsensus sample_crypto sample_cb (solo_e n) True h)"

definition solo_fame :: "hashgraph \<Rightarrow> hashgraph" where
  "solo_fame h = snd (DecideFame sample_crypto (snd (DivideRounds sample_crypto
     (snd (InsertEvent sample_crypto (solo_e 3) True h)))))"

definition solo_ok :: "nat \<Rightarrow> hashgraph \<Rightarrow> bool" where
  "solo_ok n h \<longleftrightarrow> has_room h \<and> indexed (dag h) (solo_e n) \<and> no_collision sample_crypto h (solo_e n)"

definition solo_h3 :: hashgraph where
  "solo_h3 = solo_step 2 (solo_step 1 (solo_step 0 solo_h0))"

definition solo_h :: hashgraph where
  "solo_h = solo_fame solo_h3"

text \<open>The state before the last part of the fourth pass, with an empty log of blocks.\<close>

definition solo_log :: "hashgraph \<Rightarrow> blocklog" where
  "solo_log h = hashgraph.extend (snd (DecideRoundReceived sample_crypto h)) \<lparr>lg_blocks = []\<rparr>"

definition silent_cb :: "Block \<Rightarrow> (blocklog, unit) go" where
  "silent_cb b = okG ()"

definition solo_queue_ok :: "PendingRoundsCache \<Rightarrow> bool" where
  "solo_queue_ok c \<longleftrightarrow>
     sorted (map pr_Index (prc_sortedItems c)) \<and> distinct (map pr_Index (prc_sortedItems c)) \<and>
     distinct (map fst (prc_items c)) \<and> set (prc_items c) = set (map (\<lambda>pr. (pr_Index pr, pr)) (prc_sortedItems c))"

definition solo_frames_ok :: "blocklog \<Rightarrow> bool" where
  "solo_frames_ok h \<longleftrightarrow>
     lru_inv (is_frameCache (h_Store h)) \<and>
     list_all (\<lambda>(i, f). fr_Round f = i) (lru_evictList (is_frameCache (h_Store h)))"

lemma solo_run_raw:
  "let h1 = solo_step 0 solo_h0; h2 = solo_step 1 h1; h3 = solo_step 2 h2; h = solo_fame h3; g = solo_log h;
       out = ProcessDecidedRounds sample_crypto (logged silent_cb) g in
     solo_ok 0 solo_h0 \<and> solo_ok 1 h1 \<and> solo_ok 2 h2 \<and> solo_ok 3 h3 \<and>
     fst (receive_event sample_crypto (solo_x 0) [] h) = Ok [] \<and>
     solo_frames_ok g \<and> solo_queue_ok (h_PendingRounds g) \<and> last_block g = -1 \<and> lg_blocks g = [] \<and>
     map pr_Index (GetOrderedPendingRounds (h_PendingRounds g)) = [1, 2, 3] \<and>
     fst out = Ok () \<and> length (lg_blocks (snd out)) = 1 \<and> last_block (snd out) = 0"
  by code_simp

lemmas solo_run = solo_run_raw [unfolded Let_def, folded solo_h3_def, folded solo_h_def]

lemma solo_reachable: "hg_reachable sample_crypto sample_cb solo_h"
proof -
  have "hg_reachable sample_crypto sample_cb solo_h0"
    unfolding solo_h0_def
    by (rule hg_init, rule hg_new [where n = 10]) (simp add: hashgraph.defs NewHashgraph_def Let_def)
  then have "hg_reachable sample_crypto sample_cb solo_h3"
    unfolding solo_h3_def solo_step_def using solo_run
    by (intro hg_run) (simp_all add: solo_ok_def solo_step_def)
  then show ?thesis
    unfolding solo_h_def solo_fame_def using solo_run
    by (intro hg_fame hg_divide hg_insert) (simp_all add: solo_ok_def)
qed

definition solo_g :: blocklog where
  "solo_g = solo_log solo_h"

lemma solo_g_ok: "frames_keyed solo_g" "prc_inv (h_PendingRounds solo_g)" "keeps quiet (silent_cb b)"
  using solo_run
  by (simp_all add: solo_g_def frames_keyed_iff solo_frames_ok_def solo_queue_ok_def prc_inv_criterion
      silent_cb_def qt.keeps_ok)

theorem blocks_committed_in_order_witness:
  "\<exists>b. lg_blocks (snd (ProcessDecidedRounds sample_crypto (logged silent_cb) solo_g)) = [b] \<and> bl_Index b = 0 \<and>
     (bb_Transactions (bl_Body b) \<noteq> [] \<or> bb_InternalTransactions (bl_Body b) \<noteq> [])"
proof -
  obtain r h' where run: "ProcessDecidedRounds sample_crypto (logged silent_cb) solo_g = (r, h')" by fastforce
  have out: "length (lg_blocks h') = 1" "last_block h' = 0" "lg_blocks solo_g = []" "last_block solo_g = -1"
    using solo_run run by (simp_all add: solo_g_def)
  obtain bs where "lg_blocks h' = bs" "map bl_Index bs = [0..0]"
    "\<forall>b \<in> set bs. bb_Transactions (bl_Body b) \<noteq> [] \<or> bb_InternalTransactions (bl_Body b) \<noteq> []"
    using blocks_committed_in_order [OF solo_g_ok(1,2,3) run] out by auto
  then show ?thesis using out(1) run by (auto simp: length_Suc_conv)
qed


end
