(* ===== verification/Received.thy ===== *)
theory Received
  imports Solo
begin

text \<open>
  \<open>DecideRoundReceived\<close>: an event is received in a round only when the fame of the witnesses of that
  round is decided and all the famous ones, at least a super-majority, descend from the event. The
  events that are not received stay undetermined, in their order.
\<close>

section \<open>Seeing is reaching\<close>

lemma see_Ok:
  assumes "hg_inv P h" and "see w x h = (Ok b, h')"
  shows "b \<longleftrightarrow> reaches (dag h) w x"
proof -
  have pre: "hpre P (\<lambda>_. True) h" using assms(1) by (simp add: hg_inv_def hpre_def)
  have anc: "anc_fun (dag h) w x = Some b"
    using hframe_memo [OF memo_parts(1) keeps_hframe_ancestor_raw _ assms(2) [unfolded see_def ancestor_def],
        of P "\<lambda>_. True"] pre
    by (auto dest: ancestor_raw_anc_fun)
  show ?thesis
  proof (cases "w = x")
    case True
    then show ?thesis using anc by (simp add: anc_fun_def itself)
  next
    case False
    then obtain ew ex where "dag h w = Some ew" "dag h x = Some ex"
      using anc by (auto simp: anc_fun_def split: option.splits)
    moreover have "dag_wf (dag h) (chain_of (h_Store h))" using assms(1) by (simp add: hg_inv_def)
    ultimately show ?thesis using anc_fun_reaches [of "dag h"] anc by fastforce
  qed
qed

lemma see_view:
  assumes "hg_inv P h" and "see w x h = (r, h')"
  shows "hg_inv P h'" and "dag h' = dag h"
  using hframe_view [OF keepsD [OF keeps_hframe_ancestor assms(2) [unfolded see_def]] assms(1)] by simp_all

lemma famous_that_see_Ok:
  assumes "hg_inv P h" and "famous_that_see x fws h = (Ok s, h')"
  shows "s = filter (\<lambda>w. reaches (dag h) w x) fws"
proof -
  define f where "f = (\<lambda>w s. bindG (see w x) (\<lambda>sees. okG (if sees then s @ [w] else s)) :: ('a, string list) hg)"
  have "foldG f fws acc h = (Ok s, h') \<Longrightarrow> hg_inv P h \<Longrightarrow>
      s = acc @ filter (\<lambda>w. reaches (dag h) w x) fws" for acc
  proof (induction fws arbitrary: acc h)
    case Nil
    then show ?case by (simp add: go_defs)
  next
    case (Cons w fws)
    then obtain s1 h1 where first: "f w acc h = (Ok s1, h1)" and rest: "foldG f fws s1 h1 = (Ok s, h')"
      by (auto simp: bindG_eq_Ok)
    then obtain b where see: "see w x h = (Ok b, h1)" and s1: "s1 = (if b then acc @ [w] else acc)"
      by (auto simp: f_def bindG_eq_Ok go_defs)
    show ?case
      using Cons.IH [OF rest see_view(1) [OF Cons.prems(2) see]] see_view(2) [OF Cons.prems(2) see]
        see_Ok [OF Cons.prems(2) see] s1 by simp
  qed
  from this [of "[]"] show ?thesis using assms by (simp add: famous_that_see_def f_def)
qed

section \<open>The loop on rounds\<close>

text \<open>While the loop runs, the graph, the peer-sets and the created events stay; a round may be marked
  as decided, which does not change whether it is.\<close>

definition same_verdict :: "PeerSet res \<Rightarrow> RoundInfo \<Rightarrow> RoundInfo \<Rightarrow> bool" where
  "same_verdict ps ri ri' \<longleftrightarrow>
     rd_CreatedEvents ri' = rd_CreatedEvents ri \<and>
     (\<forall>p. ps = Ok p \<longrightarrow> fst (WitnessesDecided p ri') = fst (WitnessesDecided p ri))"

abbreviation peers_at :: "'c hashgraph_scheme \<Rightarrow> int \<Rightarrow> PeerSet res" where
  "peers_at h i \<equiv> psc_Get (is_peerSetCache (h_Store h)) i"

abbreviation stored_round :: "'c hashgraph_scheme \<Rightarrow> int \<Rightarrow> RoundInfo option" where
  "stored_round h \<equiv> lru_lookup (is_roundCache (h_Store h))"

definition looking :: "crypto \<Rightarrow> 'c hashgraph_scheme \<Rightarrow> 'c hashgraph_scheme \<Rightarrow> bool" where
  "looking P h0 h \<longleftrightarrow>
     hg_inv P h \<and> dag h = dag h0 \<and> is_peerSetCache (h_Store h) = is_peerSetCache (h_Store h0) \<and>
     (\<forall>i ri'. stored_round h i = Some ri' \<longrightarrow>
        (\<exists>ri. stored_round h0 i = Some ri \<and> same_verdict (peers_at h0 i) ri ri'))"

definition received_at :: "'c hashgraph_scheme \<Rightarrow> string \<Rightarrow> int \<Rightarrow> bool" where
  "received_at h x i \<longleftrightarrow>
     (\<exists>tr ps. stored_round h i = Some tr \<and> peers_at h i = Ok ps \<and> fst (WitnessesDecided ps tr) \<and>
        SuperMajority ps \<le> length (FamousWitnesses tr) \<and>
        (\<forall>w \<in> set (FamousWitnesses tr). reaches (dag h) w x))"

lemma looking_reads:
  assumes "looking P h0 h" and "keeps reads m" and "keeps (hframe P (\<lambda>_. True)) m" and "m h = (r, h')"
  shows "looking P h0 h'"
  using assms(1) readsD(1,7) [OF keepsD [OF assms(2,4)]] hframe_view(1,2) [OF keepsD [OF assms(3,4)]]
  by (simp add: looking_def)

lemma WitnessesDecided_again:
  "fst (WitnessesDecided ps (snd (WitnessesDecided ps ri))) = fst (WitnessesDecided ps ri)"
  by (auto simp: WitnessesDecided_def Let_def split: option.splits)

lemma same_verdict_mark:
  "same_verdict (Ok ps) ri ri' \<Longrightarrow> same_verdict (Ok ps) ri (snd (WitnessesDecided ps ri'))"
  by (simp add: same_verdict_def WitnessesDecided_again)

lemma looking_poke:
  assumes "looking P h0 h" and "stored_round h i = Some tr" and "peers_at h i = Ok ps"
    and "poke_round i (snd (WitnessesDecided ps tr)) h = (r, h')"
  shows "looking P h0 h'"
proof -
  have view: "hg_inv P h'" "dag h' = dag h"
    using hframe_view [OF keepsD [OF keeps_hframe_poke_round assms(4)]] assms(1) by (auto simp: looking_def)
  have h': "stored_round h' j = (if j = i then Some (snd (WitnessesDecided ps tr)) else stored_round h j)"
    "is_peerSetCache (h_Store h') = is_peerSetCache (h_Store h)" for j
    using assms(2,4) by (auto simp: poke_round_def go_defs)
  show ?thesis unfolding looking_def
  proof (intro conjI allI impI)
    fix j ri'
    assume j: "stored_round h' j = Some ri'"
    have "peers_at h0 i = Ok ps" using assms(1,3) by (simp add: looking_def)
    moreover obtain ri0 where ri0: "stored_round h0 i = Some ri0" "same_verdict (peers_at h0 i) ri0 tr"
      using assms(1,2) unfolding looking_def by blast
    ultimately have "same_verdict (peers_at h0 i) ri0 (snd (WitnessesDecided ps tr))" by (simp add: same_verdict_mark)
    then show "\<exists>ri. stored_round h0 j = Some ri \<and> same_verdict (peers_at h0 j) ri ri'"
      using ri0(1) assms(1) j h'(1) [of j] by (cases "j = i") (auto simp: looking_def)
  qed (use view h'(2) assms(1) in \<open>simp_all add: looking_def\<close>)
qed

lemma looking_received:
  assumes "looking P h0 h" and "stored_round h i = Some tr" and "peers_at h i = Ok ps"
    and "fst (WitnessesDecided ps tr)" and "SuperMajority ps \<le> length (FamousWitnesses tr)"
    and "\<And>w. w \<in> set (FamousWitnesses tr) \<Longrightarrow> reaches (dag h) w x"
  shows "received_at h0 x i"
proof -
  obtain ri where ri: "stored_round h0 i = Some ri" "same_verdict (peers_at h0 i) ri tr"
    using assms(1,2) by (auto simp: looking_def)
  have h: "dag h = dag h0" "peers_at h0 i = Ok ps" using assms(1,3) by (simp_all add: looking_def)
  have "FamousWitnesses tr = FamousWitnesses ri" using ri(2) by (simp add: same_verdict_def FamousWitnesses_def)
  then show ?thesis using ri assms(4-6) h by (auto simp: received_at_def same_verdict_def)
qed

lemma FamousWitnesses_mark: "FamousWitnesses (snd (WitnessesDecided ps tr)) = FamousWitnesses tr"
  by (simp add: FamousWitnesses_def)

lemma filter_all_length: "length (filter p xs) = length xs \<Longrightarrow> x \<in> set xs \<Longrightarrow> p x"
  by (metis filter_True length_filter_less less_irrefl)

text \<open>One round: either the loop goes on, or it stops, having received the event in this round or not
  having received it.\<close>

lemma receive_in_cases:
  assumes look: "looking P h0 h" and run: "receive_in P x i b h = (Ok r, h')"
  shows "(r = Continue False \<and> looking P h0 h') \<or> r = Break False \<or> (r = Break True \<and> received_at h0 x i)"
proof -
  note reads = looking_reads [OF look]
  obtain g h1 where g: "onStore (GetRound i) h = (g, h1)" by fastforce
  have h1: "looking P h0 h1" by (rule reads [OF keeps_reads_store(2) _ g]) (intro hframe_intro)
  show ?thesis
  proof (cases g)
    case (Err e)
    then show ?thesis using run g by (simp add: receive_in_def tryG_run go_defs)
  next
    case (Ok tr)
    then have tr: "stored_round h i = Some tr" "stored_round h1 i = Some tr"
      using g by (auto simp: onStore_def GetRound_def split_beta split: option.splits)
    define k where "k = (\<lambda>tPeers. let (decided, tr) = WitnessesDecided tPeers tr in
         bindG (poke_round i tr) (\<lambda>_.
         if \<not> decided
         then bindG (getsG h_roundLowerBound) (\<lambda>lb.
                okG (if (case lb of None \<Rightarrow> True | Some b \<Rightarrow> b < i) then Break False
                     else Continue False))
         else
           bindG (famous_that_see x (FamousWitnesses tr)) (\<lambda>s.
           if length s = length (FamousWitnesses tr) \<and> length s \<ge> SuperMajority tPeers
           then
             bindG (onStore (GetEvent x)) (\<lambda>ex.
             bindG (onStore (SetEvent P (SetRoundReceived i ex))) (\<lambda>_.
             bindG (onStore (SetRound i (AddReceivedEvent x tr))) (\<lambda>_.
             okG (Break True))))
           else okG (Continue False))) :: ('a, bool loop) hg)"
    have "bindG (onStore (GetPeerSet i)) k h1 = (Ok r, h')"
      using run g Ok by (simp add: receive_in_def tryG_run k_def)
    then obtain ps h2 where ps: "onStore (GetPeerSet i) h1 = (Ok ps, h2)" and rest: "k ps h2 = (Ok r, h')"
      by (auto simp: bindG_eq_Ok)
    then have at: "peers_at h1 i = Ok ps" and h2: "h2 = h1"
      by (auto simp: onStore_def GetPeerSet_def)
    let ?tr = "snd (WitnessesDecided ps tr)"
    obtain u h3 where poke: "poke_round i ?tr h1 = (Ok u, h3)"
      by (simp add: poke_round_def go_defs)
    have h3: "looking P h0 h3" by (rule looking_poke [OF h1 tr(2) at poke])
    have at3: "peers_at h3 i = Ok ps" "stored_round h3 i = Some ?tr"
      using poke at tr(2) by (auto simp: poke_round_def go_defs)
    show ?thesis
    proof (cases "fst (WitnessesDecided ps tr)")
      case False
      then show ?thesis using rest h3 poke
        by (auto simp: k_def split_beta h2 bindG_run go_defs split: if_splits)
    next
      case True
      then obtain s h4 where s: "famous_that_see x (FamousWitnesses ?tr) h3 = (Ok s, h4)"
        and out: "(if length s = length (FamousWitnesses ?tr) \<and> length s \<ge> SuperMajority ps
           then
             bindG (onStore (GetEvent x)) (\<lambda>ex.
             bindG (onStore (SetEvent P (SetRoundReceived i ex))) (\<lambda>_.
             bindG (onStore (SetRound i (AddReceivedEvent x ?tr))) (\<lambda>_.
             okG (Break True))))
           else okG (Continue False)) h4 = (Ok r, h')"
        using rest poke by (auto simp: k_def split_beta h2 bindG_run bindG_eq_Ok)
      have h4: "looking P h0 h4"
        by (rule looking_reads [OF h3 keeps_reads_seen(2) _ s])
          (unfold famous_that_see_def, intro hf.keeps_basic hframe_intro)
      have inv3: "hg_inv P h3" using h3 by (simp add: looking_def)
      show ?thesis
      proof (cases "length s = length (FamousWitnesses ?tr) \<and> length s \<ge> SuperMajority ps")
        case all: True
        have "reaches (dag h3) w x" if "w \<in> set (FamousWitnesses ?tr)" for w
          using famous_that_see_Ok [OF inv3 s] all filter_all_length [OF _ that] by blast
        then have "received_at h0 x i"
          using looking_received [OF h3 at3(2,1)] True all by (simp add: WitnessesDecided_again)
        moreover have "r = Break True" using out all by (auto simp: bindG_eq_Ok go_defs)
        ultimately show ?thesis by simp
      next
        case some: False
        show ?thesis using out [unfolded if_not_P [OF some]] h4 by (simp add: go_defs)
      qed
    qed
  qed (use run g in \<open>simp_all add: receive_in_def tryG_run\<close>)
qed

lemma receive_loop:
  assumes "looking P h0 h" and "loopG (receive_in P x) is False h = (Ok received, h')"
  shows "received \<Longrightarrow> \<exists>i \<in> set is. received_at h0 x i"
  using assms
proof (induction "is" arbitrary: h)
  case Nil
  then show ?case by (simp add: go_defs)
next
  case (Cons i "is")
  then obtain r h1 where step: "receive_in P x i False h = (Ok r, h1)"
    and rest: "(case r of Continue b \<Rightarrow> loopG (receive_in P x) is b | Break b \<Rightarrow> okG b) h1 = (Ok received, h')"
    by (auto simp: bindG_eq_Ok)
  show ?case
    using receive_in_cases [OF Cons.prems(2) step]
  proof (elim disjE conjE)
    assume "r = Continue False" "looking P h0 h1"
    then show ?thesis using Cons.IH [OF Cons.prems(1), of h1] rest by auto
  qed (use rest Cons.prems(1) in \<open>auto simp: go_defs\<close>)
qed

section \<open>Properties\<close>



section \<open>The list of undetermined events\<close>

definition same_list :: "'c hashgraph_scheme \<Rightarrow> 'c hashgraph_scheme \<Rightarrow> bool" where
  "same_list h h' \<longleftrightarrow> h_UndeterminedEvents h' = h_UndeterminedEvents h"

interpretation sl: frame_rel same_list
  by unfold_locales (simp_all add: same_list_def)

lemma keeps_list_reads: "keeps reads m \<Longrightarrow> keeps same_list m"
  using readsD(9) by (auto simp: keeps_def same_list_def)

lemma keeps_list_store: "keeps same_list (onStore m)"
  by (simp add: keeps_def same_list_def onStore_def split_beta)

lemma keeps_list_receive_event: "keeps same_list (receive_event P x us)"
proof -
  have "keeps same_list (poke_round i tr)" for i tr
    unfolding poke_round_def by (rule sl.keeps_modify) (simp add: same_list_def)
  then have "keeps same_list (receive_in P x i b)" for i b
    unfolding receive_in_def Let_def
    by (intro sl.keeps_basic keeps_rules keeps_list_store keeps_list_reads [OF keeps_reads_seen(2)])
  then show ?thesis unfolding receive_event_def
    by (intro sl.keeps_basic keeps_rules keeps_list_reads [OF keeps_reads_round(1)])
qed

lemma receive_event_list: "receive_event P x us h = (Ok us', h') \<Longrightarrow> us' = us \<or> us' = us @ [x]"
  by (auto simp: receive_event_def bindG_eq_Ok go_defs split: if_splits)

lemma receive_all_list:
  "foldG (receive_event P) xs us h = (Ok us', h') \<Longrightarrow> \<exists>ys. subseq ys xs \<and> us' = us @ ys"
proof (induction xs arbitrary: us h)
  case Nil
  then show ?case by (simp add: go_defs)
next
  case (Cons x xs)
  then obtain us1 h1 where "receive_event P x us h = (Ok us1, h1)" and rest: "foldG (receive_event P) xs us1 h1 = (Ok us', h')"
    by (auto simp: bindG_eq_Ok)
  then have "us1 = us \<or> us1 = us @ [x]" by (intro receive_event_list)
  moreover obtain ys where "subseq ys xs" "us' = us1 @ ys" using Cons.IH [OF rest] by blast
  ultimately show ?case by (auto intro: exI [of _ ys] exI [of _ "x # ys"])
qed

text \<open>\<open>DecideRoundReceived\<close> only removes events from the list of undetermined events: when it
  returns, the list is a subsequence of what it was, in the same order, and when it stops at an error
  the list is unchanged.\<close>

theorem undetermined_events_keep_order:
  assumes "DecideRoundReceived P h = (r, h')"
  shows "subseq (h_UndeterminedEvents h') (h_UndeterminedEvents h) \<and>
    (r \<noteq> Ok () \<longrightarrow> h_UndeterminedEvents h' = h_UndeterminedEvents h)"
proof -
  let ?xs = "h_UndeterminedEvents h"
  obtain r1 h1 where loop: "foldG (receive_event P) ?xs [] h = (r1, h1)" by fastforce
  have same: "h_UndeterminedEvents h1 = ?xs"
    using keepsD [OF sl.keeps_foldG [OF keeps_list_receive_event] loop] by (simp add: same_list_def)
  show ?thesis
  proof (cases r1)
    case (Ok us)
    then have "h_UndeterminedEvents h' = us" "r = Ok ()"
      using assms loop by (auto simp: DecideRoundReceived_def bindG_run go_defs)
    then show ?thesis using receive_all_list [OF loop [unfolded Ok]] by auto
  qed (use assms loop same in \<open>simp_all add: DecideRoundReceived_def bindG_run\<close>)
qed

theorem undetermined_events_keep_order_witness:
  "subseq (h_UndeterminedEvents (snd (DecideRoundReceived sample_crypto solo_h))) (h_UndeterminedEvents solo_h)"
  using undetermined_events_keep_order [of sample_crypto solo_h] by (metis prod.collapse)

end
