(* ===== verification/Peer_Selector.thy ===== *)
theory Peer_Selector
  imports Peers
begin

text \<open>
  \<open>src/src/node/peer_selector.go\<close>: the choice of the next peer to gossip with.

  \<open>rand.Intn\<close> is a parameter: a function that returns a number below its argument, as it is
  documented to do; it panics on zero, and so does the model. The interface \<open>peerSelector\<close> is the
  locale \<open>peer_selector\<close>: what a node relies on when it gossips is that a selected peer is a
  peer of the set, and not the node itself.
\<close>

record peerSelectorItem =
  psi_peer :: Peer
  psi_connected :: bool

record randomPeerSelector =
  rps_peers :: PeerSet
  rps_selfID :: "32 word"
  rps_selectablePeersMap :: "(32 word \<times> peerSelectorItem) list"
  rps_selectablePeersSlice :: "32 word list"
  rps_last :: "32 word"

definition newRandomPeerSelector :: "PeerSet \<Rightarrow> 32 word \<Rightarrow> randomPeerSelector" where
  "newRandomPeerSelector peerSet selfID =
     (let otherPeers = snd (ExcludePeer (ps_Peers peerSet) selfID)
      in \<lparr>rps_peers = peerSet, rps_selfID = selfID,
          rps_selectablePeersMap =
            foldl (\<lambda>m p. AList.update (peer_ID p) \<lparr>psi_peer = p, psi_connected = False\<rparr> m) [] otherPeers,
          rps_selectablePeersSlice = map peer_ID otherPeers,
          rps_last = 0\<rparr>)"

definition getPeers :: "randomPeerSelector \<Rightarrow> PeerSet" where
  "getPeers ps = rps_peers ps"

definition updateLast :: "32 word \<Rightarrow> bool \<Rightarrow> randomPeerSelector \<Rightarrow> bool \<times> randomPeerSelector" where
  "updateLast peer connected ps =
     (let ps = ps\<lparr>rps_last := peer\<rparr>
      in case map_of (rps_selectablePeersMap ps) peer of
           None \<Rightarrow> (False, ps)
         | Some item \<Rightarrow>
             (\<not> psi_connected item \<and> connected,
              ps\<lparr>rps_selectablePeersMap :=
                   AList.update peer (item\<lparr>psi_connected := connected\<rparr>) (rps_selectablePeersMap ps)\<rparr>))"

definition next_id :: "(nat \<Rightarrow> nat) \<Rightarrow> randomPeerSelector \<Rightarrow> 32 word res" where
  "next_id intn ps =
     (let slice = rps_selectablePeersSlice ps;
          otherPeers = filter (\<lambda>pid. pid \<noteq> rps_last ps) slice
      in if length slice > 1
         then if length otherPeers = 0 then Panic else Ok (otherPeers ! intn (length otherPeers))
         else Ok (slice ! 0))"

definition next_peer :: "(nat \<Rightarrow> nat) \<Rightarrow> randomPeerSelector \<Rightarrow> Peer option res" where
  "next_peer intn ps =
     (if length (rps_selectablePeersSlice ps) = 0 then Ok None
      else
        bindO (next_id intn ps) (\<lambda>nextID.
        case map_of (rps_selectablePeersMap ps) nextID of
          None \<Rightarrow> Panic
        | Some item \<Rightarrow> Ok (Some (psi_peer item))))"

definition Intn_ok :: "(nat \<Rightarrow> nat) \<Rightarrow> bool" where
  "Intn_ok intn \<longleftrightarrow> (\<forall>n > 0. intn n < n)"

section \<open>Invariant\<close>

text \<open>The map and the slice hold the identifiers of the other peers.\<close>

definition rps_inv :: "randomPeerSelector \<Rightarrow> bool" where
  "rps_inv ps \<longleftrightarrow>
     rps_selectablePeersSlice ps = map peer_ID (filter (\<lambda>p. peer_ID p \<noteq> rps_selfID ps) (ps_Peers (rps_peers ps))) \<and>
     (\<forall>i item. map_of (rps_selectablePeersMap ps) i = Some item \<longrightarrow>
        psi_peer item \<in> set (ps_Peers (rps_peers ps)) \<and> peer_ID (psi_peer item) = i \<and> i \<noteq> rps_selfID ps) \<and>
     fst ` set (rps_selectablePeersMap ps) = set (rps_selectablePeersSlice ps)"

lemma items_lookup:
  "map_of (foldl (\<lambda>m p. AList.update (f p) (g p) m) al xs) k =
     (case find (\<lambda>x. f x = k) (rev xs) of Some x \<Rightarrow> Some (g x) | None \<Rightarrow> map_of al k)"
  by (induction xs arbitrary: al) (simp_all add: find_append split: option.splits)

lemma items_keys:
  "fst ` set (foldl (\<lambda>m p. AList.update (f p) (g p) m) al xs) = fst ` set al \<union> f ` set xs"
  by (induction xs arbitrary: al) (auto simp: AList.dom_update)

lemma find_Some_mem: "find P xs = Some x \<Longrightarrow> x \<in> set xs \<and> P x"
  by (induction xs) (auto split: if_splits)

lemma rps_inv_new: "rps_inv (newRandomPeerSelector peerSet selfID)"
proof -
  have found: "p \<in> set (ps_Peers peerSet) \<and> peer_ID p = i \<and> i \<noteq> selfID"
    if "find (\<lambda>x. peer_ID x = i) (rev (filter (\<lambda>p. peer_ID p \<noteq> selfID) (ps_Peers peerSet))) = Some p" for p i
    using find_Some_mem [OF that] by auto
  show ?thesis unfolding rps_inv_def
    by (simp add: newRandomPeerSelector_def Let_def ExcludePeer_snd items_lookup items_keys split: option.split)
      (use found in blast)
qed

lemma rps_inv_updateLast:
  assumes "rps_inv ps"
  shows "rps_inv (snd (updateLast peer connected ps))"
proof (cases "map_of (rps_selectablePeersMap ps) peer")
  case None
  then show ?thesis using assms by (simp add: rps_inv_def updateLast_def Let_def)
next
  case (Some item)
  then have "peer \<in> fst ` set (rps_selectablePeersMap ps)" by (force dest: map_of_SomeD)
  moreover have "psi_peer item \<in> set (ps_Peers (rps_peers ps))" "peer_ID (psi_peer item) = peer" "peer \<noteq> rps_selfID ps"
    using assms Some by (simp_all add: rps_inv_def)
  ultimately show ?thesis
    using assms Some by (simp add: rps_inv_def updateLast_def Let_def AList.dom_update update_conv insert_absorb)
qed

lemma updateLast_kept [simp]:
  "rps_peers (snd (updateLast peer connected ps)) = rps_peers ps"
  "rps_selfID (snd (updateLast peer connected ps)) = rps_selfID ps"
  "rps_selectablePeersSlice (snd (updateLast peer connected ps)) = rps_selectablePeersSlice ps"
  "rps_last (snd (updateLast peer connected ps)) = peer"
  by (simp_all add: updateLast_def Let_def split: option.split)

lemma next_peer_member:
  assumes "rps_inv ps" and "next_peer intn ps = Ok (Some p)"
  shows "p \<in> set (ps_Peers (rps_peers ps)) \<and> peer_ID p \<noteq> rps_selfID ps"
  using assms by (auto simp: next_peer_def rps_inv_def bindO_eq_Ok split: if_splits option.splits)

section \<open>The interface\<close>

locale peer_selector =
  fixes members :: "'s \<Rightarrow> Peer set" and self :: "'s \<Rightarrow> 32 word"
    and update :: "32 word \<Rightarrow> bool \<Rightarrow> 's \<Rightarrow> bool \<times> 's" and pick :: "'s \<Rightarrow> Peer option res" and inv :: "'s \<Rightarrow> bool"
  assumes update_inv: "inv s \<Longrightarrow> inv (snd (update i c s))"
    and update_members: "members (snd (update i c s)) = members s"
    and update_self: "self (snd (update i c s)) = self s"
    and pick_member: "inv s \<Longrightarrow> pick s = Ok (Some p) \<Longrightarrow> p \<in> members s \<and> peer_ID p \<noteq> self s"
begin

lemma after_updates:
  "inv s \<Longrightarrow>
   inv (fold (\<lambda>(i, c) s. snd (update i c s)) us s) \<and>
   members (fold (\<lambda>(i, c) s. snd (update i c s)) us s) = members s \<and>
   self (fold (\<lambda>(i, c) s. snd (update i c s)) us s) = self s"
  by (induction us arbitrary: s) (auto simp: update_inv update_members update_self)

lemma pick_after_updates:
  assumes "inv s" and "pick (fold (\<lambda>(i, c) s. snd (update i c s)) us s) = Ok (Some p)"
  shows "p \<in> members s \<and> peer_ID p \<noteq> self s"
  using pick_member [OF _ assms(2)] after_updates [OF assms(1), of us] by simp

end

interpretation rps: peer_selector "\<lambda>ps. set (ps_Peers (getPeers ps))" rps_selfID updateLast "next_peer intn" rps_inv
  for intn
  by unfold_locales (simp_all add: rps_inv_updateLast getPeers_def next_peer_member)

abbreviation gossip_updates :: "(32 word \<times> bool) list \<Rightarrow> randomPeerSelector \<Rightarrow> randomPeerSelector" where
  "gossip_updates us ps \<equiv> fold (\<lambda>(i, c) s. snd (updateLast i c s)) us ps"

lemma gossip_updates_slice: "rps_selectablePeersSlice (gossip_updates us ps) = rps_selectablePeersSlice ps"
  by (induction us arbitrary: ps) auto

lemma next_id_ok:
  assumes "Intn_ok intn" and "distinct (rps_selectablePeersSlice ps)" and "rps_selectablePeersSlice ps \<noteq> []"
  shows "\<exists>i. next_id intn ps = Ok i \<and> i \<in> set (rps_selectablePeersSlice ps) \<and>
    (1 < length (rps_selectablePeersSlice ps) \<longrightarrow> i \<noteq> rps_last ps)"
proof (cases "1 < length (rps_selectablePeersSlice ps)")
  case True
  let ?others = "filter (\<lambda>pid. pid \<noteq> rps_last ps) (rps_selectablePeersSlice ps)"
  have "length (filter (\<lambda>pid. pid = rps_last ps) (rps_selectablePeersSlice ps)) \<le> 1"
    using assms(2) distinct_card [of "filter (\<lambda>pid. pid = rps_last ps) (rps_selectablePeersSlice ps)"]
      card_mono [of "{rps_last ps}" "set (filter (\<lambda>pid. pid = rps_last ps) (rps_selectablePeersSlice ps))"]
    by auto
  then have "0 < length ?others"
    using sum_length_filter_compl [of "\<lambda>pid. pid = rps_last ps" "rps_selectablePeersSlice ps"] True by linarith
  then have "?others ! intn (length ?others) \<in> set ?others" using assms(1) by (intro nth_mem) (simp add: Intn_ok_def)
  then show ?thesis using True \<open>0 < length ?others\<close> by (auto simp: next_id_def Let_def)
next
  case False
  then show ?thesis using assms(3) by (auto simp: next_id_def Let_def intro: nth_mem)
qed

section \<open>Properties\<close>

text \<open>After any updates of the connection status, the selector of a peer-set without two peers
  of one identifier never panics. It returns nothing exactly when there is no other peer; otherwise it
  returns a peer of the set, never the node itself, and never the last one it talked to when there is
  a choice.\<close>

theorem next_peer_fresh:
  assumes "Intn_ok intn" and "distinct (map peer_ID (ps_Peers peerSet))"
    and "ps = gossip_updates us (newRandomPeerSelector peerSet selfID)"
    and "others = filter (\<lambda>p. peer_ID p \<noteq> selfID) (ps_Peers peerSet)"
  shows "if others = [] then next_peer intn ps = Ok None
    else \<exists>p \<in> set others. next_peer intn ps = Ok (Some p) \<and> (length others > 1 \<longrightarrow> peer_ID p \<noteq> rps_last ps)"
proof -
  have slice: "rps_selectablePeersSlice ps = map peer_ID others"
    using assms(3,4) by (simp add: gossip_updates_slice newRandomPeerSelector_def Let_def ExcludePeer_snd)
  have inv: "rps_inv ps" "rps_peers ps = peerSet" "rps_selfID ps = selfID"
  proof -
    have "rps_inv ps" using rps.after_updates [OF rps_inv_new] assms(3) by blast
    moreover have "rps_peers (gossip_updates us s) = rps_peers s \<and> rps_selfID (gossip_updates us s) = rps_selfID s" for s
      by (induction us arbitrary: s) auto
    ultimately show "rps_inv ps" "rps_peers ps = peerSet" "rps_selfID ps = selfID"
      by (simp_all add: assms(3) newRandomPeerSelector_def Let_def)
  qed
  show ?thesis
  proof (cases "others = []")
    case False
    have dist: "distinct (map peer_ID others)" using assms(2,4) by (simp add: distinct_map_filter)
    then obtain i where i: "next_id intn ps = Ok i" "i \<in> set (map peer_ID others)"
      "1 < length others \<longrightarrow> i \<noteq> rps_last ps"
      using next_id_ok [OF assms(1), of ps] False slice by auto
    then have "map_of (rps_selectablePeersMap ps) i \<noteq> None"
      using inv(1) slice by (auto simp: rps_inv_def map_of_eq_None_iff)
    then obtain item where item: "map_of (rps_selectablePeersMap ps) i = Some item" by blast
    then have "psi_peer item \<in> set others" "peer_ID (psi_peer item) = i"
      using inv assms(4) by (auto simp: rps_inv_def)
    then show ?thesis using i item False slice by (auto simp: next_peer_def)
  qed (simp add: next_peer_def slice)
qed

theorem next_peer_fresh_witness:
  "\<exists>p. next_peer (\<lambda>_. 0) (gossip_updates [(peer_ID (NewPeer ''0X02'' [] []), True)]
     (newRandomPeerSelector four_peers (peer_ID (NewPeer ''0X01'' [] [])))) = Ok (Some p) \<and>
   peer_ID p \<noteq> peer_ID (NewPeer ''0X02'' [] [])"
proof -
  let ?us = "[(peer_ID (NewPeer ''0X02'' [] []), True)]" and ?self = "peer_ID (NewPeer ''0X01'' [] [])"
  have 1: "distinct (map peer_ID (ps_Peers four_peers))" by code_simp
  have 2: "length (filter (\<lambda>p. peer_ID p \<noteq> ?self) (ps_Peers four_peers)) = 3" by code_simp
  have 3: "rps_last (gossip_updates ?us s) = peer_ID (NewPeer ''0X02'' [] [])" for s by simp
  have "Intn_ok (\<lambda>_. 0)" by (simp add: Intn_ok_def)
  from next_peer_fresh [OF this 1 refl refl, where us = ?us and selfID = ?self] 2
  show ?thesis unfolding 3 by (force split: if_splits)
qed

text \<open>A peer-set may hold one peer twice, because the list of peers is taken as it is. When the two
  entries are the last peer that was talked to, the list of candidates is empty and the selection
  panics.\<close>

theorem next_peer_duplicate_panics:
  "let p = NewPeer ''0X02'' [] [];
       ps = newRandomPeerSelector (NewPeerSet [p, p]) (peer_ID (NewPeer ''0X01'' [] []))
   in next_peer (\<lambda>_. 0) (gossip_updates [(peer_ID p, True)] ps) = Panic"
  by code_simp

end
