(* ===== verification/Core.thy ===== *)
theory Core
  imports Commit Peer_Selector
begin

text \<open>
  \<open>src/src/node/core.go\<close>, \<open>validator.go\<close> and \<open>promise.go\<close>: the object through which a node uses
  its hashgraph. Its state extends the record of the hashgraph, so a method of the hashgraph is a
  statement of the core as it is, and the commit callback that the core installs in the hashgraph
  is a statement on the whole state.

  The application is a parameter: its answer to a committed block. The clock gives the time at which
  the self-event of an index is created. A promise is an address in \<open>c_promiseHeap\<close>; the handler that
  waits for it holds the address, and \<open>c_promises\<close> maps the hash of a transaction to it. A send on the
  channel of a promise blocks when its buffer of two responses is full, which is the outcome
  \<open>Diverge\<close>.
\<close>

section \<open>Validator\<close>

record Validator =
  v_Key :: "byte list"
  v_Moniker :: string

definition v_PublicKeyBytes :: "Validator \<Rightarrow> byte list" where
  "v_PublicKeyBytes v = v_Key v"

definition v_ID :: "Validator \<Rightarrow> 32 word" where
  "v_ID v = PublicKeyID (v_PublicKeyBytes v)"

definition v_PublicKeyHex :: "Validator \<Rightarrow> string" where
  "v_PublicKeyHex v = EncodeToString (v_PublicKeyBytes v)"

section \<open>Promises\<close>

record joinPromiseResponse =
  jpr_accepted :: bool
  jpr_acceptedRound :: int
  jpr_peers :: "Peer list"

record joinPromise =
  jp_tx :: InternalTransaction
  jp_respCh :: "joinPromiseResponse list"

definition newJoinPromise :: "InternalTransaction \<Rightarrow> joinPromise" where
  "newJoinPromise tx = \<lparr>jp_tx = tx, jp_respCh = []\<rparr>"

text \<open>A send on a channel with a buffer of two.\<close>

definition jp_respond :: "joinPromiseResponse \<Rightarrow> joinPromise \<Rightarrow> joinPromise res" where
  "jp_respond resp p =
     (if length (jp_respCh p) < 2 then Ok (p\<lparr>jp_respCh := jp_respCh p @ [resp]\<rparr>) else Diverge)"

section \<open>State\<close>

record CommitResponse =
  cr_StateHash :: "byte list"
  cr_InternalTransactionReceipts :: "InternalTransactionReceipt list"

type_synonym app = "Block \<Rightarrow> CommitResponse res"

record core = hashgraph +
  c_validator :: Validator
  c_genesisPeers :: PeerSet
  c_validators :: PeerSet
  c_peers :: PeerSet
  c_peerSelector :: randomPeerSelector
  c_head :: string
  c_seq :: int
  c_acceptedRound :: int
  c_removedRound :: int
  c_targetRound :: int
  c_lastPeerChangeRound :: int
  c_heads :: "(32 word \<times> Event option) list"
  c_transactionPool :: "byte list list"
  c_internalTransactionPool :: "InternalTransaction list"
  c_selfBlockSignatures :: SigPool
  c_maintenanceMode :: bool
  c_promises :: "(string \<times> nat) list"
  c_promiseHeap :: "joinPromise list"

type_synonym ('d, 'a) cm = "('d core_scheme, 'a) go"

definition newCore :: "Validator \<Rightarrow> PeerSet \<Rightarrow> PeerSet \<Rightarrow> InmemStore \<Rightarrow> bool \<Rightarrow> core" where
  "newCore validator peers genesisPeers store maintenanceMode =
     snd (hg_Init genesisPeers
       (hashgraph.extend (NewHashgraph store)
         \<lparr>c_validator = validator, c_genesisPeers = genesisPeers, c_validators = genesisPeers,
          c_peers = peers, c_peerSelector = newRandomPeerSelector peers (v_ID validator),
          c_head = '''', c_seq = -1, c_acceptedRound = -1, c_removedRound = -1, c_targetRound = -1,
          c_lastPeerChangeRound = -1, c_heads = [], c_transactionPool = [],
          c_internalTransactionPool = [], c_selfBlockSignatures = NewSigPool,
          c_maintenanceMode = maintenanceMode, c_promises = [], c_promiseHeap = []\<rparr>))"

definition getEvent :: "string \<Rightarrow> ('d, Event) cm" where
  "getEvent hash = onStore (GetEvent hash)"

definition set_head :: "string \<Rightarrow> int \<Rightarrow> ('d, unit) cm" where
  "set_head head seq = modifyG (\<lambda>c. c\<lparr>c_head := head, c_seq := seq\<rparr>)"

definition setHeadAndSeq :: "('d, unit) cm" where
  "setHeadAndSeq =
     bindG (getsG c_validator) (\<lambda>v.
     bindG (getsG (\<lambda>c. RepertoireByID (h_Store c))) (\<lambda>rep.
     if map_of rep (v_ID v) = None then set_head '''' (-1)
     else
       tryG (onStore (LastEventFrom (v_PublicKeyHex v))) (\<lambda>r. case r of
         Inl err \<Rightarrow> if \<not> IsStore err Empty then errG err else set_head '''' (-1)
       | Inr hash \<Rightarrow>
           if hash \<noteq> ''''
           then bindG (getEvent hash) (\<lambda>lastEvent. set_head hash (ev_Index lastEvent))
           else set_head '''' (-1))))"

definition setPeers :: "PeerSet \<Rightarrow> ('d, unit) cm" where
  "setPeers ps =
     modifyG (\<lambda>c. c\<lparr>c_peers := ps, c_peerSelector := newRandomPeerSelector ps (v_ID (c_validator c))\<rparr>)"

definition busy :: "'d core_scheme \<Rightarrow> bool" where
  "busy c \<longleftrightarrow>
     h_PendingLoadedEvents c > 0 \<or> length (c_transactionPool c) > 0 \<or>
     length (c_internalTransactionPool c) > 0 \<or> sp_Len (c_selfBlockSignatures c) > 0 \<or>
     (case h_LastConsensusRound c of None \<Rightarrow> False | Some r \<Rightarrow> r < c_targetRound c)"

section \<open>Commit\<close>

text \<open>The block that is committed is the one in the block cache: an assignment to one of its fields
  shows there.\<close>

definition poke_block :: "Block \<Rightarrow> ('c, unit) hg" where
  "poke_block b =
     modifyG (\<lambda>h. h\<lparr>h_Store := (h_Store h)\<lparr>is_blockCache := lru_poke (bl_Index b) b (is_blockCache (h_Store h))\<rparr>\<rparr>)"

definition signBlock :: "crypto \<Rightarrow> Block \<Rightarrow> ('d, BlockSignature \<times> Block) cm" where
  "signBlock P block =
     bindG (getsG c_validator) (\<lambda>v.
     let sig = bl_Sign P (v_Key v) block; block = SetSignature sig block
     in bindG (onStore (SetBlock block)) (\<lambda>_. okG (sig, block)))"

definition process_receipt ::
  "int \<Rightarrow> InternalTransactionReceipt \<Rightarrow> PeerSet \<times> PeerSet \<times> bool \<Rightarrow> ('d, PeerSet \<times> PeerSet \<times> bool) cm" where
  "process_receipt effectiveRound r acc =
     (case acc of (validators, currentPeers, changed) \<Rightarrow>
        let txBody = it_Body (itr_InternalTransaction r) in
        if itr_Accepted r
        then
          (case itb_Type txBody of
             PEER_ADD \<Rightarrow>
               okG (WithNewPeer validators (itb_Peer txBody), WithNewPeer currentPeers (itb_Peer txBody), True)
           | PEER_REMOVE \<Rightarrow>
               bindG (modifyG (\<lambda>c. if peer_ID (itb_Peer txBody) = v_ID (c_validator c)
                                   then c\<lparr>c_removedRound := effectiveRound\<rparr> else c)) (\<lambda>_.
               okG (WithRemovedPeer validators (itb_Peer txBody), WithRemovedPeer currentPeers (itb_Peer txBody), True))
           | UnknownType _ \<Rightarrow> okG (validators, currentPeers, changed))
        else okG (validators, currentPeers, changed))"

definition answer_promise :: "crypto \<Rightarrow> int \<Rightarrow> InternalTransactionReceipt \<Rightarrow> ('d, unit) cm" where
  "answer_promise P effectiveRound r =
     bindG (getsG id) (\<lambda>c.
     let hash = HashString P (itr_InternalTransaction r) in
     case map_of (c_promises c) hash of
       None \<Rightarrow> okG ()
     | Some p \<Rightarrow>
         bindG (liftO (jp_respond
                  (if itr_Accepted r
                   then \<lparr>jpr_accepted = True, jpr_acceptedRound = effectiveRound, jpr_peers = ps_Peers (c_validators c)\<rparr>
                   else \<lparr>jpr_accepted = False, jpr_acceptedRound = 0, jpr_peers = []\<rparr>)
                  (c_promiseHeap c ! p))) (\<lambda>p'.
         modifyG (\<lambda>c. c\<lparr>c_promiseHeap := (c_promiseHeap c)[p := p'],
                        c_promises := AList.delete hash (c_promises c)\<rparr>)))"

definition record_validators :: "int \<Rightarrow> PeerSet \<Rightarrow> PeerSet \<Rightarrow> ('d, unit) cm" where
  "record_validators effectiveRound validators currentPeers =
     bindG (modifyG (\<lambda>c. c\<lparr>c_lastPeerChangeRound := effectiveRound\<rparr>)) (\<lambda>_.
     bindG (wrapG ''Updating Store PeerSet: '' (onStore (SetPeerSet effectiveRound validators))) (\<lambda>_.
     bindG (modifyG (\<lambda>c. c\<lparr>c_validators := validators\<rparr>)) (\<lambda>_.
     bindG (setPeers currentPeers) (\<lambda>_.
     modifyG (\<lambda>c. if effectiveRound > c_targetRound c then c\<lparr>c_targetRound := effectiveRound\<rparr> else c)))))"

definition processAcceptedInternalTransactions ::
  "crypto \<Rightarrow> int \<Rightarrow> InternalTransactionReceipt list \<Rightarrow> ('d, unit) cm" where
  "processAcceptedInternalTransactions P rr receipts =
     (let effectiveRound = rr + 6 in
      bindG (getsG c_peers) (\<lambda>currentPeers.
      bindG (getsG c_validators) (\<lambda>validators.
      bindG (foldG (process_receipt effectiveRound) receipts (validators, currentPeers, False))
        (\<lambda>(validators, currentPeers, changed).
      bindG (if changed then record_validators effectiveRound validators currentPeers else okG ()) (\<lambda>_.
      foldG (\<lambda>r _. answer_promise P effectiveRound r) receipts ())))))"

definition commit :: "crypto \<Rightarrow> app \<Rightarrow> Block \<Rightarrow> ('d, unit) cm" where
  "commit P app block =
     bindG (liftO (app block)) (\<lambda>commitResponse.
     let block = block\<lparr>bl_Body := (bl_Body block)\<lparr>bb_StateHash := cr_StateHash commitResponse,
           bb_InternalTransactionReceipts := cr_InternalTransactionReceipts commitResponse\<rparr>\<rparr> in
     bindG (poke_block block) (\<lambda>_.
     bindG (onStore (GetPeerSet (bl_RoundReceived block))) (\<lambda>blockPeerSet.
     bindG (getsG c_validator) (\<lambda>v.
     bindG (if map_of (ps_ByID blockPeerSet) (v_ID v) \<noteq> None
            then
              bindG (signBlock P block) (\<lambda>(sig, block).
              bindG (modifyG (\<lambda>c. c\<lparr>c_selfBlockSignatures := sp_Add sig (c_selfBlockSignatures c)\<rparr>)) (\<lambda>_.
              okG block))
            else okG block) (\<lambda>block.
     bindG (SetAnchorBlock block) (\<lambda>_.
     processAcceptedInternalTransactions P (bl_RoundReceived block)
       (cr_InternalTransactionReceipts commitResponse)))))))"

section \<open>Self-events and synchronisation\<close>

definition insertEventAndRunConsensus :: "crypto \<Rightarrow> app \<Rightarrow> Event \<Rightarrow> bool \<Rightarrow> ('d, unit) cm" where
  "insertEventAndRunConsensus P app event setWireInfo =
     bindG (InsertEventAndRunConsensus P (commit P app) event setWireInfo) (\<lambda>_.
     bindG (getsG c_validator) (\<lambda>v.
     if Creator event = v_PublicKeyHex v then set_head (Hex P event) (ev_Index event) else okG ()))"

definition signAndInsertSelfEvent :: "crypto \<Rightarrow> app \<Rightarrow> Event \<Rightarrow> ('d, unit) cm" where
  "signAndInsertSelfEvent P app event =
     bindG (getsG c_validator) (\<lambda>v.
     insertEventAndRunConsensus P app (ev_Sign P (v_Key v) event) True)"

definition addSelfEvent :: "crypto \<Rightarrow> app \<Rightarrow> (int \<Rightarrow> int) \<Rightarrow> string \<Rightarrow> ('d, unit) cm" where
  "addSelfEvent P app now otherHead =
     bindG (getsG id) (\<lambda>c.
     if is_lastRound (h_Store c) < c_acceptedRound c then okG ()
     else
       let sigs = sp_Slice (c_selfBlockSignatures c);
           txs = length (c_transactionPool c);
           itxs = length (c_internalTransactionPool c);
           newHead = NewEvent (c_transactionPool c) (c_internalTransactionPool c) sigs [c_head c, otherHead]
             (v_PublicKeyBytes (c_validator c)) (c_seq c + 1) (now (c_seq c + 1))
       in bindG (signAndInsertSelfEvent P app newHead) (\<lambda>_.
          modifyG (\<lambda>c. c\<lparr>c_transactionPool := drop txs (c_transactionPool c),
            c_internalTransactionPool := drop itxs (c_internalTransactionPool c),
            c_selfBlockSignatures := RemoveSlice sigs (c_selfBlockSignatures c)\<rparr>)))"

definition recordHeads :: "crypto \<Rightarrow> app \<Rightarrow> (int \<Rightarrow> int) \<Rightarrow> ('d, unit) cm" where
  "recordHeads P app now =
     bindG (getsG c_heads) (\<lambda>heads.
     foldG (\<lambda>(id, ev) _.
       bindG (addSelfEvent P app now (case ev of None \<Rightarrow> '''' | Some e \<Rightarrow> Hex P e)) (\<lambda>_.
       modifyG (\<lambda>c. c\<lparr>c_heads := AList.delete id (c_heads c)\<rparr>))) heads ())"

definition IsNormalSelfParentError :: "go_error \<Rightarrow> bool" where
  "IsNormalSelfParentError err = (case err of SelfParentErr _ normal \<Rightarrow> normal | _ \<Rightarrow> False)"

definition drop_passed_head :: "32 word \<Rightarrow> int \<Rightarrow> ('d, unit) cm" where
  "drop_passed_head creatorID index =
     modifyG (\<lambda>c. case map_of (c_heads c) creatorID of
       Some (Some h) \<Rightarrow> if index > ev_Index h then c\<lparr>c_heads := AList.delete creatorID (c_heads c)\<rparr> else c
     | _ \<Rightarrow> c)"

definition sync_event ::
  "crypto \<Rightarrow> app \<Rightarrow> 32 word \<Rightarrow> WireEvent \<Rightarrow> Event option \<Rightarrow> ('d, Event option) cm" where
  "sync_event P app fromID we otherHead =
     bindG (ReadWireInfo we) (\<lambda>ev.
     tryG (insertEventAndRunConsensus P app ev False) (\<lambda>r. case r of
       Inl err \<Rightarrow> if IsNormalSelfParentError err then okG otherHead else errG err
     | Inr _ \<Rightarrow>
         bindG (drop_passed_head (wb_CreatorID (we_Body we)) (wb_Index (we_Body we))) (\<lambda>_.
         okG (if wb_CreatorID (we_Body we) = fromID then Some ev else otherHead))))"

definition set_other_head :: "32 word \<Rightarrow> Event option \<Rightarrow> ('d, unit) cm" where
  "set_other_head fromID otherHead =
     modifyG (\<lambda>c.
       if (case map_of (c_heads c) fromID of
             Some (Some h) \<Rightarrow> (case otherHead of Some o' \<Rightarrow> ev_Index o' > ev_Index h | None \<Rightarrow> False)
           | _ \<Rightarrow> True)
       then c\<lparr>c_heads := AList.update fromID otherHead (c_heads c)\<rparr> else c)"

definition core_sync :: "crypto \<Rightarrow> app \<Rightarrow> (int \<Rightarrow> int) \<Rightarrow> 32 word \<Rightarrow> WireEvent list \<Rightarrow> ('d, unit) cm" where
  "core_sync P app now fromID unknownEvents =
     bindG (foldG (sync_event P app fromID) unknownEvents None) (\<lambda>otherHead.
     bindG (set_other_head fromID otherHead) (\<lambda>_.
     bindG (getsG id) (\<lambda>c.
     if busy c \<or> c_seq c < 0 then recordHeads P app now else okG ())))"

definition knownEvents :: "'d core_scheme \<Rightarrow> (32 word \<times> int) list" where
  "knownEvents c = KnownEvents (h_Store c)"

section \<open>Fast forward\<close>

definition fastForward :: "crypto \<Rightarrow> Block \<Rightarrow> Frame \<Rightarrow> ('d, unit) cm" where
  "fastForward P block frame =
     (let peerSet = NewPeerSet (fr_Peers frame) in
      bindG (liftO (CheckBlock P block peerSet)) (\<lambda>_.
      if bb_FrameHash (bl_Body block) \<noteq> fr_Hash P frame then errG (Errorf ''Invalid Frame Hash'')
      else
        bindG (hg_Reset P block frame) (\<lambda>_.
        bindG setHeadAndSeq (\<lambda>_.
        bindG (setPeers (NewPeerSet (fr_Peers frame))) (\<lambda>_.
        modifyG (\<lambda>c. c\<lparr>c_validators := NewPeerSet (fr_Peers frame)\<rparr>))))))"

definition getAnchorBlockWithFrame :: "crypto \<Rightarrow> ('d, Block \<times> Frame) cm" where
  "getAnchorBlockWithFrame P = GetAnchorBlockWithFrame P"

section \<open>Difference with another peer\<close>

definition participant_diff ::
  "(32 word \<times> int) list \<Rightarrow> 32 word \<times> int \<Rightarrow> Event list \<Rightarrow> ('d, Event list) cm" where
  "participant_diff otherKnown p unknown =
     (let ct = (case map_of otherKnown (fst p) of None \<Rightarrow> -1 | Some ct \<Rightarrow> ct) in
      bindG (getsG (\<lambda>c. RepertoireByID (h_Store c))) (\<lambda>rep.
      case map_of rep (fst p) of
        None \<Rightarrow> okG unknown
      | Some peer \<Rightarrow>
          bindG (onStore (ParticipantEvents (PubKeyString peer) ct)) (\<lambda>participantEvents.
          foldG (\<lambda>e unknown. bindG (onStore (GetEvent e)) (\<lambda>ev. okG (unknown @ [ev])))
            participantEvents unknown)))"

definition eventDiff :: "(32 word \<times> int) list \<Rightarrow> ('d, Event list) cm" where
  "eventDiff otherKnown =
     bindG (getsG knownEvents) (\<lambda>myknown.
     bindG (foldG (participant_diff otherKnown) myknown []) (\<lambda>unknown.
     okG (ByTopologicalOrder unknown)))"

definition fromWire :: "WireEvent list \<Rightarrow> ('d, Event list) cm" where
  "fromWire wireEvents =
     foldG (\<lambda>w events. bindG (ReadWireInfo w) (\<lambda>ev. okG (events @ [ev]))) wireEvents []"

definition toWire :: "Event list \<Rightarrow> WireEvent list" where
  "toWire events = map ToWire events"

section \<open>Pools\<close>

definition addTransactions :: "byte list list \<Rightarrow> ('d, unit) cm" where
  "addTransactions txs = modifyG (\<lambda>c. c\<lparr>c_transactionPool := c_transactionPool c @ txs\<rparr>)"

definition addInternalTransaction :: "crypto \<Rightarrow> InternalTransaction \<Rightarrow> ('d, nat) cm" where
  "addInternalTransaction P tx =
     bindG (getsG (\<lambda>c. length (c_promiseHeap c))) (\<lambda>promise.
     bindG (modifyG (\<lambda>c. c\<lparr>c_promiseHeap := c_promiseHeap c @ [newJoinPromise tx],
              c_promises := AList.update (HashString P tx) promise (c_promises c),
              c_internalTransactionPool := c_internalTransactionPool c @ [tx]\<rparr>)) (\<lambda>_.
     okG promise))"

section \<open>Leave\<close>

text \<open>\<open>leave\<close> up to the first \<open>select\<close>: the promise it waits for, if it submitted a request.\<close>

definition leave_request :: "crypto \<Rightarrow> ('d, nat option) cm" where
  "leave_request P =
     bindG (getsG id) (\<lambda>c.
     case map_of (ps_ByID (c_validators c)) (v_ID (c_validator c)) of
       None \<Rightarrow> okG None
     | Some p \<Rightarrow>
         if length (ps_Peers (c_validators c)) \<le> 1 then okG None
         else if c_maintenanceMode c then okG None
         else
           let itx = it_Sign P (v_Key (c_validator c)) (NewInternalTransaction PEER_REMOVE p)
           in bindG (addInternalTransaction P itx) (\<lambda>promise. okG (Some promise)))"

text \<open>The two waits: whether the promise was answered in time, and the states that the loop looks at
  before the second timeout.\<close>

definition leave_reached :: "'d core_scheme \<Rightarrow> bool" where
  "leave_reached c \<longleftrightarrow> (case h_LastConsensusRound c of None \<Rightarrow> True | Some l \<Rightarrow> \<not> l < c_removedRound c)"

definition leave_wait :: "bool \<Rightarrow> PeerSet \<Rightarrow> 'd core_scheme list \<Rightarrow> unit res" where
  "leave_wait answered peers polled =
     (if \<not> answered then Err (Errorf ''Timeout waiting for leave request to go through consensus'')
      else if ps_Len peers \<ge> 1
      then if \<exists>c \<in> set polled. leave_reached c then Ok ()
           else Err (Errorf ''Timeout waiting for leaving node to reach TargetRound'')
      else Ok ())"

section \<open>Getters\<close>

definition getHead :: "('d, Event) cm" where
  "getHead = bindG (getsG c_head) (\<lambda>head. onStore (GetEvent head))"

definition getEventTransactions :: "string \<Rightarrow> ('d, byte list list) cm" where
  "getEventTransactions hash = bindG (getEvent hash) (\<lambda>ex. okG (eb_Transactions (ev_Body ex)))"

definition getConsensusTransactions :: "('d, byte list list) cm" where
  "getConsensusTransactions =
     bindG (getsG (\<lambda>c. ConsensusEvents (h_Store c))) (\<lambda>es.
     foldG (\<lambda>e txs.
       tryG (getEventTransactions e) (\<lambda>r. case r of
         Inl _ \<Rightarrow> errG (Errorf (''Consensus event not found: '' @ e))
       | Inr eTxs \<Rightarrow> okG (txs @ eTxs))) es [])"

definition core_processSigPool :: "crypto \<Rightarrow> ('d, unit) cm" where
  "core_processSigPool P = ProcessSigPool P"

definition getConsensusEvents :: "'d core_scheme \<Rightarrow> string list" where
  "getConsensusEvents c = ConsensusEvents (h_Store c)"

definition getConsensusEventsCount :: "'d core_scheme \<Rightarrow> int" where
  "getConsensusEventsCount c = ConsensusEventsCount (h_Store c)"

definition getUndeterminedEvents :: "'d core_scheme \<Rightarrow> string list" where
  "getUndeterminedEvents c = h_UndeterminedEvents c"

definition getPendingLoadedEvents :: "'d core_scheme \<Rightarrow> int" where
  "getPendingLoadedEvents c = h_PendingLoadedEvents c"

definition getLastConsensusRoundIndex :: "'d core_scheme \<Rightarrow> int option" where
  "getLastConsensusRoundIndex c = h_LastConsensusRound c"

definition getConsensusTransactionsCount :: "'d core_scheme \<Rightarrow> int" where
  "getConsensusTransactionsCount c = h_ConsensusTransactions c"

definition getLastCommitedRoundEventsCount :: "'d core_scheme \<Rightarrow> int" where
  "getLastCommitedRoundEventsCount c = h_LastCommitedRoundEvents c"

definition getLastBlockIndex :: "'d core_scheme \<Rightarrow> int" where
  "getLastBlockIndex c = is_lastBlock (h_Store c)"

end
