(* ===== verification/Signatures.thy ===== *)
theory Signatures
  imports Reads Ordering
begin

text \<open>
  Block signatures: what the check of a received block guarantees, and what the pool of signatures
  adds to the stored blocks.

  \<open>CheckBlock\<close> counts the entries of the block's map of signatures. When the keys of the map are
  texts of public keys as \<open>EncodeToString\<close> writes them, these are different validators. A block that
  comes from the network can have other keys: decoding drops the first two characters and ignores
  the letter case, so one validator has many spellings.
\<close>

section \<open>Counting valid signatures\<close>

definition valid_sig :: "crypto \<Rightarrow> Block \<Rightarrow> PeerSet \<Rightarrow> BlockSignature \<Rightarrow> bool" where
  "valid_sig P b ps s \<longleftrightarrow> map_of (ps_ByPubKey ps) (ValidatorHex s) \<noteq> None \<and> bl_Verify P b s = Ok True"

lemma count_valid_Ok:
  "count_valid P b ps sigs n = Ok m \<Longrightarrow> m = n + length (filter (valid_sig P b ps) sigs)"
proof (induction sigs arbitrary: n)
  case (Cons s sigs)
  from Cons.prems show ?case
    by (auto simp: valid_sig_def dest!: Cons.IH split: if_splits outcome.splits)
qed simp

lemma CheckBlock_Ok:
  assumes "CheckBlock P b ps = Ok ()"
  obtains sigs where "GetSignatures b = Ok sigs" and "PeerSet_Hash P ps = bb_PeersHash (bl_Body b)"
    and "TrustCount ps < length (filter (valid_sig P b ps) sigs)"
proof -
  from assms obtain sigs n where "PeerSet_Hash P ps = bb_PeersHash (bl_Body b)" "GetSignatures b = Ok sigs"
    "count_valid P b ps sigs 0 = Ok n" "\<not> n \<le> TrustCount ps"
    by (auto simp: CheckBlock_def bindO_eq_Ok split: if_splits)
  then show ?thesis using that count_valid_Ok [of P b ps sigs 0 n] by auto
qed

lemma GetSignature_of:
  assumes "GetSignatures b = Ok sigs" and "distinct (map fst (bl_Signatures b))"
    and "\<And>v. v \<in> fst ` set (bl_Signatures b) \<Longrightarrow> \<exists>w. v = EncodeToString w"
  shows "distinct (map ValidatorHex sigs)"
    and "s \<in> set sigs \<Longrightarrow> GetSignature b (ValidatorHex s) = Ok s \<and> ValidatorHex s \<in> fst ` set (bl_Signatures b)"
proof -
  have "map (\<lambda>bs. (ValidatorHex bs, bs_Signature bs)) sigs = bl_Signatures b \<and> (\<forall>bs\<in>set sigs. bs_Index bs = bl_Index b)"
    using assms(1,3) by (intro GetSignatures_loop_Ok) (force simp: GetSignatures_def)+
  then have eq: "bl_Signatures b = map (\<lambda>bs. (ValidatorHex bs, bs_Signature bs)) sigs"
    and idx: "\<forall>bs\<in>set sigs. bs_Index bs = bl_Index b" by simp_all
  show "distinct (map ValidatorHex sigs)" using assms(2) by (simp add: eq comp_def)
  show "GetSignature b (ValidatorHex s) = Ok s \<and> ValidatorHex s \<in> fst ` set (bl_Signatures b)" if s: "s \<in> set sigs"
  proof -
    have "(ValidatorHex s, bs_Signature s) \<in> set (bl_Signatures b)" using s by (auto simp: eq)
    then have "map_of (bl_Signatures b) (ValidatorHex s) = Some (bs_Signature s)" using assms(2) by simp
    then show ?thesis using idx s by (force simp: GetSignature_def ValidatorHex_def eq)
  qed
qed

section \<open>Properties of the check\<close>

text \<open>C6: A block that passes \<open>CheckBlock\<close>, and whose signatures are kept under texts of public keys as the
  program writes them, has the hash of the given peer-set and carries valid signatures of more than
  \<open>TrustCount\<close> different validators of it.\<close>

theorem check_block_sound:
  assumes "CheckBlock P b ps = Ok ()" and "distinct (map fst (bl_Signatures b))"
    and "\<And>v. v \<in> fst ` set (bl_Signatures b) \<Longrightarrow> \<exists>w. v = EncodeToString w"
  shows "PeerSet_Hash P ps = bb_PeersHash (bl_Body b) \<and>
    (\<exists>V. V \<subseteq> fst ` set (ps_ByPubKey ps) \<inter> fst ` set (bl_Signatures b) \<and> TrustCount ps < card V \<and>
       (\<forall>v \<in> V. \<exists>bs. GetSignature b v = Ok bs \<and> bl_Verify P b bs = Ok True))"
proof -
  obtain sigs where sigs: "GetSignatures b = Ok sigs" "PeerSet_Hash P ps = bb_PeersHash (bl_Body b)"
    "TrustCount ps < length (filter (valid_sig P b ps) sigs)" using assms(1) by (rule CheckBlock_Ok)
  note get = GetSignature_of [OF sigs(1) assms(2,3)]
  let ?V = "ValidatorHex ` set (filter (valid_sig P b ps) sigs)"
  have "distinct (map ValidatorHex (filter (valid_sig P b ps) sigs))" using get(1) by (rule distinct_map_filter)
  then have "card ?V = length (filter (valid_sig P b ps) sigs)"
    by (metis distinct_card length_map list.set_map)
  moreover have "?V \<subseteq> fst ` set (ps_ByPubKey ps) \<inter> fst ` set (bl_Signatures b)"
    using get(2) by (auto simp: valid_sig_def map_of_eq_None_iff)
  moreover have "\<exists>bs. GetSignature b v = Ok bs \<and> bl_Verify P b bs = Ok True" if "v \<in> ?V" for v
    using that get(2) by (auto simp: valid_sig_def)
  ultimately show ?thesis using sigs(2,3) by (intro conjI exI [of _ ?V]) auto
qed

definition two_keys :: PeerSet where
  "two_keys = NewPeerSet [NewPeer ''0XAB'' [] [], NewPeer ''0XCD'' [] []]"

definition checked_block :: "string list \<Rightarrow> Block" where
  "checked_block keys =
     (NewBlock toy_crypto 3 5 [] (ps_Peers two_keys) [[1]] [] 0)\<lparr>bl_Signatures := map (\<lambda>v. (v, ''2|1'')) keys\<rparr>"

theorem check_block_sound_witness:
  "\<exists>V. V \<subseteq> {''0XAB'', ''0XCD''} \<and> 1 < card V \<and>
     (\<forall>v \<in> V. \<exists>bs. GetSignature (checked_block [''0XAB'', ''0XCD'']) v = Ok bs \<and>
        bl_Verify toy_crypto (checked_block [''0XAB'', ''0XCD'']) bs = Ok True)"
proof -
  let ?b = "checked_block [''0XAB'', ''0XCD'']"
  have 1: "CheckBlock toy_crypto ?b two_keys = Ok ()" by code_simp
  have 2: "TrustCount two_keys = 1" by code_simp
  have 3: "fst ` set (bl_Signatures ?b) = {EncodeToString [0xAB], EncodeToString [0xCD]}" by code_simp
  have 4: "distinct (map fst (bl_Signatures ?b))" by code_simp
  have 5: "EncodeToString [0xAB] = ''0XAB''" "EncodeToString [0xCD] = ''0XCD''" by code_simp+
  have "\<exists>w. v = EncodeToString w" if "v \<in> fst ` set (bl_Signatures ?b)" for v
    using that unfolding 3 by blast
  then show ?thesis using check_block_sound [OF 1 4] unfolding 2 3 5 by blast
qed


section \<open>The pool of signatures\<close>

text \<open>The signature \<open>sig\<close> under the key \<open>v\<close> is a valid signature of the block by a validator of the
  block's round.\<close>

definition signed_by :: "crypto \<Rightarrow> PeerSetCache \<Rightarrow> Block \<Rightarrow> string \<Rightarrow> string \<Rightarrow> bool" where
  "signed_by P psc b v sig \<longleftrightarrow>
     (\<exists>bs ps. v = ValidatorHex bs \<and> sig = bs_Signature bs \<and> psc_Get psc (bl_RoundReceived b) = Ok ps \<and>
        map_of (ps_ByPubKey ps) v \<noteq> None \<and> bl_Verify P b bs = Ok True)"

definition block_ok :: "crypto \<Rightarrow> PeerSetCache \<Rightarrow> int \<Rightarrow> Block \<Rightarrow> bool" where
  "block_ok P psc i b \<longleftrightarrow>
     bl_Index b = i \<and> distinct (map fst (bl_Signatures b)) \<and>
     (\<forall>(v, sig) \<in> set (bl_Signatures b). signed_by P psc b v sig)"

definition trusted :: "PeerSetCache \<Rightarrow> Block \<Rightarrow> bool" where
  "trusted psc b \<longleftrightarrow>
     (\<exists>ps. psc_Get psc (bl_RoundReceived b) = Ok ps \<and> TrustCount ps < length (bl_Signatures b))"

definition sig_inv :: "crypto \<Rightarrow> 'c hashgraph_scheme \<Rightarrow> bool" where
  "sig_inv P h \<longleftrightarrow>
     (let bc = is_blockCache (h_Store h); psc = is_peerSetCache (h_Store h) in
      lru_inv bc \<and> (\<forall>i b. lru_lookup bc i = Some b \<longrightarrow> block_ok P psc i b) \<and>
      (\<forall>a b. h_AnchorBlock h = Some a \<longrightarrow> lru_lookup bc a = Some b \<longrightarrow> trusted psc b))"

lemma SetSignature_simps [simp]:
  "bl_Body (SetSignature bs b) = bl_Body b" "bl_Index (SetSignature bs b) = bl_Index b"
  "bl_RoundReceived (SetSignature bs b) = bl_RoundReceived b" "bl_Verify P (SetSignature bs b) = bl_Verify P b"
  by (simp_all add: SetSignature_def bl_Verify_def fun_eq_iff)

lemma length_update: "length l \<le> length (AList.update k v l)"
  by (induction l) auto

lemma signed_by_SetSignature [simp]: "signed_by P psc (SetSignature bs b) = signed_by P psc b"
  by (simp add: signed_by_def fun_eq_iff)

lemma block_ok_SetSignature:
  assumes "block_ok P psc i b" and "signed_by P psc b (ValidatorHex bs) (bs_Signature bs)"
  shows "block_ok P psc i (SetSignature bs b)"
proof -
  have dist: "distinct (map fst (bl_Signatures (SetSignature bs b)))"
    using assms(1) by (simp add: block_ok_def SetSignature_def distinct_update)
  have "signed_by P psc b v sig" if "(v, sig) \<in> set (bl_Signatures (SetSignature bs b))" for v sig
  proof -
    have "map_of (bl_Signatures (SetSignature bs b)) v = Some sig" using that dist by simp
    then show ?thesis using assms
      by (auto simp: SetSignature_def block_ok_def split: if_splits dest: map_of_SomeD)
  qed
  then show ?thesis using assms(1) dist by (auto simp: block_ok_def)
qed

lemma trusted_SetSignature: "trusted psc b \<Longrightarrow> trusted psc (SetSignature bs b)"
  using length_update [of "bl_Signatures b"] by (force simp: trusted_def SetSignature_def intro: less_le_trans)

lemma SetAnchorBlock_run:
  assumes "psc_Get (is_peerSetCache (h_Store h)) (bl_RoundReceived b) = Ok ps"
  shows "SetAnchorBlock b h = (Ok (),
    if TrustCount ps < length (bl_Signatures b) \<and> (case h_AnchorBlock h of None \<Rightarrow> True | Some a \<Rightarrow> a < bl_Index b)
    then h\<lparr>h_AnchorBlock := Some (bl_Index b)\<rparr> else h)"
  using assms by (simp add: SetAnchorBlock_def setAnchorBlock_def onStore_def GetPeerSet_def bindG_run go_defs)

lemma process_sig_cases:
  assumes "process_sig P bs h = (r, h')"
  obtains (none) "h' = h\<lparr>h_Store := (h_Store h)\<lparr>is_blockCache := lru_touch (bs_Index bs) (is_blockCache (h_Store h))\<rparr>\<rparr>"
  | (added) b ps where "lru_lookup (is_blockCache (h_Store h)) (bs_Index bs) = Some b"
      "psc_Get (is_peerSetCache (h_Store h)) (bl_RoundReceived b) = Ok ps"
      "map_of (ps_ByPubKey ps) (ValidatorHex bs) \<noteq> None" "bl_Verify P b bs = Ok True"
      "is_blockCache (h_Store h') = lru_add (bl_Index b) (SetSignature bs b)
         (lru_touch (bl_Index b) (lru_touch (bs_Index bs) (is_blockCache (h_Store h))))"
      "is_peerSetCache (h_Store h') = is_peerSetCache (h_Store h)"
      "h_AnchorBlock h' =
         (if TrustCount ps < length (bl_Signatures (SetSignature bs b)) \<and>
             (case h_AnchorBlock h of None \<Rightarrow> True | Some a \<Rightarrow> a < bl_Index b)
          then Some (bl_Index b) else h_AnchorBlock h)"
proof (cases "lru_lookup (is_blockCache (h_Store h)) (bs_Index bs)")
  case None
  then show ?thesis using assms none by (simp add: process_sig_def tryG_run onStore_def GetBlock_run go_defs)
next
  case (Some b)
  note run = assms [unfolded process_sig_def] and simps = tryG_run onStore_def GetBlock_run GetPeerSet_def go_defs bindG_run
  show ?thesis
  proof (cases "psc_Get (is_peerSetCache (h_Store h)) (bl_RoundReceived b)")
    case (Ok ps)
    show ?thesis
    proof (cases "map_of (ps_ByPubKey ps) (ValidatorHex bs) = None \<or> bl_Verify P b bs \<noteq> Ok True")
      case True
      then have "h' = h\<lparr>h_Store := (h_Store h)\<lparr>is_blockCache := lru_touch (bs_Index bs) (is_blockCache (h_Store h))\<rparr>\<rparr>"
        using run Some Ok by (cases "bl_Verify P b bs") (auto simp: simps split: if_splits)
      then show ?thesis by (rule none)
    next
      case False
      then have ok: "map_of (ps_ByPubKey ps) (ValidatorHex bs) \<noteq> None" "bl_Verify P b bs = Ok True" by auto
      then show ?thesis using run Some Ok
        by (intro added [OF Some Ok ok])
          (auto simp: simps SetBlock_run SetAnchorBlock_run Let_def split: if_splits option.splits)
    qed
  qed (use run Some none in \<open>simp_all add: simps\<close>)
qed

lemma sig_inv_process_sig:
  assumes inv: "sig_inv P h" and run: "process_sig P bs h = (r, h')"
  shows "sig_inv P h'"
  using run
proof (cases rule: process_sig_cases)
  case none
  then show ?thesis using inv by (simp add: sig_inv_def Let_def lru_inv_Get)
next
  case (added b ps)
  let ?bc = "is_blockCache (h_Store h)" and ?psc = "is_peerSetCache (h_Store h)" and ?i = "bl_Index b"
  let ?c = "lru_touch ?i (lru_touch (bs_Index bs) ?bc)"
  have old: "block_ok P ?psc i c" if "lru_lookup ?bc i = Some c" for i c
    using inv that by (simp add: sig_inv_def Let_def)
  have c: "lru_inv ?c" using inv by (simp add: sig_inv_def Let_def lru_inv_Get)
  have "signed_by P ?psc b (ValidatorHex bs) (bs_Signature bs)" using added by (auto simp: signed_by_def)
  then have new: "block_ok P ?psc ?i (SetSignature bs b)"
    using old [OF added(1)] block_ok_SetSignature [of P ?psc ?i] by (auto simp: block_ok_def)
  have key: "lru_lookup ?bc ?i = Some b" using old [OF added(1)] added(1) by (simp add: block_ok_def)
  have hit: "(i = ?i \<and> d = SetSignature bs b) \<or> (i \<noteq> ?i \<and> lru_lookup ?bc i = Some d)"
    if "lru_lookup (is_blockCache (h_Store h')) i = Some d" for i d
    using lru_lookup_Add_sound [OF c, of ?i "SetSignature bs b" i d] that added(5) by simp
  have anchor: "trusted ?psc d" if "h_AnchorBlock h' = Some a" "lru_lookup (is_blockCache (h_Store h')) a = Some d" for a d
  proof (cases "a = ?i")
    case True
    then have d: "d = SetSignature bs b" using hit [OF that(2)] by simp
    show ?thesis
    proof (cases "h_AnchorBlock h = Some ?i")
      case True
      then show ?thesis using inv key d by (auto simp: sig_inv_def Let_def intro: trusted_SetSignature)
    next
      case False
      then show ?thesis using that(1) added(2,7) \<open>a = ?i\<close> d by (auto simp: trusted_def split: if_splits)
    qed
  next
    case False
    then show ?thesis using inv that(1) added(7) hit [OF that(2)] by (auto simp: sig_inv_def Let_def split: if_splits)
  qed
  have "block_ok P ?psc i d" if "lru_lookup (is_blockCache (h_Store h')) i = Some d" for i d
    using hit [OF that] new old by auto
  then show ?thesis using anchor c added(5,6) by (simp add: sig_inv_def Let_def lru_inv_Add)
qed

lemma anchor_process_sig:
  assumes "process_sig P bs h = (r, h')" and "h_AnchorBlock h = Some a"
  shows "\<exists>a' \<ge> a. h_AnchorBlock h' = Some a'"
  using assms(1) by (cases rule: process_sig_cases) (use assms(2) in \<open>auto intro: less_imp_le\<close>)

text \<open>C16: Processing the pool of signatures keeps the stored blocks authentic, whatever its outcome: every
  signature on a stored block is a valid signature of it by a validator of the block's round, one per
  validator; the anchor block carries more than \<open>TrustCount\<close> of them; and the anchor never moves
  back.\<close>

theorem sig_pool_keeps_blocks_authentic:
  assumes "sig_inv P h" and "ProcessSigPool P h = (r, h')"
  shows "sig_inv P h' \<and> (\<forall>a. h_AnchorBlock h = Some a \<longrightarrow> (\<exists>a' \<ge> a. h_AnchorBlock h' = Some a'))"
proof -
  define J where "J h1 \<longleftrightarrow> sig_inv P h1 \<and>
    (\<forall>a. h_AnchorBlock h = Some a \<longrightarrow> (\<exists>a' \<ge> a. h_AnchorBlock h1 = Some a'))" for h1 :: "'a hashgraph_scheme"
  have step: "J h2" if "J h1" "process_sig P bs h1 = (r1, h2)" for h1 h2 bs r1
    using that sig_inv_process_sig [OF _ that(2)] anchor_process_sig [OF that(2)] order_trans
    unfolding J_def by metis
  have "hoare J (process_sig P bs) (\<lambda>_. J) J" for bs
    by (rule hoareI) (auto dest: step)
  then have "hoare J (foldG (\<lambda>bs _. process_sig P bs) (sp_Slice (h_PendingSignatures h)) ()) (\<lambda>_. J) J"
    by (intro hoare_foldG) simp
  moreover have "foldG (\<lambda>bs _. process_sig P bs) (sp_Slice (h_PendingSignatures h)) () h = (r, h')"
    using assms(2) by (simp add: ProcessSigPool_def)
  moreover have "J h" using assms(1) by (simp add: J_def)
  ultimately have "J h'" by (cases r) (auto dest: hoareD hoareD_fail)
  then show ?thesis by (simp add: J_def)
qed

definition pool_h0 :: hashgraph where
  "pool_h0 =
     (let s = snd (SetBlock (checked_block []) (snd (SetPeerSet 0 two_keys (NewInmemStore 10)))) in
      (NewHashgraph s)\<lparr>h_PendingSignatures := foldl (\<lambda>sp bs. sp_Add bs sp) NewSigPool
         [\<lparr>bs_Validator = [0xAB], bs_Index = 3, bs_Signature = ''2|1''\<rparr>,
          \<lparr>bs_Validator = [0xCD], bs_Index = 3, bs_Signature = ''2|1''\<rparr>]\<rparr>)"

theorem sig_pool_keeps_blocks_authentic_witness:
  "sig_inv toy_crypto (snd (ProcessSigPool toy_crypto pool_h0)) \<and>
   h_AnchorBlock (snd (ProcessSigPool toy_crypto pool_h0)) = Some 3"
proof -
  have "lru_evictList (is_blockCache (h_Store pool_h0)) = [(3, checked_block [])]"
    "lru_size (is_blockCache (h_Store pool_h0)) = 10" "h_AnchorBlock pool_h0 = None"
    "bl_Index (checked_block []) = 3" "bl_Signatures (checked_block []) = []" by code_simp+
  then have "sig_inv toy_crypto pool_h0"
    by (auto simp: sig_inv_def Let_def lru_inv_def lru_lookup_def block_ok_def split: if_splits)
  moreover have "h_AnchorBlock (snd (ProcessSigPool toy_crypto pool_h0)) = Some 3" by code_simp
  ultimately show ?thesis
    using sig_pool_keeps_blocks_authentic [of toy_crypto pool_h0, OF _ surjective_pairing] by blast
qed

end
