(* ===== verification/Membership.thy ===== *)
theory Membership
  imports Core Signatures Reachable
begin

text \<open>
  The commit callback of the core: the contract that the hashgraph asks of its client, and the
  dynamic membership that a committed block brings about. The receipts of the application decide
  which internal transactions take effect; the next peer-set is recorded six rounds after the block's,
  and the handlers that wait for a decision are answered.
\<close>

section \<open>The contract of the callback\<close>

named_theorems core_intro \<open>statements of the core that keep the events of the store\<close>

lemma keeps_hframe_core [core_intro]:
  assumes "\<And>c. hashgraph.truncate (f c) = hashgraph.truncate c"
  shows "keeps (hframe P Q) (modifyG (f :: 'd core_scheme \<Rightarrow> 'd core_scheme))"
proof (rule keeps_hframe_modify)
  fix c :: "'d core_scheme"
  show "h_Store (f c) = h_Store c" using arg_cong [OF assms [of c], of h_Store] by (simp add: hashgraph.defs)
  show "h_ancestorCache (f c) = h_ancestorCache c"
    using arg_cong [OF assms [of c], of h_ancestorCache] by (simp add: hashgraph.defs)
  show "h_selfAncestorCache (f c) = h_selfAncestorCache c"
    using arg_cong [OF assms [of c], of h_selfAncestorCache] by (simp add: hashgraph.defs)
  show "h_timestampCache (f c) = h_timestampCache c"
    using arg_cong [OF assms [of c], of h_timestampCache] by (simp add: hashgraph.defs)
qed

lemma keeps_hframe_poke_block [core_intro]: "keeps (hframe P Q) (poke_block b)"
  unfolding poke_block_def by (intro hf.keeps_modify hframe_store sframe_same) simp_all

lemma keeps_hframe_accepted [core_intro]:
  "keeps (hframe P Q) (processAcceptedInternalTransactions P' rr receipts :: ('d, unit) cm)"
proof -
  have "keeps (hframe P Q) (process_receipt er r acc :: ('d, _) cm)" for er r acc
    unfolding process_receipt_def Let_def
    by (cases acc; cases "itb_Type (it_Body (itr_InternalTransaction r))")
      (auto intro!: hf.keeps_basic core_intro simp: hashgraph.defs)
  moreover have "keeps (hframe P Q) (record_validators er v p :: ('d, unit) cm)" for er v p
    unfolding record_validators_def setPeers_def
    by (intro hf.keeps_basic core_intro hframe_intro) (simp_all add: hashgraph.defs)
  moreover have "keeps (hframe P Q) (answer_promise P' er r :: ('d, unit) cm)" for er r
    unfolding answer_promise_def Let_def
    by (intro hf.keeps_basic keeps_rules core_intro) (simp_all add: hashgraph.defs)
  ultimately show ?thesis
    unfolding processAcceptedInternalTransactions_def Let_def
    by (intro hf.keeps_basic keeps_rules) simp_all
qed

lemma keeps_hframe_commit [core_intro]: "keeps (hframe P Q) (commit P' app b :: ('d, unit) cm)"
  unfolding commit_def signBlock_def Let_def
  by (intro hf.keeps_basic keeps_rules core_intro hframe_intro) (simp_all add: hashgraph.defs)

section \<open>Receipts\<close>

text \<open>The effect of a receipt on a peer-set, whether it has one, and whether it removes the node.\<close>

definition apply_receipt :: "InternalTransactionReceipt \<Rightarrow> PeerSet \<Rightarrow> PeerSet" where
  "apply_receipt r ps =
     (let b = it_Body (itr_InternalTransaction r) in
      if \<not> itr_Accepted r then ps
      else case itb_Type b of
        PEER_ADD \<Rightarrow> WithNewPeer ps (itb_Peer b) | PEER_REMOVE \<Rightarrow> WithRemovedPeer ps (itb_Peer b)
      | UnknownType _ \<Rightarrow> ps)"

definition effective :: "InternalTransactionReceipt \<Rightarrow> bool" where
  "effective r \<longleftrightarrow> itr_Accepted r \<and> itb_Type (it_Body (itr_InternalTransaction r)) \<in> {PEER_ADD, PEER_REMOVE}"

definition removes :: "32 word \<Rightarrow> InternalTransactionReceipt \<Rightarrow> bool" where
  "removes i r \<longleftrightarrow> itr_Accepted r \<and> itb_Type (it_Body (itr_InternalTransaction r)) = PEER_REMOVE \<and>
     peer_ID (itb_Peer (it_Body (itr_InternalTransaction r))) = i"

lemma process_receipt_run:
  "process_receipt er r (v, p, ch) c =
     (Ok (apply_receipt r v, apply_receipt r p, ch \<or> effective r),
      if removes (v_ID (c_validator c)) r then c\<lparr>c_removedRound := er\<rparr> else c)"
  by (cases "itb_Type (it_Body (itr_InternalTransaction r))")
    (simp_all add: process_receipt_def Let_def apply_receipt_def effective_def removes_def go_defs)

lemma process_receipts_run:
  "foldG (process_receipt er) rs (v, p, ch) c =
     (Ok (fold apply_receipt rs v, fold apply_receipt rs p, ch \<or> (\<exists>r \<in> set rs. effective r)),
      if \<exists>r \<in> set rs. removes (v_ID (c_validator c)) r then c\<lparr>c_removedRound := er\<rparr> else c)"
proof (induction rs arbitrary: v p ch c)
  case Nil
  show ?case by (simp add: go_defs)
next
  case (Cons r rs)
  show ?case by (simp add: bindG_run(1) [OF process_receipt_run] Cons.IH disj_assoc)
qed

lemma addParticipant_psc: "is_peerSetCache (snd (addParticipant p s)) = is_peerSetCache s"
  by (simp add: addParticipant_def bindG_def go_defs split_beta Let_def add_root_def split: prod.splits outcome.split option.split)

lemma addParticipants_psc:
  "is_peerSetCache (snd (foldG (\<lambda>p _. tryG (addParticipant p) (\<lambda>_. okG ())) ps u s)) = is_peerSetCache s"
  using addParticipant_psc
  by (induction ps arbitrary: s u)
    (auto simp: bindG_def tryG_def go_defs split: prod.splits outcome.splits, (metis snd_conv)+)

lemma SetPeerSet_psc: "is_peerSetCache (snd (SetPeerSet r ps s)) = snd (psc_Set r ps (is_peerSetCache s))"
  by (auto simp: SetPeerSet_def bindG_def split_beta addParticipants_psc split: prod.splits outcome.splits)

lemma SetPeerSet_Ok: "SetPeerSet r ps s = (Ok u, s') \<Longrightarrow> fst (psc_Set r ps (is_peerSetCache s)) = Ok ()"
  by (auto simp: SetPeerSet_def bindG_eq_Ok split_beta)

lemma record_validators_Ok:
  assumes "record_validators er v p c = (Ok u, c')"
  shows "fst (psc_Set er v (is_peerSetCache (h_Store c))) = Ok ()"
    and "is_peerSetCache (h_Store c') = snd (psc_Set er v (is_peerSetCache (h_Store c)))"
    and "c_validators c' = v" and "c_peers c' = p" and "c_targetRound c' = max er (c_targetRound c)"
    and "c_lastPeerChangeRound c' = er" and "c_promises c' = c_promises c" and "c_promiseHeap c' = c_promiseHeap c"
    and "c_removedRound c' = c_removedRound c" and "c_validator c' = c_validator c"
  using assms SetPeerSet_Ok [of er v "h_Store c"] SetPeerSet_psc [of er v "h_Store c"]
  by (auto simp: record_validators_def setPeers_def bindG_eq_Ok wrapG_Ok onStore_def go_defs max_def split: prod.splits if_splits)

section \<open>Promises\<close>

abbreviation receipt_hash :: "crypto \<Rightarrow> InternalTransactionReceipt \<Rightarrow> string" where
  "receipt_hash P r \<equiv> HashString P (itr_InternalTransaction r)"

definition promise_response :: "int \<Rightarrow> PeerSet \<Rightarrow> InternalTransactionReceipt \<Rightarrow> joinPromiseResponse" where
  "promise_response er validators r =
     (if itr_Accepted r then \<lparr>jpr_accepted = True, jpr_acceptedRound = er, jpr_peers = ps_Peers validators\<rparr>
      else \<lparr>jpr_accepted = False, jpr_acceptedRound = 0, jpr_peers = []\<rparr>)"

lemma answer_promise_Ok:
  assumes "answer_promise P er r c = (Ok u, c')"
  shows "c' = (case map_of (c_promises c) (receipt_hash P r) of
      None \<Rightarrow> c
    | Some p \<Rightarrow> c\<lparr>c_promiseHeap := (c_promiseHeap c)[p := (c_promiseHeap c ! p)\<lparr>jp_respCh :=
          jp_respCh (c_promiseHeap c ! p) @ [promise_response er (c_validators c) r]\<rparr>],
        c_promises := AList.delete (receipt_hash P r) (c_promises c)\<rparr>)"
  using assms
  by (auto simp: answer_promise_def Let_def go_defs bindG_eq_Ok jp_respond_def promise_response_def
      split: option.splits if_splits)

lemma answer_promises_frame:
  assumes "foldG (\<lambda>r _. answer_promise P er r) rs u c = (Ok v, c')"
  shows "c' = c\<lparr>c_promiseHeap := c_promiseHeap c', c_promises := c_promises c'\<rparr>"
    and "map_of (c_promises c') = (map_of (c_promises c)) |` (- receipt_hash P ` set rs)"
  using assms
proof (induction rs arbitrary: u c)
  case Nil
  { case 1 then show ?case by (simp add: go_defs) }
  { case 2 then show ?case by (simp add: go_defs) }
next
  case (Cons r rs)
  have split: "\<exists>c1. c1 = c\<lparr>c_promiseHeap := c_promiseHeap c1, c_promises := c_promises c1\<rparr> \<and>
      map_of (c_promises c1) = (map_of (c_promises c)) |` (- {receipt_hash P r}) \<and>
      foldG (\<lambda>r _. answer_promise P er r) rs () c1 = (Ok v, c')"
    if run: "foldG (\<lambda>r _. answer_promise P er r) (r # rs) u c = (Ok v, c')" for c u
  proof -
    obtain c1 where c1: "answer_promise P er r c = (Ok (), c1)" "foldG (\<lambda>r _. answer_promise P er r) rs () c1 = (Ok v, c')"
      using run by (auto simp: bindG_eq_Ok)
    have "c1 = c\<lparr>c_promiseHeap := c_promiseHeap c1, c_promises := c_promises c1\<rparr>"
      "map_of (c_promises c1) = (map_of (c_promises c)) |` (- {receipt_hash P r})"
      using answer_promise_Ok [OF c1(1)]
      by (auto split: option.splits simp: restrict_map_def fun_eq_iff)
    then show ?thesis using c1(2) by blast
  qed
  { case 1
    obtain c1 where c1: "c1 = c\<lparr>c_promiseHeap := c_promiseHeap c1, c_promises := c_promises c1\<rparr>"
      "foldG (\<lambda>r _. answer_promise P er r) rs () c1 = (Ok v, c')" using split [OF 1] by blast
    show ?case using c1(1) Cons.IH(1) [OF c1(2)] by (cases c; cases c1) simp }
  { case 2
    obtain c1 where c1: "map_of (c_promises c1) = (map_of (c_promises c)) |` (- {receipt_hash P r})"
      "foldG (\<lambda>r _. answer_promise P er r) rs () c1 = (Ok v, c')" using split [OF 2] by blast
    show ?case using c1(1) Cons.IH(2) [OF c1(2)] by (auto simp: restrict_map_def fun_eq_iff) }
qed

lemma fold_ineffective: "\<forall>r \<in> set rs. \<not> effective r \<Longrightarrow> fold apply_receipt rs ps = ps"
  by (induction rs) (auto simp: effective_def apply_receipt_def Let_def split: TransactionType.splits)

section \<open>Properties\<close>

text \<open>C11: The callback that the core installs in its hashgraph meets the contract that the hashgraph relies
  on: whatever the application answers, committing a block keeps the events of the store and the memo
  tables of the graph coherent. Hence every state that the consensus methods reach with this callback
  satisfies the invariant of the hashgraph.\<close>

theorem core_commit_contract:
  "keeps_events P (commit P app :: Block \<Rightarrow> ('d, unit) cm) \<and>
   (\<forall>c :: 'd core_scheme. hg_reachable P (commit P app) c \<longrightarrow> hg_inv P c)"
proof -
  have "keeps_events P (commit P app :: Block \<Rightarrow> ('d, unit) cm)"
    unfolding keeps_events_def by (intro allI core_intro)
  then show ?thesis using hg_reachable_inv by blast
qed


section \<open>A sample core\<close>

definition sample_core :: core where
  "sample_core =
     newCore \<lparr>v_Key = [1], v_Moniker = ''a''\<rparr> (NewPeerSet [sample_peer 1]) (NewPeerSet [sample_peer 1])
       (NewInmemStore 10) False"

definition sample_app :: app where
  "sample_app b = Ok \<lparr>cr_StateHash = [1], cr_InternalTransactionReceipts = []\<rparr>"

definition sample_join :: InternalTransaction where
  "sample_join = NewInternalTransaction PEER_ADD (sample_peer 2)"

definition sample_joining :: core where
  "sample_joining = snd (addInternalTransaction sample_crypto sample_join sample_core)"

theorem core_commit_contract_witness: "hg_inv sample_crypto sample_core"
proof -
  have "hg_reachable sample_crypto (commit sample_crypto sample_app) sample_core"
    unfolding sample_core_def newCore_def by (intro hg_init hg_new) (simp add: hashgraph.defs NewHashgraph_def Let_def)
  then show ?thesis using core_commit_contract [of sample_crypto sample_app] by blast
qed


end
