(* ===== verification/Wire.thy ===== *)
theory Wire
  imports Membership
begin

text \<open>
  The compact form in which events travel: a parent is an identifier of its creator and an index,
  and the block signatures leave out the validator. A receiver that knows the parents rebuilds the event.
\<close>

text \<open>The receiver finds the stored event \<open>f\<close> of the sender, by the identifier of its creator and its index,
  under the same hash.\<close>

definition resolves :: "'c hashgraph_scheme \<Rightarrow> 'd hashgraph_scheme \<Rightarrow> string \<Rightarrow> bool" where
  "resolves h1 h2 x \<longleftrightarrow>
     (\<forall>f p. dag h1 x = Some f \<longrightarrow> map_of (RepertoireByPubKey (h_Store h1)) (Creator f) = Some p \<longrightarrow>
        (\<exists>q. map_of (RepertoireByID (h_Store h2)) (peer_ID p) = Some q \<and> PubKeyString q = Creator f \<and>
           pec_GetItem (is_participantEventsCache (h_Store h2)) (Creator f) (ev_Index f) = Ok x))"

definition knows_creator :: "'c hashgraph_scheme \<Rightarrow> 'd hashgraph_scheme \<Rightarrow> string \<Rightarrow> bool" where
  "knows_creator h1 h2 c \<longleftrightarrow>
     (\<forall>p. map_of (RepertoireByPubKey (h_Store h1)) c = Some p \<longrightarrow>
        (\<exists>q. map_of (RepertoireByID (h_Store h2)) (peer_ID p) = Some q \<and> PubKeyString q = c))"

definition self_signed :: "Event \<Rightarrow> bool" where
  "self_signed e \<longleftrightarrow> (\<forall>bs \<in> set (eb_BlockSignatures (ev_Body e)). bs_Validator bs = eb_Creator (ev_Body e))"

lemma wire_signatures:
  "self_signed e \<Longrightarrow>
   we_BlockSignatures (ToWire (ev_SetWireInfo a b c i e)) (eb_Creator (ev_Body e)) = eb_BlockSignatures (ev_Body e)"
  by (auto simp: we_BlockSignatures_def ToWire_def WireBlockSignatures_def ev_SetWireInfo_def bs_ToWire_def
      self_signed_def comp_def intro!: map_idI)

text \<open>The wire fields of an event that can be inserted.\<close>

lemma SetWireInfo_fields:
  assumes inv: "hg_inv P h" and ins: "insertable P h e" and run: "hg_SetWireInfo e h = (Ok e', h')"
  obtains sp op p si oc oi where "SelfParent e = Ok sp" "OtherParent e = Ok op" "e' = ev_SetWireInfo si oc oi (peer_ID p) e"
    "map_of (RepertoireByPubKey (h_Store h)) (Creator e) = Some p"
    "if sp = '''' then si = -1 else \<exists>f. dag h sp = Some f \<and> Creator f = Creator e \<and> ev_Index f = si \<and> 0 \<le> si"
    "if op = '''' then oc = 0 \<and> oi = -1 else \<exists>f q. dag h op = Some f \<and> ev_Index f = oi \<and> 0 \<le> oi \<and> oc = peer_ID q \<and>
       map_of (RepertoireByPubKey (h_Store h)) (Creator f) = Some q"
proof -
  have wf: "dag_wf (dag h) (chain_of (h_Store h))" using inv by (simp add: hg_inv_def)
  obtain sp op where sp: "SelfParent e = Ok sp" and op: "OtherParent e = Ok op"
    and self: "if sp = '''' then True else \<exists>i. chain_of (h_Store h) (Creator e) = Some (sp, i)"
    and other: "op \<noteq> '''' \<longrightarrow> dag h op \<noteq> None" using ins by (auto simp: insertable_def split: if_splits)
  obtain p where p: "map_of (RepertoireByPubKey (h_Store h)) (Creator e) = Some p"
    using run by (auto simp: hg_SetWireInfo_def bindG_eq_Ok go_defs split: option.splits)
  have spf: "\<exists>f. dag h sp = Some f \<and> Creator f = Creator e \<and> 0 \<le> ev_Index f" if "sp \<noteq> ''''"
    using self that dag_wfD(9) [OF wf ToUpper_Creator] dag_wfD(4) [OF wf] by (metis option.inject prod.inject)
  have opf: "dag h op = Some f \<Longrightarrow> 0 \<le> ev_Index f" for f using dag_wfD(4) [OF wf] by blast
  obtain si oc oi where "e' = ev_SetWireInfo si oc oi (peer_ID p) e"
    "if sp = '''' then si = -1 else \<exists>f. dag h sp = Some f \<and> ev_Index f = si"
    "if op = '''' then oc = 0 \<and> oi = -1 else \<exists>f q. dag h op = Some f \<and> ev_Index f = oi \<and> oc = peer_ID q \<and>
       map_of (RepertoireByPubKey (h_Store h)) (Creator f) = Some q"
    using run p sp op other
    by (auto simp: hg_SetWireInfo_def bindG_eq_Ok go_defs onStore_GetEvent dag_def sdag_def split: option.splits if_splits)
  then show ?thesis using spf opf by (intro that [OF sp op _ p]) (auto split: if_splits)
qed

text \<open>C20: An event that travels in its compact form arrives as it was. The sender, which can insert the event,
  fills in the wire fields and sends the wire form; a receiver that knows the creators and finds the
  parents under the same hashes rebuilds an event with the same content, the same hash and a signature
  that verifies if and only if the original does, without changing its state.\<close>

theorem wire_roundtrip:
  assumes inv: "hg_inv P h1" and ins: "insertable P h1 e" and sent: "hg_SetWireInfo e h1 = (Ok e1, h1')"
    and shape: "eb_Parents (ev_Body e) = [sp, op]" "self_signed e"
    and known: "knows_creator h1 h2 (Creator e)" "resolves h1 h2 sp" "resolves h1 h2 op"
  shows "\<exists>e2. ReadWireInfo (ToWire e1) h2 = (Ok e2, h2) \<and> eb_exported (ev_Body e2) = eb_exported (ev_Body e) \<and>
    Hex P e2 = Hex P e \<and> ev_Verify P e2 = ev_Verify P e"
proof -
  obtain sp' op' p si oc oi where w: "SelfParent e = Ok sp'" "OtherParent e = Ok op'" "e1 = ev_SetWireInfo si oc oi (peer_ID p) e"
    "map_of (RepertoireByPubKey (h_Store h1)) (Creator e) = Some p"
    "if sp' = '''' then si = -1 else \<exists>f. dag h1 sp' = Some f \<and> Creator f = Creator e \<and> ev_Index f = si \<and> 0 \<le> si"
    "if op' = '''' then oc = 0 \<and> oi = -1 else \<exists>f q. dag h1 op' = Some f \<and> ev_Index f = oi \<and> 0 \<le> oi \<and> oc = peer_ID q \<and>
       map_of (RepertoireByPubKey (h_Store h1)) (Creator f) = Some q"
    using inv ins sent by (rule SetWireInfo_fields)
  have sp: "sp' = sp" "op' = op" using w(1,2) shape(1) by (auto simp: SelfParent_def OtherParent_def)
  obtain q where q: "map_of (RepertoireByID (h_Store h2)) (peer_ID p) = Some q" "PubKeyString q = Creator e"
    using known(1) w(4) by (auto simp: knows_creator_def)
  have key: "DecodeFromString (Creator e) = Ok (eb_Creator (ev_Body e), None)"
    by (simp add: Creator_def Decode_Encode)
  let ?pec = "is_participantEventsCache (h_Store h2)"
  have self: "if sp = '''' then si = -1 else 0 \<le> si \<and> pec_GetItem ?pec (Creator e) si = Ok sp"
    using w(4,5) known(2) sp q(2) by (auto simp: resolves_def)
  have other: "if op = '''' then oi = -1 else 0 \<le> oi \<and>
      (\<exists>r. map_of (RepertoireByID (h_Store h2)) oc = Some r \<and> pec_GetItem ?pec (PubKeyString r) oi = Ok op)"
    using w(6) known(3) sp by (auto simp: resolves_def)
  let ?w = "ToWire e1"
  have fields: "wb_CreatorID (we_Body ?w) = peer_ID p" "wb_SelfParentIndex (we_Body ?w) = si"
    "wb_OtherParentCreatorID (we_Body ?w) = oc" "wb_OtherParentIndex (we_Body ?w) = oi"
    "we_BlockSignatures ?w (eb_Creator (ev_Body e)) = eb_BlockSignatures (ev_Body e)"
    using wire_signatures [OF shape(2)] by (simp_all add: w(3)) (simp_all add: ToWire_def ev_SetWireInfo_def)
  have rest: "wb_Transactions (we_Body ?w) = eb_Transactions (ev_Body e)" "wb_Index (we_Body ?w) = ev_Index e"
    "wb_InternalTransactions (we_Body ?w) = eb_InternalTransactions (ev_Body e)"
    "wb_Timestamp (we_Body ?w) = eb_Timestamp (ev_Body e)" "we_Signature ?w = ev_Signature e"
    by (simp_all add: w(3) ToWire_def ev_SetWireInfo_def)
  obtain e2 where e2: "ReadWireInfo ?w h2 = (Ok e2, h2)" "eb_exported (ev_Body e2) = eb_exported (ev_Body e)"
    "ev_Signature e2 = ev_Signature e"
    using self other shape(1)
    by (auto simp: ReadWireInfo_def Let_def fields rest q key go_defs bindG_run tryG_run onStore_def
        ParticipantEvent_def eb_exported_def split: if_splits)
  have "eb_Creator (ev_Body e2) = eb_Creator (ev_Body e)"
    "eb_InternalTransactions (ev_Body e2) = eb_InternalTransactions (ev_Body e)"
    using arg_cong [OF e2(2), of eb_Creator] arg_cong [OF e2(2), of eb_InternalTransactions] by (simp_all add: eb_exported_def)
  then show ?thesis using e2 by (auto simp: Hex_def ev_Hash_def eb_Hash_def ev_Verify_def)
qed

lemma sample_h1_wire:
  "let h = sample_h1; s = h_Store h; x = Hex sample_crypto sample_e1; p1 = sample_peer 1; p2 = sample_peer 2 in
     is_Ok (fst (hg_SetWireInfo sample_e2 h)) \<and>
     eb_Parents (ev_Body sample_e2) = ['''', x] \<and> eb_BlockSignatures (ev_Body sample_e2) = [] \<and>
     chain_of s (Creator sample_e2) = None \<and> x \<noteq> '''' \<and> dag h x \<noteq> None \<and>
     dag h '''' = None \<and> dag h (Hex sample_crypto sample_e2) = None \<and>
     map_of (RepertoireByPubKey s) (Creator sample_e2) = Some p2 \<and>
     map_of (RepertoireByID s) (peer_ID p2) = Some p2 \<and> PubKeyString p2 = Creator sample_e2 \<and>
     (case dag h x of None \<Rightarrow> False | Some f \<Rightarrow> Creator f = PubKeyString p1 \<and> ev_Index f = 0) \<and>
     map_of (RepertoireByPubKey s) (PubKeyString p1) = Some p1 \<and> map_of (RepertoireByID s) (peer_ID p1) = Some p1 \<and>
     pec_GetItem (is_participantEventsCache s) (PubKeyString p1) 0 = Ok x"
  by code_simp

theorem wire_roundtrip_witness:
  "\<exists>e1 e2. fst (hg_SetWireInfo sample_e2 sample_h1) = Ok e1 \<and> ReadWireInfo (ToWire e1) sample_h1 = (Ok e2, sample_h1) \<and>
     Hex sample_crypto e2 = Hex sample_crypto sample_e2"
proof -
  let ?x = "Hex sample_crypto sample_e1"
  note facts = sample_h1_wire [unfolded Let_def]
  obtain e1 where e1: "hg_SetWireInfo sample_e2 sample_h1 = (Ok e1, snd (hg_SetWireInfo sample_e2 sample_h1))"
    using facts by (metis is_Ok.elims(2) prod.collapse)
  have 2: "eb_Parents (ev_Body sample_e2) = ['''', ?x]" "self_signed sample_e2"
    using facts by (simp_all add: self_signed_def)
  have ins: "insertable sample_crypto sample_h1 sample_e2"
    using sample_h2_steps facts by (simp add: insertable_def SelfParent_def OtherParent_def)
  have inv: "hg_inv sample_crypto sample_h1"
    using hg_reachable_inv [OF _ sample_cb_keeps] hg_insert [OF sample_h0_reachable] sample_h1_steps
    by (metis sample_h1_def)
  have known: "knows_creator sample_h1 sample_h1 (Creator sample_e2)" "resolves sample_h1 sample_h1 ''''" "resolves sample_h1 sample_h1 ?x"
    using facts by (auto simp: knows_creator_def resolves_def split: option.splits)
  show ?thesis using wire_roundtrip [OF inv ins e1 2 known] fst_conv [of "Ok e1"] e1 by metis
qed

end
