(* ===== verification/Badger_Store.thy ===== *)
theory Badger_Store
  imports Core Hashgraph_Frame Sample
begin

text \<open>
  \<open>src/src/hashgraph/badger_store.go\<close>: the store that keeps its objects in a database and uses the
  in-memory store as a cache.

  The database is a parameter, \<open>badger_ops\<close>: reading a key, and committing a transaction, which is the list
  of its writes. The statements rely on \<open>db_ok\<close>: a committed transaction has written all its keys and
  nothing else, and one that fails has written nothing. What is stored under a key is an object as its
  encoding keeps it: an event without its consensus fields, a block and a round without their private
  fields, a peer-set as its list of peers. Decoding a value of another kind is an error.
\<close>

section \<open>Database\<close>

datatype db_value =
    V_Event eventWrapper
  | V_Hash string
  | V_Block Block
  | V_Frame Frame
  | V_Round RoundInfo
  | V_Root Root
  | V_Peers "Peer list"
  | V_Peer Peer

record 'db badger_ops =
  db_Get :: "'db \<Rightarrow> string \<Rightarrow> db_value res"
  db_Commit :: "(string \<times> db_value) list \<Rightarrow> 'db \<Rightarrow> unit res \<times> 'db"
  db_ErrKeyNotFound :: go_error

record 'db BadgerStore =
  bg_inmem :: InmemStore
  bg_db :: 'db
  bg_maintenanceMode :: bool

type_synonym ('db, 'a) bg = "('db BadgerStore, 'a) go"

definition isDBKeyNotFound :: "'db badger_ops \<Rightarrow> go_error \<Rightarrow> bool" where
  "isDBKeyNotFound D err \<longleftrightarrow> error_text err = error_text (db_ErrKeyNotFound D)"

definition mapError :: "'db badger_ops \<Rightarrow> string \<Rightarrow> string \<Rightarrow> ('db, 'a) bg \<Rightarrow> ('db, 'a) bg" where
  "mapError D name k m =
     tryG m (\<lambda>r. case r of
       Inl err \<Rightarrow> if isDBKeyNotFound D err then errG (NewStoreErr name KeyNotFound k) else errG err
     | Inr a \<Rightarrow> okG a)"

text \<open>A call on the in-memory store, a read and a transaction.\<close>

definition onInmem :: "(InmemStore, 'a) go \<Rightarrow> ('db, 'a) bg" where
  "onInmem m s = (case m (bg_inmem s) of (r, i) \<Rightarrow> (r, s\<lparr>bg_inmem := i\<rparr>))"

definition db_read :: "'db badger_ops \<Rightarrow> string \<Rightarrow> ('db, db_value) bg" where
  "db_read D k s = (db_Get D (bg_db s) k, s)"

definition db_write :: "'db badger_ops \<Rightarrow> (string \<times> db_value) list \<Rightarrow> ('db, unit) bg" where
  "db_write D ws s = (case db_Commit D ws (bg_db s) of (r, db) \<Rightarrow> (r, s\<lparr>bg_db := db\<rparr>))"

definition NewBadgerStore :: "nat \<Rightarrow> 'db res \<Rightarrow> bool \<Rightarrow> 'db BadgerStore res" where
  "NewBadgerStore cacheSize handle maintenanceMode =
     bindO handle (\<lambda>db. Ok \<lparr>bg_inmem = NewInmemStore cacheSize, bg_db = db, bg_maintenanceMode = maintenanceMode\<rparr>)"

section \<open>Keys\<close>

text \<open>The format \<open>%09d\<close>: at least nine characters, the sign included, filled with zeros.\<close>

definition pad9 :: "int \<Rightarrow> string" where
  "pad9 i =
     (let ds = show_base 10 (nat \<bar>i\<bar>) in
      if i < 0 then CHR ''-'' # replicate (8 - length ds) (CHR ''0'') @ ds
      else replicate (9 - length ds) (CHR ''0'') @ ds)"

definition repertoireKey :: "string \<Rightarrow> string" where
  "repertoireKey pub = ''rep_'' @ pub"

definition peerSetKey :: "int \<Rightarrow> string" where
  "peerSetKey round = ''peerset_'' @ pad9 round"

definition topologicalEventKey :: "int \<Rightarrow> string" where
  "topologicalEventKey index = ''topo_'' @ pad9 index"

definition participantEventKey :: "string \<Rightarrow> int \<Rightarrow> string" where
  "participantEventKey participant index = participant @ ''__event_'' @ pad9 index"

definition participantRootKey :: "string \<Rightarrow> string" where
  "participantRootKey participant = participant @ ''_root''"

definition roundKey :: "int \<Rightarrow> string" where
  "roundKey index = ''round_'' @ pad9 index"

definition blockKey :: "int \<Rightarrow> string" where
  "blockKey index = ''block_'' @ pad9 index"

definition frameKey :: "int \<Rightarrow> string" where
  "frameKey index = ''frame_'' @ pad9 index"

section \<open>Encodings\<close>

definition Unmarshal_err :: go_error where
  "Unmarshal_err = Errorf ''json: cannot unmarshal''"

definition bl_Marshal :: "Block \<Rightarrow> db_value" where
  "bl_Marshal b = V_Block (b\<lparr>bl_peerSet := NewPeerSet []\<rparr>)"

definition bl_Unmarshal :: "db_value \<Rightarrow> Block res" where
  "bl_Unmarshal v = (case v of V_Block b \<Rightarrow> Ok b | _ \<Rightarrow> Err Unmarshal_err)"

definition rd_Marshal :: "RoundInfo \<Rightarrow> db_value" where
  "rd_Marshal r = V_Round (r\<lparr>rd_queued := False, rd_decided := False\<rparr>)"

definition rd_Unmarshal :: "db_value \<Rightarrow> RoundInfo res" where
  "rd_Unmarshal v = (case v of V_Round r \<Rightarrow> Ok r | _ \<Rightarrow> Err Unmarshal_err)"

definition ps_Marshal :: "PeerSet \<Rightarrow> db_value" where
  "ps_Marshal ps = V_Peers (ps_Peers ps)"

definition ps_Unmarshal :: "db_value \<Rightarrow> PeerSet res" where
  "ps_Unmarshal v = (case v of V_Peers ps \<Rightarrow> Ok (NewPeerSet ps) | _ \<Rightarrow> Err Unmarshal_err)"

definition rt_Unmarshal :: "db_value \<Rightarrow> Root res" where
  "rt_Unmarshal v = (case v of V_Root r \<Rightarrow> Ok r | _ \<Rightarrow> Err Unmarshal_err)"

definition fr_Unmarshal :: "db_value \<Rightarrow> Frame res" where
  "fr_Unmarshal v = (case v of V_Frame f \<Rightarrow> Ok f | _ \<Rightarrow> Err Unmarshal_err)"

definition ev_Unmarshal :: "db_value \<Rightarrow> Event res" where
  "ev_Unmarshal v = (case v of V_Event w \<Rightarrow> Ok (UnmarshalDB w) | _ \<Rightarrow> Err Unmarshal_err)"

text \<open>The bytes of a value that is read as a string.\<close>

definition value_string :: "db_value \<Rightarrow> string res" where
  "value_string v = (case v of V_Hash h \<Rightarrow> Ok h | _ \<Rightarrow> Err Unmarshal_err)"

section \<open>Database methods\<close>

definition dbSetRepertoire :: "'db badger_ops \<Rightarrow> Peer \<Rightarrow> ('db, unit) bg" where
  "dbSetRepertoire D peer = db_write D [(repertoireKey (PubKeyString peer), V_Peer peer)]"

definition dbGetPeerSet :: "'db badger_ops \<Rightarrow> int \<Rightarrow> ('db, PeerSet) bg" where
  "dbGetPeerSet D round = bindG (db_read D (peerSetKey round)) (\<lambda>v. liftO (ps_Unmarshal v))"

definition dbSetPeerSet :: "'db badger_ops \<Rightarrow> int \<Rightarrow> PeerSet \<Rightarrow> ('db, unit) bg" where
  "dbSetPeerSet D round peerSet = db_write D [(peerSetKey round, ps_Marshal peerSet)]"

definition dbGetEvent :: "'db badger_ops \<Rightarrow> string \<Rightarrow> ('db, Event) bg" where
  "dbGetEvent D k = bindG (db_read D k) (\<lambda>v. liftO (ev_Unmarshal v))"

text \<open>The writes of the transaction, in their order. A read in the transaction sees its earlier
  writes.\<close>

definition event_writes ::
  "'db badger_ops \<Rightarrow> crypto \<Rightarrow> 'db \<Rightarrow> Event \<Rightarrow> (string \<times> db_value) list \<Rightarrow> (string \<times> db_value) list" where
  "event_writes D P db event ws =
     (let eventHex = Hex P event;
          new = (case map_of (rev ws) eventHex of
                   Some _ \<Rightarrow> False
                 | None \<Rightarrow> (case db_Get D db eventHex of Err err \<Rightarrow> isDBKeyNotFound D err | _ \<Rightarrow> False))
      in ws @ [(eventHex, V_Event (MarshalDB event))] @
         (if new
          then [(topologicalEventKey (ev_topologicalIndex event), V_Hash eventHex),
                (participantEventKey (Creator event) (ev_Index event), V_Hash eventHex)]
          else []))"

definition dbSetEvents :: "'db badger_ops \<Rightarrow> crypto \<Rightarrow> Event list \<Rightarrow> ('db, unit) bg" where
  "dbSetEvents D P events =
     bindG (getsG bg_db) (\<lambda>db. db_write D (foldl (\<lambda>ws e. event_writes D P db e ws) [] events))"

text \<open>The loop ends at the first index without an entry; it is given as much fuel as it may run.\<close>

fun participant_loop :: "'db badger_ops \<Rightarrow> nat \<Rightarrow> string \<Rightarrow> int \<Rightarrow> string list \<Rightarrow> ('db, string list) bg" where
  "participant_loop D n participant i res =
     tryG (db_read D (participantEventKey participant i)) (\<lambda>r. case r of
       Inl err \<Rightarrow> if isDBKeyNotFound D err then okG res else errG err
     | Inr v \<Rightarrow>
         bindG (liftO (value_string v)) (\<lambda>h.
         case n of 0 \<Rightarrow> liftO Diverge | Suc m \<Rightarrow> participant_loop D m participant (i + 1) (res @ [h])))"

definition dbParticipantEvents :: "'db badger_ops \<Rightarrow> nat \<Rightarrow> string \<Rightarrow> int \<Rightarrow> ('db, string list) bg" where
  "dbParticipantEvents D n participant skip = participant_loop D n participant (skip + 1) []"

definition dbParticipantEvent :: "'db badger_ops \<Rightarrow> string \<Rightarrow> int \<Rightarrow> ('db, string) bg" where
  "dbParticipantEvent D participant index =
     bindG (db_read D (participantEventKey participant index)) (\<lambda>v. liftO (value_string v))"

fun topological_loop :: "'db badger_ops \<Rightarrow> nat \<Rightarrow> int \<Rightarrow> Event list \<Rightarrow> ('db, Event list) bg" where
  "topological_loop D limit t res =
     tryG (db_read D (topologicalEventKey t)) (\<lambda>r. case r of
       Inl err \<Rightarrow> if isDBKeyNotFound D err then okG res else errG err
     | Inr v \<Rightarrow>
         (case limit of
            0 \<Rightarrow> okG res
          | Suc m \<Rightarrow>
              bindG (liftO (value_string v)) (\<lambda>evKey.
              bindG (dbGetEvent D evKey) (\<lambda>event.
              topological_loop D m (t + 1) (res @ [event])))))"

definition dbTopologicalEvents :: "'db badger_ops \<Rightarrow> int \<Rightarrow> nat \<Rightarrow> ('db, Event list) bg" where
  "dbTopologicalEvents D start limit = topological_loop D limit start []"

definition dbSetRoot :: "'db badger_ops \<Rightarrow> string \<Rightarrow> Root \<Rightarrow> ('db, unit) bg" where
  "dbSetRoot D participant root = db_write D [(participantRootKey participant, V_Root root)]"

definition dbGetRoot :: "'db badger_ops \<Rightarrow> string \<Rightarrow> ('db, Root) bg" where
  "dbGetRoot D participant = bindG (db_read D (participantRootKey participant)) (\<lambda>v. liftO (rt_Unmarshal v))"

definition dbGetRound :: "'db badger_ops \<Rightarrow> int \<Rightarrow> ('db, RoundInfo) bg" where
  "dbGetRound D index = bindG (db_read D (roundKey index)) (\<lambda>v. liftO (rd_Unmarshal v))"

definition dbSetRound :: "'db badger_ops \<Rightarrow> int \<Rightarrow> RoundInfo \<Rightarrow> ('db, unit) bg" where
  "dbSetRound D index round = db_write D [(roundKey index, rd_Marshal round)]"

definition dbGetBlock :: "'db badger_ops \<Rightarrow> int \<Rightarrow> ('db, Block) bg" where
  "dbGetBlock D index = bindG (db_read D (blockKey index)) (\<lambda>v. liftO (bl_Unmarshal v))"

definition dbSetBlock :: "'db badger_ops \<Rightarrow> Block \<Rightarrow> ('db, unit) bg" where
  "dbSetBlock D block = db_write D [(blockKey (bl_Index block), bl_Marshal block)]"

definition dbGetFrame :: "'db badger_ops \<Rightarrow> int \<Rightarrow> ('db, Frame) bg" where
  "dbGetFrame D index = bindG (db_read D (frameKey index)) (\<lambda>v. liftO (fr_Unmarshal v))"

definition dbSetFrame :: "'db badger_ops \<Rightarrow> Frame \<Rightarrow> ('db, unit) bg" where
  "dbSetFrame D frame = db_write D [(frameKey (fr_Round frame), V_Frame frame)]"

section \<open>Cache only\<close>

definition bg_CacheSize :: "'db BadgerStore \<Rightarrow> nat" where
  "bg_CacheSize s = is_cacheSize (bg_inmem s)"

definition bg_GetRound :: "int \<Rightarrow> ('db, RoundInfo) bg" where
  "bg_GetRound r = onInmem (GetRound r)"

definition bg_RoundWitnesses :: "int \<Rightarrow> ('db, string list) bg" where
  "bg_RoundWitnesses r =
     tryG (bg_GetRound r) (\<lambda>x. case x of Inl _ \<Rightarrow> okG [] | Inr round \<Rightarrow> okG (Witnesses round))"

definition bg_RoundEvents :: "int \<Rightarrow> ('db, nat) bg" where
  "bg_RoundEvents r =
     tryG (bg_GetRound r) (\<lambda>x. case x of Inl _ \<Rightarrow> okG 0 | Inr round \<Rightarrow> okG (length (rd_CreatedEvents round)))"

definition bg_GetFrame :: "int \<Rightarrow> ('db, Frame) bg" where
  "bg_GetFrame rr = onInmem (store_GetFrame rr)"

definition bg_GetPeerSet :: "int \<Rightarrow> ('db, PeerSet) bg" where
  "bg_GetPeerSet round = onInmem (GetPeerSet round)"

definition bg_GetAllPeerSets :: "('db, (int \<times> Peer list) list) bg" where
  "bg_GetAllPeerSets = onInmem GetAllPeerSets"

definition bg_FirstRound :: "'db BadgerStore \<Rightarrow> 32 word \<Rightarrow> int \<times> bool" where
  "bg_FirstRound s i = FirstRound (bg_inmem s) i"

definition bg_RepertoireByPubKey :: "'db BadgerStore \<Rightarrow> (string \<times> Peer) list" where
  "bg_RepertoireByPubKey s = RepertoireByPubKey (bg_inmem s)"

definition bg_RepertoireByID :: "'db BadgerStore \<Rightarrow> (32 word \<times> Peer) list" where
  "bg_RepertoireByID s = RepertoireByID (bg_inmem s)"

definition bg_LastEventFrom :: "string \<Rightarrow> ('db, string) bg" where
  "bg_LastEventFrom participant = onInmem (LastEventFrom participant)"

definition bg_LastConsensusEventFrom :: "string \<Rightarrow> ('db, string) bg" where
  "bg_LastConsensusEventFrom participant = onInmem (LastConsensusEventFrom participant)"

definition bg_KnownEvents :: "'db BadgerStore \<Rightarrow> (32 word \<times> int) list" where
  "bg_KnownEvents s = KnownEvents (bg_inmem s)"

definition bg_ConsensusEvents :: "'db BadgerStore \<Rightarrow> string list" where
  "bg_ConsensusEvents s = ConsensusEvents (bg_inmem s)"

definition bg_ConsensusEventsCount :: "'db BadgerStore \<Rightarrow> int" where
  "bg_ConsensusEventsCount s = ConsensusEventsCount (bg_inmem s)"

definition bg_AddConsensusEvent :: "crypto \<Rightarrow> Event \<Rightarrow> ('db, unit) bg" where
  "bg_AddConsensusEvent P event = onInmem (AddConsensusEvent P event)"

definition bg_LastRound :: "'db BadgerStore \<Rightarrow> int" where
  "bg_LastRound s = is_lastRound (bg_inmem s)"

definition bg_LastBlockIndex :: "'db BadgerStore \<Rightarrow> int" where
  "bg_LastBlockIndex s = is_lastBlock (bg_inmem s)"

section \<open>Cache and database\<close>

text \<open>A write goes to the database unless the store is in maintenance mode; a read that fails in the
  cache is tried in the database.\<close>

definition unless_maintenance :: "('db, unit) bg \<Rightarrow> ('db, unit) bg" where
  "unless_maintenance m = bindG (getsG bg_maintenanceMode) (\<lambda>mm. if mm then okG () else m)"

definition or_else :: "('db, 'a) bg \<Rightarrow> ('db, 'a) bg \<Rightarrow> ('db, 'a) bg" where
  "or_else cache db = tryG cache (\<lambda>r. case r of Inl _ \<Rightarrow> db | Inr a \<Rightarrow> okG a)"

definition bg_addParticipant :: "'db badger_ops \<Rightarrow> Peer \<Rightarrow> ('db, unit) bg" where
  "bg_addParticipant D p =
     unless_maintenance
       (bindG (dbSetRepertoire D p) (\<lambda>_.
        tryG (dbGetRoot D (PubKeyString p)) (\<lambda>r. case r of
          Inl _ \<Rightarrow> dbSetRoot D (PubKeyString p) NewRoot
        | Inr _ \<Rightarrow> okG ())))"

definition bg_SetPeerSet :: "'db badger_ops \<Rightarrow> int \<Rightarrow> PeerSet \<Rightarrow> ('db, unit) bg" where
  "bg_SetPeerSet D round peerSet =
     bindG (onInmem (SetPeerSet round peerSet)) (\<lambda>_.
     bindG (unless_maintenance (dbSetPeerSet D round peerSet)) (\<lambda>_.
     foldG (\<lambda>p _. bg_addParticipant D p) (ps_Peers peerSet) ()))"

definition bg_SetEvent :: "'db badger_ops \<Rightarrow> crypto \<Rightarrow> Event \<Rightarrow> ('db, unit) bg" where
  "bg_SetEvent D P event =
     bindG (onInmem (SetEvent P event)) (\<lambda>_. unless_maintenance (dbSetEvents D P [event]))"

definition bg_ParticipantEvents :: "'db badger_ops \<Rightarrow> nat \<Rightarrow> string \<Rightarrow> int \<Rightarrow> ('db, string list) bg" where
  "bg_ParticipantEvents D n participant skip =
     or_else (onInmem (ParticipantEvents participant skip)) (dbParticipantEvents D n participant skip)"

definition bg_ParticipantEvent :: "'db badger_ops \<Rightarrow> string \<Rightarrow> int \<Rightarrow> ('db, string) bg" where
  "bg_ParticipantEvent D participant index =
     or_else (onInmem (ParticipantEvent participant index)) (dbParticipantEvent D participant index)"

definition bg_SetRound :: "'db badger_ops \<Rightarrow> int \<Rightarrow> RoundInfo \<Rightarrow> ('db, unit) bg" where
  "bg_SetRound D r round =
     bindG (onInmem (SetRound r round)) (\<lambda>_. unless_maintenance (dbSetRound D r round))"

definition bg_GetRoot :: "'db badger_ops \<Rightarrow> string \<Rightarrow> ('db, Root) bg" where
  "bg_GetRoot D participant =
     mapError D ''Root'' (participantRootKey participant)
       (or_else (onInmem (GetRoot participant)) (dbGetRoot D participant))"

definition bg_GetEvent :: "'db badger_ops \<Rightarrow> string \<Rightarrow> ('db, Event) bg" where
  "bg_GetEvent D k = mapError D ''Event'' k (or_else (onInmem (GetEvent k)) (dbGetEvent D k))"

definition bg_GetBlock :: "'db badger_ops \<Rightarrow> int \<Rightarrow> ('db, Block) bg" where
  "bg_GetBlock D rr = mapError D ''Block'' (blockKey rr) (or_else (onInmem (GetBlock rr)) (dbGetBlock D rr))"

definition bg_SetBlock :: "'db badger_ops \<Rightarrow> Block \<Rightarrow> ('db, unit) bg" where
  "bg_SetBlock D block =
     bindG (onInmem (SetBlock block)) (\<lambda>_. unless_maintenance (dbSetBlock D block))"

definition bg_SetFrame :: "'db badger_ops \<Rightarrow> Frame \<Rightarrow> ('db, unit) bg" where
  "bg_SetFrame D frame =
     bindG (onInmem (SetFrame frame)) (\<lambda>_. unless_maintenance (dbSetFrame D frame))"

text \<open>The roots that the reset of the in-memory store adds are added to the map of the frame, which the
  database gets afterwards.\<close>

definition bg_Reset :: "'db badger_ops \<Rightarrow> Frame \<Rightarrow> ('db, unit) bg" where
  "bg_Reset D frame =
     bindG (onInmem (store_Reset frame)) (\<lambda>_.
     bindG (getsG (\<lambda>s. frame\<lparr>fr_Roots := is_roots (bg_inmem s)\<rparr>)) (\<lambda>frame.
     unless_maintenance
       (bindG (dbSetFrame D frame) (\<lambda>_.
        bindG (foldG (\<lambda>(p, root) _. dbSetRoot D p root) (fr_Roots frame) ()) (\<lambda>_.
        dbSetPeerSet D (fr_Round frame) (NewPeerSet (fr_Peers frame)))))))"

definition SetMaintenanceMode :: "bool \<Rightarrow> 'db BadgerStore \<Rightarrow> 'db BadgerStore" where
  "SetMaintenanceMode val s = s\<lparr>bg_maintenanceMode := val\<rparr>"

definition GetMaintenanceMode :: "'db BadgerStore \<Rightarrow> bool" where
  "GetMaintenanceMode s = bg_maintenanceMode s"

section \<open>Hypotheses on the database\<close>

definition db_ok :: "'db badger_ops \<Rightarrow> bool" where
  "db_ok D \<longleftrightarrow>
     (\<forall>ws db db' k. db_Commit D ws db = (Ok (), db') \<longrightarrow>
        db_Get D db' k = (case map_of (rev ws) k of Some v \<Rightarrow> Ok v | None \<Rightarrow> db_Get D db k)) \<and>
     (\<forall>ws db db' r. db_Commit D ws db = (r, db') \<longrightarrow> r \<noteq> Ok () \<longrightarrow> db' = db)"

lemma db_write_get:
  assumes "db_ok D" and "db_write D ws s = (Ok (), s')"
  shows "bg_inmem s' = bg_inmem s" and "bg_maintenanceMode s' = bg_maintenanceMode s"
    and "db_Get D (bg_db s') k = (case map_of (rev ws) k of Some v \<Rightarrow> Ok v | None \<Rightarrow> db_Get D (bg_db s) k)"
  using assms by (auto simp: db_write_def db_ok_def split: prod.splits)

section \<open>Keys of events\<close>

lemma hex_char_not_underscore: "d < 16 \<Longrightarrow> hex_char d \<noteq> CHR ''_''"
proof
  assume "d < 16" and "hex_char d = CHR ''_''"
  then have "from_hex_char (CHR ''_'') = Some d" by (metis from_hex_char_hex_char)
  then show False by (simp add: from_hex_char_def Let_def)
qed

lemma Hex_chars: "c \<in> set (Hex P e) \<Longrightarrow> c \<noteq> CHR ''_''"
proof -
  have "hex_char (unat b div 16) \<noteq> CHR ''_'' \<and> hex_char (unat b mod 16) \<noteq> CHR ''_''" for b :: byte
  proof -
    have "unat b < 2 ^ LENGTH(8)" by (rule unsigned_less)
    then show ?thesis by (intro conjI hex_char_not_underscore) simp_all
  qed
  then show "c \<in> set (Hex P e) \<Longrightarrow> c \<noteq> CHR ''_''"
    by (fastforce simp: Hex_def EncodeToString_def hex_byte_def)
qed

lemma key_not_Hex: "CHR ''_'' \<in> set k \<Longrightarrow> Hex P e \<noteq> k"
  using Hex_chars by blast

lemma keys_not_Hex [simp]: "Hex P e \<noteq> topologicalEventKey i" "Hex P e \<noteq> participantEventKey c i"
  by (rule key_not_Hex, simp add: topologicalEventKey_def participantEventKey_def)+

section \<open>Events in cache and database\<close>

definition db_event :: "'db badger_ops \<Rightarrow> 'db \<Rightarrow> string \<Rightarrow> Event option" where
  "db_event D db x = (case db_Get D db x of Ok (V_Event w) \<Rightarrow> Some (UnmarshalDB w) | _ \<Rightarrow> None)"

definition without_consensus :: "Event \<Rightarrow> Event" where
  "without_consensus e = e\<lparr>ev_round := None, ev_lamportTimestamp := None, ev_roundReceived := None\<rparr>"

definition bg_inv :: "'db badger_ops \<Rightarrow> crypto \<Rightarrow> 'db BadgerStore \<Rightarrow> bool" where
  "bg_inv D P s \<longleftrightarrow>
     \<not> bg_maintenanceMode s \<and> lru_inv (is_eventCache (bg_inmem s)) \<and>
     (\<forall>x e. lru_lookup (is_eventCache (bg_inmem s)) x = Some e \<longrightarrow>
        (\<exists>f. x = Hex P f) \<and> db_event D (bg_db s) x = Some (without_consensus e))"

lemma SetEvent_cache:
  assumes "SetEvent P e i = (Ok (), i')"
  shows "is_eventCache i' = lru_add (Hex P e) e (lru_touch (Hex P e) (is_eventCache i))"
  using assms
  by (auto simp: SetEvent_def Let_def tryG_def GetEvent_def bindG_eq_Ok go_defs split_beta split: option.splits)

lemma bg_SetEvent_Ok:
  assumes db: "db_ok D" and inv: "bg_inv D P s" and run: "bg_SetEvent D P e s = (Ok (), s')"
  shows "bg_inv D P s'"
    and "db_event D (bg_db s') (Hex P f) = (if Hex P f = Hex P e then Some (without_consensus e) else db_event D (bg_db s) (Hex P f))"
proof -
  obtain i where i: "SetEvent P e (bg_inmem s) = (Ok (), i)"
    and w: "db_write D (event_writes D P (bg_db s) e []) (s\<lparr>bg_inmem := i\<rparr>) = (Ok (), s')"
    using run inv
    by (auto simp: bg_SetEvent_def bindG_eq_Ok onInmem_def unless_maintenance_def dbSetEvents_def go_defs bg_inv_def
        split: prod.splits)
  note db' = db_write_get [OF db w]
  show ev: "db_event D (bg_db s') (Hex P f) = (if Hex P f = Hex P e then Some (without_consensus e) else db_event D (bg_db s) (Hex P f))" for f
    by (auto simp: db_event_def db'(3) event_writes_def Let_def UnmarshalDB_MarshalDB without_consensus_def)
  let ?c = "lru_touch (Hex P e) (is_eventCache (bg_inmem s))"
  have c: "lru_inv ?c" using inv by (simp add: bg_inv_def lru_inv_Get)
  have cache: "is_eventCache (bg_inmem s') = lru_add (Hex P e) e ?c"
    using db'(1) SetEvent_cache [OF i] by simp
  have "(\<exists>f. x = Hex P f) \<and> db_event D (bg_db s') x = Some (without_consensus g)"
    if "lru_lookup (is_eventCache (bg_inmem s')) x = Some g" for x g
  proof -
    have "(x = Hex P e \<and> g = e) \<or> (x \<noteq> Hex P e \<and> lru_lookup (is_eventCache (bg_inmem s)) x = Some g)"
      using lru_lookup_Add_sound [OF c, of "Hex P e" e x g] that cache by simp
    moreover have "\<exists>f. x = Hex P f" "db_event D (bg_db s) x = Some (without_consensus g)"
      if "lru_lookup (is_eventCache (bg_inmem s)) x = Some g" using inv that by (auto simp: bg_inv_def)
    ultimately show ?thesis using ev by metis
  qed
  then show "bg_inv D P s'" using inv db'(2) c cache by (simp add: bg_inv_def lru_inv_Add)
qed

lemma bg_SetEvents_keep:
  assumes "db_ok D" and "foldG (\<lambda>f _. bg_SetEvent D P f) fs u s = (Ok v, s')" and "bg_inv D P s"
    and "\<forall>f \<in> set fs. Hex P f \<noteq> Hex P e"
  shows "bg_inv D P s' \<and> db_event D (bg_db s') (Hex P e) = db_event D (bg_db s) (Hex P e)"
  using assms(2-4)
proof (induction fs arbitrary: s u)
  case Nil
  then show ?case by (simp add: go_defs)
next
  case (Cons f fs)
  obtain s1 where s1: "bg_SetEvent D P f s = (Ok (), s1)" "foldG (\<lambda>f _. bg_SetEvent D P f) fs () s1 = (Ok v, s')"
    using Cons.prems(1) by (auto simp: bindG_eq_Ok)
  note step = bg_SetEvent_Ok [OF assms(1) Cons.prems(2) s1(1)]
  show ?case using Cons.IH [OF s1(2) step(1)] step(2) [of e] Cons.prems(3) by auto
qed

lemma bg_GetEvent_run:
  assumes "bg_inv D P s" and "db_event D (bg_db s) x = Some e"
  shows "\<exists>e' s'. bg_GetEvent D x s = (Ok e', s') \<and> without_consensus e' = without_consensus e"
proof (cases "lru_lookup (is_eventCache (bg_inmem s)) x")
  case None
  then have miss: "onInmem (GetEvent x) s = (Err (NewStoreErr ''EventCache'' KeyNotFound x),
      s\<lparr>bg_inmem := (bg_inmem s)\<lparr>is_eventCache := lru_touch x (is_eventCache (bg_inmem s))\<rparr>\<rparr>)"
    by (simp add: onInmem_def GetEvent_run)
  obtain w where w: "db_Get D (bg_db s) x = Ok (V_Event w)" "e = UnmarshalDB w"
    using assms(2) by (auto simp: db_event_def split: outcome.splits db_value.splits)
  have "dbGetEvent D x s' = (Ok e, s')" if "bg_db s' = bg_db s" for s'
    using that w by (simp add: dbGetEvent_def db_read_def bindG_def go_defs ev_Unmarshal_def)
  then show ?thesis using miss
    by (simp add: bg_GetEvent_def mapError_def or_else_def tryG_run go_defs)
next
  case (Some e')
  have "without_consensus e' = e" using Some assms by (auto simp: bg_inv_def)
  then show ?thesis using Some
    by (auto simp: bg_GetEvent_def mapError_def or_else_def tryG_def onInmem_def GetEvent_run go_defs without_consensus_def)
qed

text \<open>With the database, an event that was stored is not lost when the cache evicts it: whatever other
  events are stored after it, and whatever the size of the cache, \<open>GetEvent\<close> returns it with all its
  fields but the ones that consensus sets.\<close>

theorem stored_events_survive_eviction:
  assumes "db_ok D" and "bg_inv D P s" and "bg_SetEvent D P e s = (Ok (), s1)"
    and "foldG (\<lambda>f _. bg_SetEvent D P f) fs () s1 = (Ok (), s2)" and "\<forall>f \<in> set fs. Hex P f \<noteq> Hex P e"
  shows "\<exists>e' s3. bg_GetEvent D (Hex P e) s2 = (Ok e', s3) \<and> without_consensus e' = without_consensus e"
proof -
  note set_e = bg_SetEvent_Ok [OF assms(1-3)]
  have "bg_inv D P s2 \<and> db_event D (bg_db s2) (Hex P e) = Some (without_consensus e)"
    using bg_SetEvents_keep [OF assms(1,4) set_e(1) assms(5)] set_e(2) [of e] by simp
  then show ?thesis using bg_GetEvent_run [of D P s2 "Hex P e" "without_consensus e"]
    by (auto simp: without_consensus_def)
qed

text \<open>A database that is a list of entries, and a store with a cache for a single event.\<close>

definition list_db :: "(string \<times> db_value) list badger_ops" where
  "list_db =
     \<lparr>db_Get = (\<lambda>db k. case map_of db k of Some v \<Rightarrow> Ok v | None \<Rightarrow> Err (Errorf ''Key not found'')),
      db_Commit = (\<lambda>ws db. (Ok (), rev ws @ db)), db_ErrKeyNotFound = Errorf ''Key not found''\<rparr>"

lemma list_db_ok: "db_ok list_db"
  by (simp add: db_ok_def list_db_def map_add_def split: option.splits)

definition small_store :: "(string \<times> db_value) list BadgerStore" where
  "small_store =
     snd (bg_SetPeerSet list_db 0 sample_peers
       \<lparr>bg_inmem = NewInmemStore 1, bg_db = [], bg_maintenanceMode = False\<rparr>)"

lemma small_store_run:
  "let s1 = snd (bg_SetEvent list_db sample_crypto sample_e1 small_store);
       s2 = snd (foldG (\<lambda>f _. bg_SetEvent list_db sample_crypto f) [sample_e2] () s1) in
     fst (bg_SetEvent list_db sample_crypto sample_e1 small_store) = Ok () \<and>
     fst (foldG (\<lambda>f _. bg_SetEvent list_db sample_crypto f) [sample_e2] () s1) = Ok () \<and>
     lru_lookup (is_eventCache (bg_inmem s2)) (Hex sample_crypto sample_e1) = None \<and>
     Hex sample_crypto sample_e2 \<noteq> Hex sample_crypto sample_e1 \<and>
     \<not> bg_maintenanceMode small_store \<and> lru_evictList (is_eventCache (bg_inmem small_store)) = []"
  by code_simp

theorem stored_events_survive_eviction_witness:
  "let s1 = snd (bg_SetEvent list_db sample_crypto sample_e1 small_store);
       s2 = snd (foldG (\<lambda>f _. bg_SetEvent list_db sample_crypto f) [sample_e2] () s1) in
     lru_lookup (is_eventCache (bg_inmem s2)) (Hex sample_crypto sample_e1) = None \<and>
     (\<exists>e' s3. bg_GetEvent list_db (Hex sample_crypto sample_e1) s2 = (Ok e', s3) \<and>
        without_consensus e' = without_consensus sample_e1)"
proof -
  note run = small_store_run [unfolded Let_def]
  have inv: "bg_inv list_db sample_crypto small_store"
    using run by (simp add: bg_inv_def lru_inv_def lru_lookup_def)
  show ?thesis
    using stored_events_survive_eviction [OF list_db_ok inv, of sample_e1 _ "[sample_e2]"] run
    by (simp add: Let_def) (metis prod.collapse)
qed

end
