(* ===== verification/Bootstrap.thy ===== *)
theory Bootstrap
  imports Badger_Store
begin

text \<open>
  \<open>Bootstrap\<close> of \<open>src/src/hashgraph/hashgraph.go\<close>: the events of the database are inserted again, in
  batches of a hundred and in topological order, each batch followed by the processing of the pool of
  signatures. The store is in maintenance mode meanwhile, so the database does not change: it is an
  argument, and \<open>None\<close> stands for a store without one. The loop is given fuel; it ends after the first
  batch that is not full.
\<close>

definition batchSize :: nat where
  "batchSize = 100"

definition db_batch :: "'db badger_ops \<Rightarrow> 'db \<Rightarrow> int \<Rightarrow> Event list res" where
  "db_batch D db start =
     fst (dbTopologicalEvents D start batchSize \<lparr>bg_inmem = NewInmemStore 0, bg_db = db, bg_maintenanceMode = True\<rparr>)"

definition insert_batch :: "crypto \<Rightarrow> (Block \<Rightarrow> ('c, unit) hg) \<Rightarrow> Event list \<Rightarrow> ('c, unit) hg" where
  "insert_batch P cb events =
     bindG (foldG (\<lambda>e _. InsertEventAndRunConsensus P cb e True) events ()) (\<lambda>_. ProcessSigPool P)"

fun bootstrap_loop ::
  "'db badger_ops \<Rightarrow> 'db \<Rightarrow> crypto \<Rightarrow> (Block \<Rightarrow> ('c, unit) hg) \<Rightarrow> nat \<Rightarrow> int \<Rightarrow> ('c, unit) hg" where
  "bootstrap_loop D db P cb 0 index = liftO Diverge"
| "bootstrap_loop D db P cb (Suc n) index =
     bindG (liftO (db_batch D db (index * int batchSize))) (\<lambda>topologicalEvents.
     bindG (insert_batch P cb topologicalEvents) (\<lambda>_.
     if length topologicalEvents < batchSize then okG ()
     else bootstrap_loop D db P cb n (index + 1)))"

definition hg_Bootstrap ::
  "'db badger_ops \<Rightarrow> 'db option \<Rightarrow> crypto \<Rightarrow> (Block \<Rightarrow> ('c, unit) hg) \<Rightarrow> nat \<Rightarrow> ('c, unit) hg" where
  "hg_Bootstrap D store P cb n =
     (case store of
        None \<Rightarrow> okG ()
      | Some db \<Rightarrow>
          (case fst (dbGetPeerSet D 0 \<lparr>bg_inmem = NewInmemStore 0, bg_db = db, bg_maintenanceMode = True\<rparr>) of
             Ok peerSet \<Rightarrow>
               tryG (onStore (SetPeerSet 0 peerSet)) (\<lambda>_. bootstrap_loop D db P cb n 0)
           | Err _ \<Rightarrow> okG ()
           | Panic \<Rightarrow> liftO Panic
           | Diverge \<Rightarrow> liftO Diverge))"

definition core_bootstrap ::
  "'db badger_ops \<Rightarrow> 'db option \<Rightarrow> crypto \<Rightarrow> app \<Rightarrow> nat \<Rightarrow> ('d, unit) cm" where
  "core_bootstrap D store P app n = hg_Bootstrap D store P (commit P app) n"

section \<open>What is replayed\<close>

text \<open>The database holds the events \<open>es\<close> under the topological indexes from zero, and none after them.\<close>

definition holds_events :: "'db badger_ops \<Rightarrow> 'db \<Rightarrow> Event list \<Rightarrow> bool" where
  "holds_events D db es \<longleftrightarrow>
     (\<forall>i < length es. \<exists>x. db_Get D db (topologicalEventKey (int i)) = Ok (V_Hash x) \<and> db_event D db x = Some (es ! i)) \<and>
     (\<exists>err. db_Get D db (topologicalEventKey (int (length es))) = Err err \<and> isDBKeyNotFound D err)"

lemma topological_loop_run:
  assumes "holds_events D db es" and "bg_db s = db" and "i \<le> length es"
  shows "topological_loop D n (int i) res s = (Ok (res @ take n (drop i es)), s)"
  using assms(3)
proof (induction n arbitrary: i res)
  case 0
  obtain r where r: "db_Get D db (topologicalEventKey (int i)) = r"
    "(\<exists>v. r = Ok v) \<or> (\<exists>err. r = Err err \<and> isDBKeyNotFound D err)"
  proof (cases "i < length es")
    case True
    then show ?thesis using assms(1) that by (auto simp: holds_events_def)
  next
    case False
    then have "i = length es" using 0 by simp
    then show ?thesis using assms(1) that by (auto simp: holds_events_def)
  qed
  then show ?case using assms(2) by (auto simp: tryG_def db_read_def go_defs)
next
  case (Suc n)
  show ?case
  proof (cases "i < length es")
    case True
    then obtain x where x: "db_Get D db (topologicalEventKey (int i)) = Ok (V_Hash x)" "db_event D db x = Some (es ! i)"
      using assms(1) by (auto simp: holds_events_def)
    have get: "dbGetEvent D x s = (Ok (es ! i), s)"
      using x(2) assms(2)
      by (auto simp: db_event_def dbGetEvent_def db_read_def bindG_def go_defs ev_Unmarshal_def
          split: outcome.splits db_value.splits)
    have "topological_loop D (Suc n) (int i) res s = topological_loop D n (int (Suc i)) (res @ [es ! i]) s"
      using x(1) get assms(2)
      by (subst topological_loop.simps) (simp add: tryG_def db_read_def go_defs value_string_def bindG_run algebra_simps)
    also have "\<dots> = (Ok ((res @ [es ! i]) @ take n (drop (Suc i) es)), s)" using True by (intro Suc.IH) simp
    also have "\<dots> = (Ok (res @ take (Suc n) (drop i es)), s)" using Cons_nth_drop_Suc [OF True] by (metis append_Cons append_Nil append_assoc take_Suc_Cons)
    finally show ?thesis .
  next
    case False
    then have i: "i = length es" using Suc.prems by simp
    then show ?thesis using assms(1,2)
      by (subst topological_loop.simps) (auto simp: holds_events_def tryG_def db_read_def go_defs)
  qed
qed

lemma db_batch_run:
  "holds_events D db es \<Longrightarrow> i \<le> length es \<Longrightarrow> db_batch D db (int i) = Ok (take batchSize (drop i es))"
  using topological_loop_run [of D db es "\<lparr>bg_inmem = NewInmemStore 0, bg_db = db, bg_maintenanceMode = True\<rparr>" i batchSize "[]"]
  by (simp add: db_batch_def dbTopologicalEvents_def)

text \<open>The batches: full ones, and a last one that is not full.\<close>

function batches :: "Event list \<Rightarrow> Event list list" where
  "batches es =
     (if length es < batchSize then [es] else take batchSize es # batches (drop batchSize es))"
  by auto
termination by (relation "measure length") (auto simp: batchSize_def)

declare batches.simps [simp del]

lemma concat_batches: "concat (batches es) = es"
  by (induction es rule: batches.induct) (subst batches.simps, simp)

text \<open>C17: Bootstrapping replays the whole database and ends. If the database holds the events \<open>es\<close> under
  consecutive topological indexes, the loop, with more fuel than there are full batches, is the insertion of all
  of \<open>es\<close>, once each and in this order, in batches of a hundred, with the pool of signatures processed after
  each batch; it stops at the first error of an insertion.\<close>

theorem bootstrap_replays_all:
  assumes "holds_events D db es" and "length es div batchSize < n"
  shows "bootstrap_loop D db P cb n 0 h = foldG (\<lambda>b _. insert_batch P cb b) (batches es) () h \<and>
    concat (batches es) = es \<and> (\<forall>b \<in> set (batches es). length b \<le> batchSize)"
proof -
  have loop: "bootstrap_loop D db P cb n (int k) = foldG (\<lambda>b _. insert_batch P cb b) (batches (drop (k * batchSize) es)) ()"
    if "k * batchSize \<le> length es" "(length es - k * batchSize) div batchSize < n" for k n
    using that
  proof (induction n arbitrary: k)
    case (Suc n)
    let ?r = "drop (k * batchSize) es"
    have batch: "db_batch D db (int k * int batchSize) = Ok (take batchSize ?r)"
      using db_batch_run [OF assms(1) Suc.prems(1)] by simp
    show ?case
    proof (cases "length ?r < batchSize")
      case True
      then have "batches ?r = [?r]" by (subst batches.simps) simp
      then show ?thesis using True batch by (simp add: fun_eq_iff bindG_run go_defs) (simp add: bindG_def go_defs split: prod.split outcome.split)
    next
      case False
      then have next_ok: "Suc k * batchSize \<le> length es" using Suc.prems(1) by simp
      have "(length es - Suc k * batchSize) div batchSize < n"
        using Suc.prems(2) next_ok False by (simp add: batchSize_def)
      then have IH: "(\<lambda>_. bootstrap_loop D db P cb n (int k + 1)) =
          foldG (\<lambda>b _. insert_batch P cb b) (batches (drop batchSize ?r))"
        using Suc.IH [OF next_ok] by (intro ext) (simp add: add.commute)
      have "batches ?r = take batchSize ?r # batches (drop batchSize ?r)" using False by (subst batches.simps) simp
      then show ?thesis using False batch by (simp add: IH del: drop_drop)
    qed
  qed simp
  have "length b \<le> batchSize" if "b \<in> set (batches es)" for b
    using that by (induction es rule: batches.induct) (subst (asm) (2) batches.simps, auto split: if_splits)
  then show ?thesis using loop [of 0 n] assms(2) concat_batches by simp
qed

definition one_event_db :: "(string \<times> db_value) list" where
  "one_event_db =
     [(topologicalEventKey 0, V_Hash (Hex sample_crypto sample_e1)),
      (Hex sample_crypto sample_e1, V_Event (MarshalDB sample_e1))]"

theorem bootstrap_replays_all_witness:
  "bootstrap_loop list_db one_event_db sample_crypto sample_cb 1 0 sample_h0 =
     foldG (\<lambda>b _. insert_batch sample_crypto sample_cb b) (batches [without_consensus sample_e1]) () sample_h0"
proof -
  have "topologicalEventKey 1 \<noteq> topologicalEventKey 0" by code_simp
  then have "holds_events list_db one_event_db [without_consensus sample_e1]"
    using keys_not_Hex(1) [of sample_crypto sample_e1, THEN not_sym]
    by (auto simp: holds_events_def list_db_def one_event_db_def db_event_def UnmarshalDB_MarshalDB
        without_consensus_def isDBKeyNotFound_def)
  moreover have "length [without_consensus sample_e1] div batchSize < 1" by (simp add: batchSize_def)
  ultimately show ?thesis
    using bootstrap_replays_all [of list_db one_event_db "[without_consensus sample_e1]" 1] by blast
qed

end
