(* ===== verification/Node_State.thy ===== *)
theory Node_State
  imports Common
begin

text \<open>
  \<open>src/src/node/state/state.go\<close> and \<open>src/src/node/control_timer.go\<close>: the state of a node, the
  counter of its goroutines, and the heartbeat timer.

  A call of \<open>GoFunc\<close> reads the counter, and then increments it in a second atomic access; the new
  goroutine decrements it as its first action. The step relation \<open>go_step\<close> interleaves these accesses
  for \<open>k\<close> concurrent callers. The loop of the timer is the function \<open>ct_select\<close> on the case that
  its \<open>select\<close> takes.
\<close>

section \<open>States\<close>

datatype State = Babbling | CatchingUp | Joining | Leaving | Shutdown | Suspended | OtherState nat

definition WGLIMIT :: int where
  "WGLIMIT = 20"

fun State_String :: "State \<Rightarrow> string" where
  "State_String Babbling = ''Babbling''"
| "State_String CatchingUp = ''CatchingUp''"
| "State_String Joining = ''Joining''"
| "State_String Leaving = ''Leaving''"
| "State_String Shutdown = ''Shutdown''"
| "State_String Suspended = ''Suspended''"
| "State_String (OtherState _) = ''Unknown''"

section \<open>Manager\<close>

record Manager =
  mg_state :: State
  mg_wg :: nat
  mg_wgCount :: int

definition GetState :: "Manager \<Rightarrow> State" where
  "GetState b = mg_state b"

definition SetState :: "State \<Rightarrow> Manager \<Rightarrow> Manager" where
  "SetState s b = b\<lparr>mg_state := s\<rparr>"

text \<open>The accesses of a call of \<open>GoFunc\<close> and of the goroutine it launches, in their order: the
  test, the two increments, the decrement when the goroutine starts, \<open>Done\<close> when it ends.\<close>

definition GoFunc_test :: "Manager \<Rightarrow> bool" where
  "GoFunc_test b \<longleftrightarrow> mg_wgCount b < WGLIMIT"

definition GoFunc_launch :: "Manager \<Rightarrow> Manager" where
  "GoFunc_launch b = b\<lparr>mg_wg := mg_wg b + 1, mg_wgCount := mg_wgCount b + 1\<rparr>"

definition GoFunc_start :: "Manager \<Rightarrow> Manager" where
  "GoFunc_start b = b\<lparr>mg_wgCount := mg_wgCount b - 1\<rparr>"

definition GoFunc_done :: "Manager \<Rightarrow> Manager" where
  "GoFunc_done b = b\<lparr>mg_wg := mg_wg b - 1\<rparr>"

definition WaitRoutines_returns :: "Manager \<Rightarrow> bool" where
  "WaitRoutines_returns b \<longleftrightarrow> mg_wg b = 0"

record routines =
  rt_manager :: Manager
  rt_passed :: nat
  rt_launched :: nat
  rt_running :: nat

definition no_routines :: "State \<Rightarrow> routines" where
  "no_routines s =
     \<lparr>rt_manager = \<lparr>mg_state = s, mg_wg = 0, mg_wgCount = 0\<rparr>, rt_passed = 0, rt_launched = 0, rt_running = 0\<rparr>"

inductive go_step :: "nat \<Rightarrow> routines \<Rightarrow> routines \<Rightarrow> bool" for k :: nat where
  test: "GoFunc_test (rt_manager g) \<Longrightarrow> rt_passed g < k \<Longrightarrow> go_step k g (g\<lparr>rt_passed := rt_passed g + 1\<rparr>)"
| launch: "rt_passed g = Suc n \<Longrightarrow>
    go_step k g (g\<lparr>rt_passed := n, rt_launched := rt_launched g + 1, rt_manager := GoFunc_launch (rt_manager g)\<rparr>)"
| start: "rt_launched g = Suc n \<Longrightarrow>
    go_step k g (g\<lparr>rt_launched := n, rt_running := rt_running g + 1, rt_manager := GoFunc_start (rt_manager g)\<rparr>)"
| finish: "rt_running g = Suc n \<Longrightarrow>
    go_step k g (g\<lparr>rt_running := n, rt_manager := GoFunc_done (rt_manager g)\<rparr>)"
| set: "go_step k g (g\<lparr>rt_manager := SetState s (rt_manager g)\<rparr>)"

definition routines_inv :: "nat \<Rightarrow> routines \<Rightarrow> bool" where
  "routines_inv k g \<longleftrightarrow>
     mg_wg (rt_manager g) = rt_launched g + rt_running g \<and>
     mg_wgCount (rt_manager g) = int (rt_launched g) \<and>
     rt_passed g \<le> k \<and> int (rt_launched g + rt_passed g) \<le> WGLIMIT - 1 + int k"

lemma routines_inv_step: "go_step k g g' \<Longrightarrow> routines_inv k g \<Longrightarrow> routines_inv k g'"
  by (induction rule: go_step.induct)
    (auto simp: routines_inv_def GoFunc_test_def GoFunc_launch_def GoFunc_start_def GoFunc_done_def SetState_def)

lemma routines_inv_reachable:
  assumes "(go_step k)\<^sup>*\<^sup>* (no_routines s) g" and "0 < k"
  shows "routines_inv k g"
  using assms
proof (induction rule: rtranclp_induct)
  case base
  then show ?case by (simp add: routines_inv_def no_routines_def WGLIMIT_def)
qed (auto intro: routines_inv_step)

text \<open>With \<open>k\<close> goroutines that call \<open>GoFunc\<close>, in every interleaving, the wait group counts the
  goroutines that were launched and have not ended, so that \<open>WaitRoutines\<close> returns only when there is
  none; the counter compared with \<open>WGLIMIT\<close> is the number of those that have not started, and exceeds
  the limit by less than \<open>k\<close>.\<close>

theorem go_func_counters:
  assumes "(go_step k)\<^sup>*\<^sup>* (no_routines s) g" and "0 < k"
  shows "(WaitRoutines_returns (rt_manager g) \<longleftrightarrow> rt_launched g = 0 \<and> rt_running g = 0) \<and>
    mg_wgCount (rt_manager g) = int (rt_launched g) \<and> mg_wgCount (rt_manager g) < WGLIMIT + int k"
  using routines_inv_reachable [OF assms] by (auto simp: routines_inv_def WaitRoutines_returns_def)

theorem go_func_counters_witness:
  "\<exists>g. (go_step 2)\<^sup>*\<^sup>* (no_routines Babbling) g \<and> rt_launched g = 1 \<and> mg_wgCount (rt_manager g) < 22"
proof -
  let ?g1 = "(no_routines Babbling)\<lparr>rt_passed := 1\<rparr>"
  let ?g2 = "?g1\<lparr>rt_passed := 0, rt_launched := 1, rt_manager := GoFunc_launch (rt_manager ?g1)\<rparr>"
  have 1: "go_step 2 (no_routines Babbling) ?g1"
    using go_step.test [of "no_routines Babbling" 2] by (simp add: no_routines_def GoFunc_test_def WGLIMIT_def)
  have "go_step 2 ?g1 ?g2" using go_step.launch [of ?g1 0 2] by (simp add: no_routines_def)
  then have run: "(go_step 2)\<^sup>*\<^sup>* (no_routines Babbling) ?g2" using 1 by simp
  then show ?thesis using go_func_counters [OF run] by (auto simp: WGLIMIT_def)
qed

text \<open>One caller can start any number of goroutines that run at the same time.\<close>

lemma run_one_more:
  assumes "mg_wgCount (rt_manager g) < WGLIMIT" and "rt_passed g = 0" and "rt_launched g = 0"
  shows "\<exists>g'. (go_step 1)\<^sup>*\<^sup>* g g' \<and> mg_wgCount (rt_manager g') = mg_wgCount (rt_manager g) \<and>
    rt_passed g' = 0 \<and> rt_launched g' = 0 \<and> rt_running g' = Suc (rt_running g)"
proof -
  let ?g1 = "g\<lparr>rt_passed := 1\<rparr>"
  let ?g2 = "?g1\<lparr>rt_passed := 0, rt_launched := 1, rt_manager := GoFunc_launch (rt_manager ?g1)\<rparr>"
  let ?g3 = "?g2\<lparr>rt_launched := 0, rt_running := rt_running ?g2 + 1, rt_manager := GoFunc_start (rt_manager ?g2)\<rparr>"
  have "go_step 1 g ?g1" using go_step.test [of g 1] assms by (simp add: GoFunc_test_def)
  moreover have "go_step 1 ?g1 ?g2" using go_step.launch [of ?g1 0 1] assms by simp
  moreover have "go_step 1 ?g2 ?g3" using go_step.start [of ?g2 0 1] by simp
  ultimately have "(go_step 1)\<^sup>*\<^sup>* g ?g3"
    by (meson converse_rtranclp_into_rtranclp rtranclp.rtrancl_refl)
  then show ?thesis by (intro exI [of _ ?g3]) (simp add: assms GoFunc_launch_def GoFunc_start_def)
qed

text \<open>The limit does not bound the goroutines that run: for every number there is a run with a
  single caller of \<open>GoFunc\<close> in which that many goroutines are running.\<close>

theorem go_func_unbounded: "\<exists>g. (go_step 1)\<^sup>*\<^sup>* (no_routines s) g \<and> rt_running g = n"
proof -
  have "\<exists>g. (go_step 1)\<^sup>*\<^sup>* (no_routines s) g \<and> rt_running g = n \<and> mg_wgCount (rt_manager g) = 0 \<and>
    rt_passed g = 0 \<and> rt_launched g = 0"
  proof (induction n)
    case 0
    show ?case by (rule exI [of _ "no_routines s"]) (simp add: no_routines_def)
  next
    case (Suc n)
    then obtain g where g: "(go_step 1)\<^sup>*\<^sup>* (no_routines s) g" "rt_running g = n" "mg_wgCount (rt_manager g) = 0"
      "rt_passed g = 0" "rt_launched g = 0" by blast
    then show ?case using run_one_more [of g] rtranclp_trans [OF g(1)] by (auto simp: WGLIMIT_def)
  qed
  then show ?thesis by blast
qed

section \<open>The heartbeat timer\<close>

text \<open>\<open>timerFactory\<close> returns a nil channel, or one that fires once after the given time: \<open>ct_timer\<close> is
  that time while it has not fired.\<close>

record controlTimer =
  ct_timer :: "int option"
  ct_isSet :: bool
  ct_isShutdown :: bool
  ct_closed :: bool
  ct_ticks :: nat

definition newControlTimer :: controlTimer where
  "newControlTimer = \<lparr>ct_timer = None, ct_isSet = False, ct_isShutdown = False, ct_closed = False, ct_ticks = 0\<rparr>"

definition randomTimeout :: "int \<Rightarrow> int \<Rightarrow> int option" where
  "randomTimeout rnd low = (if low = 0 then None else Some (wrap64 (low + rnd smod low)))"

definition setTimer :: "(int \<Rightarrow> int option) \<Rightarrow> int \<Rightarrow> controlTimer \<Rightarrow> controlTimer" where
  "setTimer factory t c = c\<lparr>ct_isSet := True, ct_timer := factory t\<rparr>"

datatype ct_case = TimerFires | ResetCh int | StopCh | ShutdownCh

text \<open>The second component says whether the loop goes on.\<close>

fun ct_select :: "(int \<Rightarrow> int option) \<Rightarrow> ct_case \<Rightarrow> controlTimer \<Rightarrow> controlTimer \<times> bool" where
  "ct_select factory TimerFires c = (c\<lparr>ct_timer := None, ct_ticks := ct_ticks c + 1, ct_isSet := False\<rparr>, True)"
| "ct_select factory (ResetCh t) c = (setTimer factory t c, True)"
| "ct_select factory StopCh c = (c\<lparr>ct_timer := None, ct_isSet := False\<rparr>, True)"
| "ct_select factory ShutdownCh c = (c\<lparr>ct_isSet := False\<rparr>, False)"

fun ct_enabled :: "ct_case \<Rightarrow> controlTimer \<Rightarrow> bool" where
  "ct_enabled TimerFires c \<longleftrightarrow> ct_timer c \<noteq> None"
| "ct_enabled ShutdownCh c \<longleftrightarrow> ct_closed c"
| "ct_enabled _ c \<longleftrightarrow> True"

fun ct_loop :: "(int \<Rightarrow> int option) \<Rightarrow> ct_case list \<Rightarrow> controlTimer \<Rightarrow> (controlTimer \<times> bool) option" where
  "ct_loop factory [] c = Some (c, True)"
| "ct_loop factory (e # es) c =
     (if \<not> ct_enabled e c then None
      else case ct_select factory e c of
        (c', True) \<Rightarrow> ct_loop factory es c'
      | (c', False) \<Rightarrow> if es = [] then Some (c', False) else None)"

text \<open>The run of a timer, given the cases that its loop takes.\<close>

definition ct_run :: "(int \<Rightarrow> int option) \<Rightarrow> int \<Rightarrow> ct_case list \<Rightarrow> controlTimer \<Rightarrow> (controlTimer \<times> bool) option" where
  "ct_run factory init es c = ct_loop factory es (setTimer factory init c)"

definition ct_shutdown :: "controlTimer \<Rightarrow> controlTimer res" where
  "ct_shutdown c =
     (if \<not> ct_isShutdown c
      then if ct_closed c then Panic else Ok (c\<lparr>ct_closed := True, ct_isShutdown := True\<rparr>)
      else Ok c)"

lemma ct_loop_armed:
  "ct_loop factory es c = Some (c', True) \<Longrightarrow> (ct_timer c \<noteq> None \<longrightarrow> ct_isSet c) \<Longrightarrow>
   ct_timer c' \<noteq> None \<longrightarrow> ct_isSet c'"
proof (induction es arbitrary: c)
  case (Cons e es)
  then show ?case by (cases e) (auto simp: setTimer_def split: if_splits)
qed simp

text \<open>The random heartbeat waits for at least the minimum and less than twice the minimum, as long
  as twice the minimum is a 64-bit duration; a minimum of zero never fires.\<close>

theorem heartbeat_bounds:
  assumes "0 \<le> low" and "0 \<le> rnd" and "2 * low < 2 ^ 63"
  shows "case randomTimeout rnd low of None \<Rightarrow> low = 0 | Some t \<Rightarrow> low \<le> t \<and> t < 2 * low"
proof (cases "low = 0")
  case False
  then have "0 \<le> rnd smod low" "rnd smod low < low"
    using assms(1,2) by (simp_all add: signed_modulo_int_def sgn_if)
  then show ?thesis using False assms(3) by (simp add: randomTimeout_def wrap64_def)
qed (simp add: randomTimeout_def)

theorem heartbeat_bounds_witness: "\<exists>t. randomTimeout 123456789 500 = Some t \<and> 500 \<le> t \<and> t < 1000"
  using heartbeat_bounds [of 500 123456789] by (simp add: randomTimeout_def)

end
