(* ===== verification/Configuration.thy ===== *)
theory Configuration
  imports Common
begin

text \<open>
  \<open>src/src/config/config.go\<close> and the validation of a configuration in \<open>src/src/babble/babble.go\<close>. The fields
  for the application, the private key and the logger are left out; a duration is a number of
  nanoseconds. \<open>filepath.Join\<close> depends on the platform and is a parameter, as are the default
  directories.
\<close>

record Config =
  cf_DataDir :: string
  cf_LogLevel :: string
  cf_BindAddr :: string
  cf_AdvertiseAddr :: string
  cf_NoService :: bool
  cf_ServiceAddr :: string
  cf_HeartbeatTimeout :: int
  cf_SlowHeartbeatTimeout :: int
  cf_MaxPool :: int
  cf_TCPTimeout :: int
  cf_JoinTimeout :: int
  cf_SyncLimit :: int
  cf_EnableFastSync :: bool
  cf_Store :: bool
  cf_DatabaseDir :: string
  cf_CacheSize :: int
  cf_Bootstrap :: bool
  cf_MaintenanceMode :: bool
  cf_SuspendLimit :: int
  cf_Moniker :: string
  cf_WebRTC :: bool
  cf_SignalAddr :: string
  cf_SignalRealm :: string
  cf_SignalSkipVerify :: bool
  cf_ICEAddress :: string
  cf_ICEUsername :: string
  cf_ICEPassword :: string

definition Millisecond :: int where
  "Millisecond = 1000000"

definition NewDefaultConfig :: "string \<Rightarrow> string \<Rightarrow> Config" where
  "NewDefaultConfig dataDir databaseDir =
     \<lparr>cf_DataDir = dataDir, cf_LogLevel = ''debug'', cf_BindAddr = ''127.0.0.1:1337'', cf_AdvertiseAddr = '''',
      cf_NoService = False, cf_ServiceAddr = ''127.0.0.1:8000'', cf_HeartbeatTimeout = 10 * Millisecond,
      cf_SlowHeartbeatTimeout = 1000 * Millisecond, cf_MaxPool = 2, cf_TCPTimeout = 1000 * Millisecond,
      cf_JoinTimeout = 10000 * Millisecond, cf_SyncLimit = 1000, cf_EnableFastSync = False, cf_Store = False,
      cf_DatabaseDir = databaseDir, cf_CacheSize = 10000, cf_Bootstrap = False, cf_MaintenanceMode = False,
      cf_SuspendLimit = 100, cf_Moniker = '''', cf_WebRTC = False, cf_SignalAddr = ''127.0.0.1:2443'',
      cf_SignalRealm = ''main'', cf_SignalSkipVerify = False, cf_ICEAddress = ''stun:stun.l.google.com:19302'',
      cf_ICEUsername = '''', cf_ICEPassword = ''''\<rparr>"

definition SetDataDir :: "(string \<Rightarrow> string \<Rightarrow> string) \<Rightarrow> string \<Rightarrow> string \<Rightarrow> Config \<Rightarrow> Config" where
  "SetDataDir pathJoin defaultDatabaseDir dataDir c =
     (let c = c\<lparr>cf_DataDir := dataDir\<rparr>
      in if cf_DatabaseDir c = defaultDatabaseDir then c\<lparr>cf_DatabaseDir := pathJoin dataDir ''badger_db''\<rparr> else c)"

definition Keyfile :: "(string \<Rightarrow> string \<Rightarrow> string) \<Rightarrow> Config \<Rightarrow> string" where
  "Keyfile pathJoin c = pathJoin (cf_DataDir c) ''priv_key''"

definition CertFile :: "(string \<Rightarrow> string \<Rightarrow> string) \<Rightarrow> Config \<Rightarrow> string" where
  "CertFile pathJoin c = pathJoin (cf_DataDir c) ''cert.pem''"

text \<open>The errors of \<open>validateConfig\<close> are only logged; it returns none.\<close>

definition validateConfig :: "(string \<Rightarrow> string \<Rightarrow> string) \<Rightarrow> string \<Rightarrow> Config \<Rightarrow> Config" where
  "validateConfig pathJoin defaultDatabaseDir c =
     (let c = SetDataDir pathJoin defaultDatabaseDir (cf_DataDir c) c;
          c = (if cf_MaintenanceMode c then c\<lparr>cf_Bootstrap := True\<rparr> else c);
          c = (if cf_Bootstrap c then c\<lparr>cf_Store := True\<rparr> else c)
      in if cf_SlowHeartbeatTimeout c < cf_HeartbeatTimeout c
         then c\<lparr>cf_SlowHeartbeatTimeout := cf_HeartbeatTimeout c\<rparr> else c)"


end
