(* ===== verification/Node.thy ===== *)
theory Node
  imports Bootstrap Node_State Configuration
begin

text \<open>
  \<open>src/src/node/node.go\<close>, \<open>node_rpc.go\<close> and the commands of \<open>src/src/net/commands.go\<close>: the node
  around the core, its states, the requests it sends and the handlers of the requests it receives.

  The state extends that of the core. The transport is a parameter: the answer of a target to each
  kind of request. The application is a parameter too: its answers to a committed block, to the
  request of a snapshot and to its restoration; the states it is notified of are collected in
  \<open>n_notified\<close>. Closing a channel twice is a panic. \<open>WaitRoutines\<close> only waits, and is left out. Where a
  handler waits for other goroutines, it is split in the part before the wait and the part after it.
\<close>

section \<open>Commands\<close>

record SyncRequest =
  sq_FromID :: "32 word"
  sq_Known :: "(32 word \<times> int) list"
  sq_SyncLimit :: int

record SyncResponse =
  sr_FromID :: "32 word"
  sr_Events :: "WireEvent list"
  sr_Known :: "(32 word \<times> int) list"

record EagerSyncRequest =
  eq_FromID :: "32 word"
  eq_Events :: "WireEvent list"

record EagerSyncResponse =
  er_FromID :: "32 word"
  er_Success :: bool

record FastForwardRequest =
  fq_FromID :: "32 word"

record FastForwardResponse =
  fr_FromID :: "32 word"
  fr_Block :: Block
  fr_Frame :: Frame
  fr_Snapshot :: "byte list"

record JoinRequest =
  jq_InternalTransaction :: InternalTransaction

record JoinResponse =
  jr_FromID :: "32 word"
  jr_Accepted :: bool
  jr_AcceptedRound :: int
  jr_Peers :: "Peer list"

datatype Command =
    SyncCmd SyncRequest
  | EagerSyncCmd EagerSyncRequest
  | FastForwardCmd FastForwardRequest
  | JoinCmd JoinRequest
  | OtherCmd

datatype Response =
    SyncResp SyncResponse
  | EagerSyncResp EagerSyncResponse
  | FastForwardResp FastForwardResponse
  | JoinResp JoinResponse

record RPCResponse =
  rpc_Response :: "Response option"
  rpc_Error :: "go_error option"

definition Respond :: "Response option \<Rightarrow> go_error option \<Rightarrow> RPCResponse" where
  "Respond resp err = \<lparr>rpc_Response = resp, rpc_Error = err\<rparr>"

section \<open>Node\<close>

record Transport =
  tr_Sync :: "string \<Rightarrow> SyncRequest \<Rightarrow> SyncResponse res"
  tr_EagerSync :: "string \<Rightarrow> EagerSyncRequest \<Rightarrow> EagerSyncResponse res"
  tr_FastForward :: "string \<Rightarrow> FastForwardRequest \<Rightarrow> FastForwardResponse res"
  tr_Join :: "string \<Rightarrow> JoinRequest \<Rightarrow> JoinResponse res"
  tr_AdvertiseAddr :: string

record AppProxy =
  px_CommitBlock :: app
  px_GetSnapshot :: "int \<Rightarrow> byte list res"
  px_Restore :: "byte list \<Rightarrow> unit res"

record node = core +
  n_Manager :: Manager
  n_conf :: Config
  n_controlTimer :: controlTimer
  n_shutdownClosed :: bool
  n_suspendClosed :: bool
  n_listening :: bool
  n_transClosed :: bool
  n_storeClosed :: bool
  n_initialUndeterminedEvents :: int
  n_notified :: "State list"

type_synonym ('e, 'a) nm = "('e node_scheme, 'a) go"

definition NewNode :: "Config \<Rightarrow> Validator \<Rightarrow> PeerSet \<Rightarrow> PeerSet \<Rightarrow> InmemStore \<Rightarrow> node" where
  "NewNode conf validator peers genesisPeers store =
     core.extend (newCore validator peers genesisPeers store (cf_MaintenanceMode conf))
       \<lparr>n_Manager = \<lparr>mg_state = Babbling, mg_wg = 0, mg_wgCount = 0\<rparr>, n_conf = conf,
        n_controlTimer = newControlTimer, n_shutdownClosed = False, n_suspendClosed = False,
        n_listening = False, n_transClosed = False, n_storeClosed = False,
        n_initialUndeterminedEvents = 0, n_notified = []\<rparr>"

definition n_state :: "'e node_scheme \<Rightarrow> State" where
  "n_state n = GetState (n_Manager n)"

section \<open>States\<close>

definition transition :: "State \<Rightarrow> ('e, unit) nm" where
  "transition s =
     modifyG (\<lambda>n. n\<lparr>n_Manager := SetState s (n_Manager n), n_notified := n_notified n @ [s]\<rparr>)"

definition setBabblingOrCatchingUpState :: "('e, unit) nm" where
  "setBabblingOrCatchingUpState =
     bindG (getsG (\<lambda>n. cf_EnableFastSync (n_conf n))) (\<lambda>fast.
     if fast then transition CatchingUp
     else
       tryG setHeadAndSeq (\<lambda>r. case r of
         Inl _ \<Rightarrow> tryG setHeadAndSeq (\<lambda>_. transition Babbling)
       | Inr _ \<Rightarrow> transition Babbling))"

definition node_Init :: "'db badger_ops \<Rightarrow> 'db option \<Rightarrow> crypto \<Rightarrow> AppProxy \<Rightarrow> nat \<Rightarrow> ('e, unit) nm" where
  "node_Init D store P px fuel =
     bindG (getsG n_conf) (\<lambda>conf.
     bindG (if cf_Bootstrap conf then core_bootstrap D store P (px_CommitBlock px) fuel else okG ()) (\<lambda>_.
     bindG (if \<not> cf_MaintenanceMode conf
            then
              bindG (modifyG (\<lambda>n. n\<lparr>n_listening := True\<rparr>)) (\<lambda>_.
              bindG (getsG (\<lambda>n. map_of (ps_ByID (c_peers n)) (v_ID (c_validator n)) \<noteq> None)) (\<lambda>ok.
              if ok then setBabblingOrCatchingUpState else transition Joining))
            else transition Suspended) (\<lambda>_.
     modifyG (\<lambda>n. n\<lparr>n_initialUndeterminedEvents := int (length (getUndeterminedEvents n))\<rparr>))))"

text \<open>Closing a closed channel panics.\<close>

definition close_shutdownCh :: "('e, unit) nm" where
  "close_shutdownCh =
     bindG (getsG n_shutdownClosed) (\<lambda>closed.
     if closed then liftO Panic else modifyG (\<lambda>n. n\<lparr>n_shutdownClosed := True\<rparr>))"

definition close_suspendCh :: "('e, unit) nm" where
  "close_suspendCh =
     bindG (getsG n_suspendClosed) (\<lambda>closed.
     if closed then liftO Panic else modifyG (\<lambda>n. n\<lparr>n_suspendClosed := True\<rparr>))"

definition node_Shutdown :: "('e, unit) nm" where
  "node_Shutdown =
     bindG (getsG n_state) (\<lambda>s.
     if s \<noteq> Shutdown
     then
       bindG (transition Shutdown) (\<lambda>_.
       bindG close_shutdownCh (\<lambda>_.
       modifyG (\<lambda>n. n\<lparr>n_transClosed := True, n_storeClosed := True\<rparr>)))
     else okG ())"

definition Suspend :: "('e, unit) nm" where
  "Suspend =
     bindG (getsG n_state) (\<lambda>s.
     if s \<noteq> Suspended \<and> s \<noteq> Shutdown
     then bindG (transition Suspended) (\<lambda>_. close_suspendCh)
     else okG ())"

text \<open>\<open>Leave\<close>, given what \<open>core.leave\<close> does and returns: the node shuts down in any case.\<close>

definition Leave :: "('e, unit) nm \<Rightarrow> ('e, unit) nm" where
  "Leave core_leave =
     bindG (getsG (\<lambda>n. cf_MaintenanceMode (n_conf n))) (\<lambda>mm.
     if mm then okG ()
     else
       tryG core_leave (\<lambda>r.
       bindG node_Shutdown (\<lambda>_. case r of Inl err \<Rightarrow> errG err | Inr _ \<Rightarrow> okG ())))"

definition checkSuspend :: "('e, unit) nm" where
  "checkSuspend =
     bindG (getsG id) (\<lambda>n.
     let newUndeterminedEvents = int (length (getUndeterminedEvents n)) - n_initialUndeterminedEvents n;
         tooManyUndeterminedEvents =
           newUndeterminedEvents > cf_SuspendLimit (n_conf n) * int (ps_Len (c_validators n));
         evicted =
           (case h_LastConsensusRound n of
              None \<Rightarrow> False
            | Some l \<Rightarrow> c_removedRound n > 0 \<and> c_removedRound n > c_acceptedRound n \<and> l \<ge> c_removedRound n)
     in if tooManyUndeterminedEvents \<or> evicted then Suspend else okG ())"

definition resetTimer :: "(int \<Rightarrow> int option) \<Rightarrow> ('e, unit) nm" where
  "resetTimer factory =
     modifyG (\<lambda>n.
       if \<not> ct_isSet (n_controlTimer n)
       then
         let ts = (if \<not> busy n then cf_SlowHeartbeatTimeout (n_conf n) else cf_HeartbeatTimeout (n_conf n))
         in n\<lparr>n_controlTimer := fst (ct_select factory (ResetCh ts) (n_controlTimer n))\<rparr>
       else n)"

definition addTransaction :: "byte list \<Rightarrow> ('e, unit) nm" where
  "addTransaction tx = addTransactions [tx]"

section \<open>Requests\<close>

definition requestSync ::
  "Transport \<Rightarrow> string \<Rightarrow> (32 word \<times> int) list \<Rightarrow> int \<Rightarrow> ('e, SyncResponse) nm" where
  "requestSync tr target known syncLimit =
     bindG (getsG (\<lambda>n. v_ID (c_validator n))) (\<lambda>i.
     liftO (tr_Sync tr target \<lparr>sq_FromID = i, sq_Known = known, sq_SyncLimit = syncLimit\<rparr>))"

definition requestEagerSync :: "Transport \<Rightarrow> string \<Rightarrow> WireEvent list \<Rightarrow> ('e, EagerSyncResponse) nm" where
  "requestEagerSync tr target events =
     bindG (getsG (\<lambda>n. v_ID (c_validator n))) (\<lambda>i.
     liftO (tr_EagerSync tr target \<lparr>eq_FromID = i, eq_Events = events\<rparr>))"

definition requestFastForward :: "Transport \<Rightarrow> string \<Rightarrow> ('e, FastForwardResponse) nm" where
  "requestFastForward tr target =
     bindG (getsG (\<lambda>n. v_ID (c_validator n))) (\<lambda>i.
     liftO (tr_FastForward tr target \<lparr>fq_FromID = i\<rparr>))"

definition requestJoin :: "crypto \<Rightarrow> Transport \<Rightarrow> string \<Rightarrow> ('e, JoinResponse) nm" where
  "requestJoin P tr target =
     bindG (getsG c_validator) (\<lambda>v.
     let joinTx = it_Sign P (v_Key v)
           (NewInternalTransactionJoin (NewPeer (v_PublicKeyHex v) (tr_AdvertiseAddr tr) (v_Moniker v)))
     in liftO (tr_Join tr target \<lparr>jq_InternalTransaction = joinTx\<rparr>))"

section \<open>Handlers\<close>

text \<open>\<open>s[:limit]\<close>: a negative bound panics.\<close>

definition slice_to :: "'a list \<Rightarrow> int \<Rightarrow> 'a list res" where
  "slice_to xs limit =
     (if limit < 0 \<or> int (length xs) < limit then Panic else Ok (take (nat limit) xs))"

definition processSyncRequest :: "SyncRequest \<Rightarrow> ('e, RPCResponse) nm" where
  "processSyncRequest cmd =
     bindG (getsG id) (\<lambda>n0.
     tryG (eventDiff (sq_Known cmd)) (\<lambda>r.
     let (diff, respErr) = (case r of Inl err \<Rightarrow> ([], Some err) | Inr es \<Rightarrow> (es, None)) in
     bindG (if length diff > 0
            then
              let limit = min (sq_SyncLimit cmd) (cf_SyncLimit (n_conf n0))
              in bindG (if limit < int (length diff) then liftO (slice_to diff limit) else okG diff) (\<lambda>diff.
                 okG (toWire diff))
            else okG []) (\<lambda>events.
     bindG (getsG knownEvents) (\<lambda>known.
     okG (Respond (Some (SyncResp \<lparr>sr_FromID = v_ID (c_validator n0), sr_Events = events, sr_Known = known\<rparr>))
            respErr)))))"

definition node_sync :: "crypto \<Rightarrow> AppProxy \<Rightarrow> (int \<Rightarrow> int) \<Rightarrow> 32 word \<Rightarrow> WireEvent list \<Rightarrow> ('e, unit) nm" where
  "node_sync P px now fromID events =
     tryG (core_sync P (px_CommitBlock px) now fromID events) (\<lambda>r. case r of
       Inl err \<Rightarrow> if \<not> IsNormalSelfParentError err then errG err else core_processSigPool P
     | Inr _ \<Rightarrow> core_processSigPool P)"

definition processEagerSyncRequest ::
  "crypto \<Rightarrow> AppProxy \<Rightarrow> (int \<Rightarrow> int) \<Rightarrow> EagerSyncRequest \<Rightarrow> ('e, RPCResponse) nm" where
  "processEagerSyncRequest P px now cmd =
     tryG (node_sync P px now (eq_FromID cmd) (eq_Events cmd)) (\<lambda>r.
     bindG (getsG (\<lambda>n. v_ID (c_validator n))) (\<lambda>i.
     okG (case r of
            Inl err \<Rightarrow> Respond (Some (EagerSyncResp \<lparr>er_FromID = i, er_Success = False\<rparr>)) (Some err)
          | Inr _ \<Rightarrow> Respond (Some (EagerSyncResp \<lparr>er_FromID = i, er_Success = True\<rparr>)) None)))"

definition zero_Block :: Block where
  "zero_Block =
     \<lparr>bl_Body =
        \<lparr>bb_Index = 0, bb_RoundReceived = 0, bb_Timestamp = 0, bb_StateHash = [], bb_FrameHash = [],
         bb_PeersHash = [], bb_Transactions = [], bb_InternalTransactions = [],
         bb_InternalTransactionReceipts = []\<rparr>,
      bl_Signatures = [], bl_peerSet = NewPeerSet []\<rparr>"

definition zero_Frame :: Frame where
  "zero_Frame =
     \<lparr>fr_Round = 0, fr_Peers = [], fr_Roots = [], fr_Events = [], fr_PeerSets = [], fr_Timestamp = 0\<rparr>"

definition processFastForwardRequest :: "crypto \<Rightarrow> AppProxy \<Rightarrow> FastForwardRequest \<Rightarrow> ('e, RPCResponse) nm" where
  "processFastForwardRequest P px cmd =
     bindG (getsG (\<lambda>n. v_ID (c_validator n))) (\<lambda>i.
     let answer = (\<lambda>block frame snapshot err. Respond (Some (FastForwardResp
           \<lparr>fr_FromID = i, fr_Block = block, fr_Frame = frame, fr_Snapshot = snapshot\<rparr>)) err) in
     tryG (getAnchorBlockWithFrame P) (\<lambda>r. case r of
       Inl err \<Rightarrow> okG (answer zero_Block zero_Frame [] (Some err))
     | Inr (block, frame) \<Rightarrow>
         tryG (liftO (px_GetSnapshot px (bl_Index block))) (\<lambda>s. case s of
           Inl err \<Rightarrow> okG (answer block frame [] (Some err))
         | Inr snapshot \<Rightarrow> okG (answer block frame snapshot None))))"

text \<open>A join request is answered at once, or its handler waits for a promise: then the answer is what the
  promise delivers, or an error when the timeout comes first.\<close>

datatype join_status = Answered RPCResponse | Waiting nat

definition join_response :: "32 word \<Rightarrow> bool \<Rightarrow> int \<Rightarrow> Peer list \<Rightarrow> go_error option \<Rightarrow> RPCResponse" where
  "join_response i accepted acceptedRound peers err =
     Respond (Some (JoinResp
       \<lparr>jr_FromID = i, jr_Accepted = accepted, jr_AcceptedRound = acceptedRound, jr_Peers = peers\<rparr>)) err"

definition processJoinRequest :: "crypto \<Rightarrow> JoinRequest \<Rightarrow> ('e, join_status) nm" where
  "processJoinRequest P cmd =
     (let itx = jq_InternalTransaction cmd in
      bindG (getsG id) (\<lambda>n.
      tryG (liftO (it_Verify P itx)) (\<lambda>r.
      if (case r of Inl _ \<Rightarrow> True | Inr ok \<Rightarrow> \<not> ok)
      then okG (Answered (join_response (v_ID (c_validator n)) False 0 []
                  (Some (Errorf ''Unable to verify signature on join request''))))
      else if map_of (ps_ByPubKey (c_peers n)) (PubKeyString (itb_Peer (it_Body itx))) \<noteq> None
      then okG (Answered (join_response (v_ID (c_validator n)) True
                  (case getLastConsensusRoundIndex n of None \<Rightarrow> 0 | Some l \<Rightarrow> l) (ps_Peers (c_peers n)) None))
      else bindG (addInternalTransaction P itx) (\<lambda>promise. okG (Waiting promise)))))"

definition join_wait :: "bool \<Rightarrow> nat \<Rightarrow> ('e, RPCResponse) nm" where
  "join_wait timeout promise =
     bindG (getsG id) (\<lambda>n.
     let i = v_ID (c_validator n); p = c_promiseHeap n ! promise in
     if timeout
     then okG (join_response i False 0 []
                 (Some (Errorf ''Timeout waiting for JoinRequest to go through consensus'')))
     else case jp_respCh p of
            [] \<Rightarrow> liftO Diverge
          | resp # rest \<Rightarrow>
              bindG (modifyG (\<lambda>n. n\<lparr>c_promiseHeap := (c_promiseHeap n)[promise := p\<lparr>jp_respCh := rest\<rparr>]\<rparr>)) (\<lambda>_.
              okG (join_response i (jpr_accepted resp) (jpr_acceptedRound resp) (jpr_peers resp) None)))"

definition processRPC ::
  "crypto \<Rightarrow> AppProxy \<Rightarrow> (int \<Rightarrow> int) \<Rightarrow> Command \<Rightarrow> ('e, join_status) nm" where
  "processRPC P px now cmd =
     bindG (getsG n_state) (\<lambda>state.
     let isSyncRequest = (case cmd of SyncCmd _ \<Rightarrow> True | _ \<Rightarrow> False) in
     if \<not> (state = Babbling \<or> (state = Suspended \<and> isSyncRequest))
     then okG (Answered (Respond None (Some (Errorf ''Not in Babbling state''))))
     else
       let answered = (\<lambda>m. bindG m (\<lambda>resp. okG (Answered resp))) in
       case cmd of
         SyncCmd c \<Rightarrow> answered (processSyncRequest c)
       | EagerSyncCmd c \<Rightarrow> answered (processEagerSyncRequest P px now c)
       | FastForwardCmd c \<Rightarrow> answered (processFastForwardRequest P px c)
       | JoinCmd c \<Rightarrow> processJoinRequest P c
       | OtherCmd \<Rightarrow> okG (Answered (Respond None (Some (Errorf ''unexpected command'')))))"

section \<open>Gossip\<close>

definition monologue :: "crypto \<Rightarrow> AppProxy \<Rightarrow> (int \<Rightarrow> int) \<Rightarrow> ('e, unit) nm" where
  "monologue P px now =
     bindG (getsG busy) (\<lambda>b.
     if b
     then bindG (addSelfEvent P (px_CommitBlock px) now '''') (\<lambda>_. core_processSigPool P)
     else okG ())"

definition pull ::
  "crypto \<Rightarrow> AppProxy \<Rightarrow> Transport \<Rightarrow> (int \<Rightarrow> int) \<Rightarrow> Peer \<Rightarrow> ('e, (32 word \<times> int) list) nm" where
  "pull P px tr now peer =
     bindG (getsG knownEvents) (\<lambda>known.
     bindG (getsG (\<lambda>n. cf_SyncLimit (n_conf n))) (\<lambda>limit.
     bindG (requestSync tr (p_NetAddr peer) known limit) (\<lambda>resp.
     bindG (node_sync P px now (peer_ID peer) (sr_Events resp)) (\<lambda>_.
     okG (sr_Known resp)))))"

definition push :: "Transport \<Rightarrow> Peer \<Rightarrow> (32 word \<times> int) list \<Rightarrow> ('e, unit) nm" where
  "push tr peer known =
     bindG (eventDiff known) (\<lambda>diff.
     if length diff > 0
     then
       bindG (getsG (\<lambda>n. cf_SyncLimit (n_conf n))) (\<lambda>limit.
       bindG (if limit < int (length diff) then liftO (slice_to diff limit) else okG diff) (\<lambda>diff.
       bindG (requestEagerSync tr (p_NetAddr peer) (toWire diff)) (\<lambda>_.
       okG ())))
     else okG ())"

definition update_selector :: "Peer \<Rightarrow> bool \<Rightarrow> ('e, unit) nm" where
  "update_selector peer connected =
     modifyG (\<lambda>n. n\<lparr>c_peerSelector := snd (updateLast (peer_ID peer) connected (c_peerSelector n))\<rparr>)"

text \<open>The peer selector is updated however the exchange ends (\<open>defer\<close>).\<close>

definition gossip :: "crypto \<Rightarrow> AppProxy \<Rightarrow> Transport \<Rightarrow> (int \<Rightarrow> int) \<Rightarrow> Peer \<Rightarrow> ('e, unit) nm" where
  "gossip P px tr now peer =
     tryG (bindG (pull P px tr now peer) (\<lambda>known. push tr peer known)) (\<lambda>r. case r of
       Inl err \<Rightarrow> bindG (update_selector peer False) (\<lambda>_. errG err)
     | Inr _ \<Rightarrow> update_selector peer True)"

text \<open>A tick of the control timer while babbling. The gossip that the tick launches is a goroutine of
  its own: the peer it gossips with is the result.\<close>

definition babble_tick ::
  "crypto \<Rightarrow> AppProxy \<Rightarrow> (int \<Rightarrow> int) \<Rightarrow> (nat \<Rightarrow> nat) \<Rightarrow> (int \<Rightarrow> int option) \<Rightarrow> bool \<Rightarrow> ('e, Peer option) nm" where
  "babble_tick P px now intn factory gossips =
     bindG (if gossips
            then
              bindG (getsG c_peerSelector) (\<lambda>sel.
              bindG (liftO (next_peer intn sel)) (\<lambda>peer. case peer of
                Some p \<Rightarrow> okG (Some p)
              | None \<Rightarrow> tryG (monologue P px now) (\<lambda>_. okG None)))
            else okG None) (\<lambda>peer.
     bindG (resetTimer factory) (\<lambda>_.
     bindG checkSuspend (\<lambda>_. okG peer)))"

section \<open>Catching up\<close>

definition better_response :: "int \<times> FastForwardResponse option \<Rightarrow> FastForwardResponse res \<Rightarrow> int \<times> FastForwardResponse option" where
  "better_response best r =
     (case r of
        Ok resp \<Rightarrow> if bl_Index (fr_Block resp) > fst best then (bl_Index (fr_Block resp), Some resp) else best
      | _ \<Rightarrow> best)"

definition getBestFastForwardResponse :: "Transport \<Rightarrow> ('e, FastForwardResponse option) nm" where
  "getBestFastForwardResponse tr =
     bindG (getsG (\<lambda>n. ps_Peers (getPeers (c_peerSelector n)))) (\<lambda>peers.
     bindG (foldG (\<lambda>p best.
         tryG (requestFastForward tr (p_NetAddr p)) (\<lambda>r.
         okG (better_response best (case r of Inl err \<Rightarrow> Err err | Inr resp \<Rightarrow> Ok resp)))) peers (0, None)) (\<lambda>best.
     okG (snd best)))"

text \<open>\<open>fastForward\<close> after the best response is known: other goroutines run in between.\<close>

definition fastForward_with :: "crypto \<Rightarrow> AppProxy \<Rightarrow> FastForwardResponse option \<Rightarrow> ('e, unit) nm" where
  "fastForward_with P px best =
     (case best of
        None \<Rightarrow> bindG (transition Babbling) (\<lambda>_. errG (Errorf ''getBestFastForwardResponse returned nil''))
      | Some resp \<Rightarrow>
          bindG (liftO (px_Restore px (fr_Snapshot resp))) (\<lambda>_.
          bindG (fastForward P (fr_Block resp) (fr_Frame resp)) (\<lambda>_.
          tryG (processAcceptedInternalTransactions P (bl_RoundReceived (fr_Block resp))
                  (bb_InternalTransactionReceipts (bl_Body (fr_Block resp)))) (\<lambda>_.
          transition Babbling))))"

definition node_fastForward :: "crypto \<Rightarrow> AppProxy \<Rightarrow> Transport \<Rightarrow> ('e, unit) nm" where
  "node_fastForward P px tr = bindG (getBestFastForwardResponse tr) (fastForward_with P px)"

section \<open>Joining\<close>

text \<open>The field of a nil peer panics.\<close>

definition join :: "crypto \<Rightarrow> Transport \<Rightarrow> (nat \<Rightarrow> nat) \<Rightarrow> ('e, unit) nm" where
  "join P tr intn =
     bindG (getsG id) (\<lambda>n.
     if cf_MaintenanceMode (n_conf n) then okG ()
     else
       bindG (liftO (next_peer intn (c_peerSelector n))) (\<lambda>peer. case peer of
         None \<Rightarrow> liftO Panic
       | Some p \<Rightarrow>
           bindG (requestJoin P tr (p_NetAddr p)) (\<lambda>resp.
           if jr_Accepted resp
           then
             bindG (modifyG (\<lambda>n. n\<lparr>c_acceptedRound := jr_AcceptedRound resp, c_removedRound := -1\<rparr>)) (\<lambda>_.
             setBabblingOrCatchingUpState)
           else node_Shutdown)))"

section \<open>Main loop\<close>

text \<open>What an iteration of \<open>Run\<close> does in each state; \<open>None\<close> stands for the return of the loop. In the state
  \<open>Babbling\<close> the iteration is the loop on ticks; it ends when one of its channels is closed.\<close>

datatype activity = DoBabble | DoFastForward | DoJoin | DoSleep | DoNothing

definition run_activity :: "State \<Rightarrow> activity option" where
  "run_activity s =
     (case s of
        Babbling \<Rightarrow> Some DoBabble
      | CatchingUp \<Rightarrow> Some DoFastForward
      | Joining \<Rightarrow> Some DoJoin
      | Suspended \<Rightarrow> Some DoSleep
      | Shutdown \<Rightarrow> None
      | _ \<Rightarrow> Some DoNothing)"

definition babble_returns :: "'e node_scheme \<Rightarrow> bool" where
  "babble_returns n \<longleftrightarrow> n_suspendClosed n \<or> n_shutdownClosed n"

section \<open>Information\<close>

definition GetLastConsensusRoundIndex :: "'e node_scheme \<Rightarrow> int" where
  "GetLastConsensusRoundIndex n = (case getLastConsensusRoundIndex n of None \<Rightarrow> -1 | Some l \<Rightarrow> l)"

definition GetStats :: "'e node_scheme \<Rightarrow> (string \<times> string) list" where
  "GetStats n =
     [(''last_consensus_round'', itoa (GetLastConsensusRoundIndex n)),
      (''last_block_index'', itoa (getLastBlockIndex n)),
      (''consensus_events'', itoa (getConsensusEventsCount n)),
      (''undetermined_events'', itoa (int (length (getUndeterminedEvents n)))),
      (''transactions'', itoa (getConsensusTransactionsCount n)),
      (''transaction_pool'', itoa (int (length (c_transactionPool n)))),
      (''num_peers'', itoa (int (ps_Len (getPeers (c_peerSelector n))))),
      (''last_peer_change'', itoa (c_lastPeerChangeRound n)),
      (''id'', show_u32 (v_ID (c_validator n))),
      (''state'', State_String (n_state n)),
      (''moniker'', v_Moniker (c_validator n))]"

definition node_GetPeers :: "'e node_scheme \<Rightarrow> Peer list" where
  "node_GetPeers n = ps_Peers (c_peers n)"

definition node_GetBlock :: "int \<Rightarrow> ('e, Block) nm" where
  "node_GetBlock blockIndex = onStore (GetBlock blockIndex)"

definition GetValidatorSet :: "int \<Rightarrow> ('e, Peer list) nm" where
  "GetValidatorSet round = bindG (onStore (GetPeerSet round)) (\<lambda>peerSet. okG (ps_Peers peerSet))"

definition GetAllValidatorSets :: "('e, (int \<times> Peer list) list) nm" where
  "GetAllValidatorSets = onStore GetAllPeerSets"

definition graph_GetRounds :: "('e, RoundInfo list) nm" where
  "graph_GetRounds =
     bindG (getsG (\<lambda>n. is_lastRound (h_Store n))) (\<lambda>l.
     loopG (\<lambda>round res.
       tryG (onStore (GetRound round)) (\<lambda>r. case r of
         Inl _ \<Rightarrow> okG (Break res)
       | Inr ri \<Rightarrow> okG (Continue (res @ [ri])))) [0..l] [])"

definition graph_GetBlocks :: "('e, Block list) nm" where
  "graph_GetBlocks =
     bindG (getsG (\<lambda>n. is_lastBlock (h_Store n))) (\<lambda>l.
     loopG (\<lambda>i res.
       tryG (onStore (GetBlock i)) (\<lambda>r. case r of
         Inl _ \<Rightarrow> okG (Break res)
       | Inr b \<Rightarrow> okG (Continue (res @ [b])))) [0..l] [])"

definition participant_events :: "crypto \<Rightarrow> Peer \<Rightarrow> ('e, (string \<times> Event) list) nm" where
  "participant_events P p =
     bindG (onStore (GetRoot (PubKeyString p))) (\<lambda>root.
     let start = (if length (rt_Events root) > 0 then ev_Index (fe_Core (last (rt_Events root))) else -1) in
     bindG (onStore (ParticipantEvents (PubKeyString p) start)) (\<lambda>evs.
     foldG (\<lambda>e res. bindG (onStore (GetEvent e)) (\<lambda>event. okG (AList.update (Hex P event) event res))) evs []))"

definition GetParticipantEvents :: "crypto \<Rightarrow> ('e, (string \<times> (string \<times> Event) list) list) nm" where
  "GetParticipantEvents P =
     bindG (getsG (\<lambda>n. RepertoireByPubKey (h_Store n))) (\<lambda>repertoire.
     foldG (\<lambda>(k, p) res.
       bindG (participant_events P p) (\<lambda>evs. okG (AList.update (PubKeyString p) evs res))) repertoire [])"

end
