(* ===== verification/Rejection.thy ===== *)
theory Rejection
  imports Membership
begin

text \<open>
  What a node refuses: events that are forged or do not extend the graph it knows, and blocks and
  frames of a fast-forward that do not carry the signatures and the hash they need. In both cases
  nothing is stored.
\<close>

section \<open>Events\<close>

text \<open>An event that must not enter the graph: its signature does not verify, it does not extend the last
  known event of its creator, or its other-parent is unknown.\<close>

definition bad_event :: "crypto \<Rightarrow> 'c hashgraph_scheme \<Rightarrow> Event \<Rightarrow> bool" where
  "bad_event P h e \<longleftrightarrow>
     ev_Verify P e \<noteq> Ok True \<or>
     (\<forall>sp. SelfParent e = Ok sp \<longrightarrow>
        \<not> (if sp = '''' then chain_of (h_Store h) (Creator e) = None
            else \<exists>i. chain_of (h_Store h) (Creator e) = Some (sp, i))) \<or>
     (\<forall>op. OtherParent e = Ok op \<longrightarrow> op \<noteq> '''' \<and> dag h op = None)"

lemma insert_unverified:
  assumes "ev_Verify P e \<noteq> Ok True" and "InsertEvent P e w h = (r, h')"
  shows "\<not> is_Ok r \<and> h' = h"
  using assms unfolding InsertEvent_def
  by (cases "ev_Verify P e"; cases "SelfParent e") (auto simp: bindG_def go_defs)

text \<open>C13: \<open>InsertEvent\<close> refuses every event whose signature does not verify, that does not extend the last
  known event of its creator, or whose other-parent is unknown: the call fails, and the graph, the
  rounds, the blocks and the queues stay as they are.\<close>

theorem bad_events_rejected:
  assumes inv: "hg_inv P h" and bad: "bad_event P h e" and run: "InsertEvent P e w h = (r, h')"
  shows "\<not> is_Ok r \<and> reads h h'"
proof (cases "ev_Verify P e = Ok True")
  case False
  then show ?thesis using insert_unverified [OF _ run] rd.frame_refl by blast
next
  case True
  have wf: "dag_wf (dag h) (chain_of (h_Store h))" using inv by (simp add: hg_inv_def)
  from run have "bindG (checkSelfParent e) (\<lambda>_. bindG (checkOtherParent e) (\<lambda>_.
      insert_checked P e w)) h = (r, h')" by (simp add: InsertEvent_def True)
  then show ?thesis
  proof (cases rule: bindG_cases)
    case (fail r')
    then show ?thesis using keepsD [OF keeps_reads_checks(1) fail(1)] by blast
  next
    case self: (ok u h1)
    have r1: "reads h h1" using keeps_reads_checks(1) self(1) by (rule keepsD)
    have eq: "dag h1 = dag h" using readsD(4) [OF r1] by (simp add: dag_def sdag_def fun_eq_iff)
    from self(2) show ?thesis
    proof (cases rule: bindG_cases)
      case (ok v h2)
      have False using checkSelfParent_Ok [OF self(1) wf] checkOtherParent_Ok [OF ok(1)] bad True eq
        unfolding bad_event_def by metis
      then show ?thesis ..
    next
      case (fail r')
      then show ?thesis using rd.frame_trans [OF r1 keepsD [OF keeps_reads_checks(2) fail(1)]] by blast
    qed
  qed
qed

theorem bad_events_rejected_witness:
  "let (r, h') = InsertEvent sample_crypto sample_e1 True sample_h2 in
     \<not> is_Ok r \<and> reads sample_h2 h'"
proof -
  have 1: "SelfParent sample_e1 = Ok ''''" by code_simp
  have 2: "chain_of (h_Store sample_h2) (Creator sample_e1) \<noteq> None" by code_simp
  have bad: "bad_event sample_crypto sample_h2 sample_e1" using 1 2 by (auto simp: bad_event_def)
  have inv: "hg_inv sample_crypto sample_h2" by (rule hg_reachable_inv [OF sample_h2_reachable sample_cb_keeps])
  show ?thesis
    using bad_events_rejected [OF inv bad, of True, OF surjective_pairing] by (simp add: split_beta)
qed

section \<open>Fast forward\<close>

definition checked_pair :: "crypto \<Rightarrow> Block \<Rightarrow> Frame \<Rightarrow> bool" where
  "checked_pair P block frame \<longleftrightarrow>
     CheckBlock P block (NewPeerSet (fr_Peers frame)) = Ok () \<and> bb_FrameHash (bl_Body block) = fr_Hash P frame"

text \<open>The rounds from which consensus goes on, and their preservation.\<close>

definition same_rounds :: "'c hashgraph_scheme \<Rightarrow> 'c hashgraph_scheme \<Rightarrow> bool" where
  "same_rounds h h' \<longleftrightarrow>
     h_LastConsensusRound h' = h_LastConsensusRound h \<and> h_roundLowerBound h' = h_roundLowerBound h \<and>
     is_lastBlock (h_Store h') = is_lastBlock (h_Store h)"

interpretation sr: frame_rel same_rounds
  by unfold_locales (auto simp: same_rounds_def)

lemma keeps_same_rounds_reads: "keeps reads m \<Longrightarrow> keeps same_rounds m"
  unfolding keeps_def same_rounds_def by (simp add: readsD(6,12,14))

lemma keeps_same_rounds_head: "keeps same_rounds (setHeadAndSeq :: ('d, unit) cm)"
proof -
  have head: "keeps same_rounds (set_head x i :: ('d, unit) cm)" for x i
    unfolding set_head_def by (intro sr.keeps_modify) (simp add: same_rounds_def)
  have read: "keeps reads (onStore (LastEventFrom x) :: ('d, _) cm)" "keeps reads (getEvent x :: ('d, Event) cm)" for x
    unfolding getEvent_def by (intro reads_intro)+
  show ?thesis unfolding setHeadAndSeq_def
    by (intro sr.keeps_basic keeps_rules head keeps_same_rounds_reads read)
qed

text \<open>C12: A fast-forward happens on a checked block and its frame, or not at all. If the block does not pass
  \<open>CheckBlock\<close> with the peers of the frame, or the frame does not have the hash written in the block,
  the call fails and the core is untouched. If the call returns without error, they passed, consensus
  goes on from the round of the block, and the validators and peers are those of the frame.\<close>

theorem fast_forward_guarded:
  assumes run: "fastForward P block frame c = (r, c')"
  shows "(\<not> checked_pair P block frame \<longrightarrow> \<not> is_Ok r \<and> c' = c) \<and>
    (is_Ok r \<longrightarrow> checked_pair P block frame \<and>
       h_LastConsensusRound c' = Some (bl_RoundReceived block) \<and> h_roundLowerBound c' = Some (bl_RoundReceived block) \<and>
       bl_Index block \<le> is_lastBlock (h_Store c') \<and>
       c_validators c' = NewPeerSet (fr_Peers frame) \<and> c_peers c' = NewPeerSet (fr_Peers frame))"
proof -
  have fail: "\<not> is_Ok r \<and> c' = c" if "\<not> checked_pair P block frame"
    using that run unfolding fastForward_def Let_def checked_pair_def
    by (cases "CheckBlock P block (NewPeerSet (fr_Peers frame))")
      (auto simp: bindG_def go_defs, metis is_Ok.simps(2))
  moreover have "h_LastConsensusRound c' = Some (bl_RoundReceived block) \<and>
      h_roundLowerBound c' = Some (bl_RoundReceived block) \<and> bl_Index block \<le> is_lastBlock (h_Store c') \<and>
      c_validators c' = NewPeerSet (fr_Peers frame) \<and> c_peers c' = NewPeerSet (fr_Peers frame)" if "is_Ok r"
  proof -
    have "r = Ok ()" using that by (cases r) auto
    then obtain c1 c2 where reset: "hg_Reset P block frame c = (Ok (), c1)" and head: "setHeadAndSeq c1 = (Ok (), c2)"
      and rest: "bindG (setPeers (NewPeerSet (fr_Peers frame))) (\<lambda>_.
        modifyG (\<lambda>c. c\<lparr>c_validators := NewPeerSet (fr_Peers frame)\<rparr>)) c2 = (Ok (), c')"
      using run by (auto simp: fastForward_def Let_def bindG_eq_Ok liftO_def errG_def split: if_splits)
    have "h_LastConsensusRound c1 = Some (bl_RoundReceived block) \<and> h_roundLowerBound c1 = Some (bl_RoundReceived block) \<and>
        bl_Index block \<le> is_lastBlock (h_Store c1)"
      using reset by (auto simp: hg_Reset_def bindG_eq_Ok setLastConsensusRound_def setRoundLowerBound_def go_defs
          onStore_def SetBlock_run)
    moreover have "same_rounds c1 c2" using keeps_same_rounds_head head by (rule keepsD)
    ultimately show ?thesis using rest by (auto simp: same_rounds_def setPeers_def go_defs)
  qed
  ultimately show ?thesis by blast
qed

definition forward_frame :: "int \<Rightarrow> Frame" where
  "forward_frame i =
     \<lparr>fr_Round = i, fr_Peers = [sample_peer 1, sample_peer 2], fr_Roots = [], fr_Events = [],
      fr_PeerSets = [(0, [sample_peer 1, sample_peer 2])], fr_Timestamp = 0\<rparr>"

definition forward_block :: Block where
  "forward_block =
     (NewBlock sample_crypto 3 5 (fr_Hash sample_crypto (forward_frame 5)) [sample_peer 1, sample_peer 2] [[1]] [] 0)
       \<lparr>bl_Signatures := [(''0X01'', ''1|1''), (''0X02'', ''1|1'')]\<rparr>"

theorem fast_forward_guarded_witness:
  "h_LastConsensusRound (snd (fastForward sample_crypto forward_block (forward_frame 5) sample_core)) = Some 5 \<and>
   \<not> is_Ok (fst (fastForward sample_crypto forward_block (forward_frame 6) sample_core)) \<and>
   snd (fastForward sample_crypto forward_block (forward_frame 6) sample_core) = sample_core"
proof -
  have 1: "is_Ok (fst (fastForward sample_crypto forward_block (forward_frame 5) sample_core))"
    "bl_RoundReceived forward_block = 5" by code_simp+
  have "bb_FrameHash (bl_Body forward_block) \<noteq> fr_Hash sample_crypto (forward_frame 6)" by code_simp
  then have 2: "\<not> checked_pair sample_crypto forward_block (forward_frame 6)" by (simp add: checked_pair_def)
  show ?thesis
    using 1 2 fast_forward_guarded [of sample_crypto forward_block "forward_frame 5" sample_core, OF surjective_pairing]
      fast_forward_guarded [of sample_crypto forward_block "forward_frame 6" sample_core, OF surjective_pairing]
    by auto
qed

section \<open>What is not refused\<close>

text \<open>A run with an encoding of bodies that separates events by their timestamps: an event of the first
  participant, and a second one on top of it with the same index.\<close>

definition fork_crypto :: crypto where
  "fork_crypto = sample_crypto\<lparr>cp_EventBody := (\<lambda>b. word_of_int (eb_Timestamp b) # eb_Creator b)\<rparr>"

definition fork_event :: "string \<Rightarrow> int \<Rightarrow> Event" where
  "fork_event selfParent timestamp =
     ev_Sign fork_crypto [] (NewEvent [[7]] [] [] [selfParent, ''''] [1] 0 timestamp)"

definition fork_run :: "unit res \<times> hashgraph" where
  "fork_run = bindG (InsertEvent fork_crypto (fork_event '''' 1) True)
     (\<lambda>_. InsertEvent fork_crypto (fork_event (Hex fork_crypto (fork_event '''' 1)) 2) True) sample_h0"


end
