(* ===== verification/Node_Facts.thy ===== *)
theory Node_Facts
  imports Node Rejection
begin

text \<open>
  What the handlers of a node do: which requests are answered in which state, what a synchronisation
  response contains, which response a fast-forward starts from, and how a shutdown interacts with it.
\<close>

section \<open>Differences\<close>

text \<open>The event is stored, and its hash follows, in the window of some participant, the index that the other
  side knows.\<close>

definition unknown_to :: "(32 word \<times> int) list \<Rightarrow> 'c hashgraph_scheme \<Rightarrow> Event \<Rightarrow> bool" where
  "unknown_to known h e \<longleftrightarrow>
     (\<exists>i peer xs x. map_of (RepertoireByID (h_Store h)) i = Some peer \<and>
        pec_Get (is_participantEventsCache (h_Store h)) (PubKeyString peer)
          (case map_of known i of None \<Rightarrow> -1 | Some ct \<Rightarrow> ct) = Ok xs \<and>
        x \<in> set xs \<and> lru_lookup (is_eventCache (h_Store h)) x = Some e)"

lemma unknown_to_reads: "reads h h' \<Longrightarrow> unknown_to known h' e = unknown_to known h e"
  using readsD(4,7,8) [of h h'] by (simp add: unknown_to_def RepertoireByID_def)

abbreviation diff_event :: "string \<Rightarrow> Event list \<Rightarrow> ('d core_scheme, Event list) go" where
  "diff_event x unknown \<equiv> bindG (onStore (GetEvent x)) (\<lambda>ev. okG (unknown @ [ev]))"

lemma hoare_diff_event:
  fixes n :: "'d core_scheme"
  assumes "\<And>e. lru_lookup (is_eventCache (h_Store n)) x = Some e \<Longrightarrow> unknown_to known n e"
  shows "hoare (\<lambda>h. reads n h \<and> (\<forall>e \<in> set us. unknown_to known n e)) (diff_event x us)
    (\<lambda>us h. reads n h \<and> (\<forall>e \<in> set us. unknown_to known n e)) (reads n)"
proof (rule hoareI)
  fix h h' vs
  assume h: "reads n h \<and> (\<forall>e \<in> set us. unknown_to known n e)" and "diff_event x us h = (Ok vs, h')"
  then obtain e where e: "lru_lookup (is_eventCache (h_Store h)) x = Some e" "vs = us @ [e]"
    "onStore (GetEvent x) h = (Ok e, h')"
    by (auto simp: bindG_eq_Ok go_defs onStore_GetEvent split: option.splits)
  have "reads h h'" using keeps_reads_store(1) e(3) by (rule keepsD)
  then have "reads n h'" using h rd.frame_trans by blast
  moreover have "unknown_to known n e" using e(1) readsD(4) [of n h] h assms by simp
  ultimately show "reads n h' \<and> (\<forall>e \<in> set vs. unknown_to known n e)" using h e(2) by auto
next
  fix h r h'
  assume h: "reads n h \<and> (\<forall>e \<in> set us. unknown_to known n e)" and run: "diff_event x us h = (r, h')"
  have "keeps reads (diff_event x us :: ('d core_scheme, Event list) go)" by (intro rd.keeps_basic reads_intro)
  then have "reads h h'" using run by (rule keepsD)
  then show "reads n h'" using h rd.frame_trans by blast
qed

lemma keeps_reads_participant_diff: "keeps reads (participant_diff known p acc :: ('d, Event list) cm)"
  unfolding participant_diff_def Let_def by (intro rd.keeps_basic keeps_rules reads_intro)

lemma hoare_participant_diff:
  fixes n :: "'d core_scheme"
  shows "hoare (\<lambda>h. reads n h \<and> (\<forall>e \<in> set acc. unknown_to known n e)) (participant_diff known p acc)
    (\<lambda>es h. reads n h \<and> (\<forall>e \<in> set es. unknown_to known n e)) (reads n)"
proof (rule hoareI)
  fix h h' es
  let ?ct = "case map_of known (fst p) of None \<Rightarrow> -1 | Some ct \<Rightarrow> ct"
  assume pre: "reads n h \<and> (\<forall>e \<in> set acc. unknown_to known n e)"
    and run: "participant_diff known p acc h = (Ok es, h')"
  show "reads n h' \<and> (\<forall>e \<in> set es. unknown_to known n e)"
  proof (cases "map_of (RepertoireByID (h_Store h)) (fst p)")
    case None
    then show ?thesis using run pre by (simp add: participant_diff_def Let_def go_defs)
  next
    case (Some peer)
    obtain xs where xs: "pec_Get (is_participantEventsCache (h_Store h)) (PubKeyString peer) ?ct = Ok xs"
      and fold: "foldG diff_event xs acc h = (Ok es, h')"
      using run Some by (auto simp: participant_diff_def Let_def go_defs bindG_eq_Ok onStore_def ParticipantEvents_def
          split: prod.splits)
    have "unknown_to known n e" if "x \<in> set xs" "lru_lookup (is_eventCache (h_Store n)) x = Some e" for x e
      using that Some xs readsD(4) [of n h] pre unknown_to_reads [of n h known e] by (auto simp: unknown_to_def)
    then have "hoare (\<lambda>g. reads n g \<and> (\<forall>e \<in> set acc. unknown_to known n e)) (foldG diff_event xs acc)
        (\<lambda>us g. reads n g \<and> (\<forall>e \<in> set us. unknown_to known n e)) (reads n)"
      by (intro hoare_foldG hoare_diff_event)
    then show ?thesis using pre fold by (rule hoareD)
  qed
next
  fix h r h'
  assume "reads n h \<and> (\<forall>e \<in> set acc. unknown_to known n e)" and "participant_diff known p acc h = (r, h')"
  then show "reads n h'" using keepsD [OF keeps_reads_participant_diff] rd.frame_trans by blast
qed

lemma eventDiff_Ok:
  assumes "eventDiff known n = (Ok es, n')"
  shows "sorted (map ev_topologicalIndex es) \<and> (\<forall>e \<in> set es. unknown_to known n e)"
proof -
  obtain us where fold: "foldG (participant_diff known) (knownEvents n) [] n = (Ok us, n')"
    and es: "es = ByTopologicalOrder us"
    using assms by (auto simp: eventDiff_def bindG_eq_Ok go_defs)
  have "hoare (\<lambda>h. reads n h \<and> (\<forall>e \<in> set []. unknown_to known n e)) (foldG (participant_diff known) (knownEvents n) [])
      (\<lambda>es h. reads n h \<and> (\<forall>e \<in> set es. unknown_to known n e)) (reads n)"
    by (rule hoare_foldG, rule hoare_participant_diff)
  from hoareD [OF this _ fold] show ?thesis using rd.frame_refl [of n] by (simp add: es ByTopologicalOrder_def)
qed

lemma keeps_reads_eventDiff: "keeps reads (eventDiff known :: ('d, Event list) cm)"
  unfolding eventDiff_def by (intro rd.keeps_basic keeps_reads_participant_diff)

lemma keeps_reads_processSyncRequest: "keeps reads (processSyncRequest cmd :: ('e, RPCResponse) nm)"
  unfolding processSyncRequest_def Let_def
  by (intro rd.keeps_basic keeps_rules keeps_reads_eventDiff)

section \<open>Requests and states\<close>

text \<open>C21: A node answers requests in the state \<open>Babbling\<close> only, except that a suspended node answers
  synchronisation requests. In every other case the answer is an error and the node is unchanged; the
  answer of a suspended node only reads.\<close>

theorem requests_only_when_babbling:
  assumes "n_state n \<noteq> Babbling" and "processRPC P px now cmd n = (r, n')"
  shows "if n_state n = Suspended \<and> (\<exists>c. cmd = SyncCmd c) then reads n n'
    else r = Ok (Answered (Respond None (Some (Errorf ''Not in Babbling state'')))) \<and> n' = n"
proof (cases "n_state n = Suspended \<and> (\<exists>c. cmd = SyncCmd c)")
  case True
  then obtain c where c: "cmd = SyncCmd c" by blast
  have "keeps reads (bindG (processSyncRequest c) (\<lambda>resp. okG (Answered resp)) :: ('a, join_status) nm)"
    by (intro rd.keeps_basic keeps_reads_processSyncRequest)
  moreover have "bindG (processSyncRequest c) (\<lambda>resp. okG (Answered resp)) n = (r, n')"
    using assms(2) True by (simp add: processRPC_def Let_def c)
  ultimately show ?thesis using True keepsD by (metis (mono_tags))
next
  case False
  then show ?thesis using assms by (cases cmd) (auto simp: processRPC_def Let_def go_defs)
qed

lemma limited_run:
  "bindG (if L < int (length es) then liftO (slice_to es L) else okG es) (\<lambda>d. okG (toWire d)) =
     liftO (if L < 0 then Panic else Ok (map ToWire (take (nat L) es)))"
  by (auto simp: fun_eq_iff slice_to_def toWire_def go_defs bindG_def)

lemma processSyncRequest_run:
  assumes "eventDiff (sq_Known cmd) n = (Ok es, n1)"
  shows "processSyncRequest cmd n =
    (let L = min (sq_SyncLimit cmd) (cf_SyncLimit (n_conf n)) in
     if es \<noteq> [] \<and> L < 0 then (Panic, n1)
     else (Ok (Respond (Some (SyncResp \<lparr>sr_FromID = v_ID (c_validator n),
       sr_Events = map ToWire (take (nat L) es), sr_Known = knownEvents n1\<rparr>)) None), n1))"
  using assms by (simp add: processSyncRequest_def tryG_run go_defs bindG_run Let_def limited_run del: of_nat_Suc)

text \<open>C22: The answer to a synchronisation request leaves the graph and the queues as they are, tells what the
  node knows, and carries events in topological order, each stored and beyond what the requester
  knows of its creator; there are no more of them than the smaller of the two limits allows.\<close>

theorem sync_response_bounded:
  assumes run: "processSyncRequest cmd n = (Ok resp, n')"
  shows "reads n n' \<and> (\<exists>sr err es. resp = Respond (Some (SyncResp sr)) err \<and> sr_Known sr = knownEvents n \<and>
    sr_Events sr = map ToWire es \<and> sorted (map ev_topologicalIndex es) \<and> (\<forall>e \<in> set es. unknown_to (sq_Known cmd) n e) \<and>
    (es \<noteq> [] \<longrightarrow> int (length es) \<le> min (sq_SyncLimit cmd) (cf_SyncLimit (n_conf n))))"
proof -
  let ?limit = "min (sq_SyncLimit cmd) (cf_SyncLimit (n_conf n))"
  have rd: "reads n n'" using keeps_reads_processSyncRequest run by (rule keepsD)
  have known: "knownEvents n' = knownEvents n" using readsD(8) [OF rd] by (simp add: knownEvents_def KnownEvents_def)
  obtain r n1 where diff: "eventDiff (sq_Known cmd) n = (r, n1)" by fastforce
  show ?thesis
  proof (cases r)
    case (Ok es)
    note facts = eventDiff_Ok [OF diff [unfolded Ok]]
    define fs where "fs = take (nat ?limit) es"
    have "\<not> (es \<noteq> [] \<and> ?limit < 0)" using run processSyncRequest_run [OF diff [unfolded Ok]] by (auto simp: Let_def)
    then have fs: "resp = Respond (Some (SyncResp \<lparr>sr_FromID = v_ID (c_validator n), sr_Events = map ToWire fs,
        sr_Known = knownEvents n'\<rparr>)) None" "\<exists>m. fs = take m es" "fs \<noteq> [] \<longrightarrow> int (length fs) \<le> ?limit"
      using run processSyncRequest_run [OF diff [unfolded Ok]] by (auto simp: Let_def fs_def)
    have sorted: "sorted (map ev_topologicalIndex fs)" using facts fs(2) by (auto simp: take_map [symmetric] sorted_wrt_take)
    have unknown: "\<forall>e \<in> set fs. unknown_to (sq_Known cmd) n e" using facts fs(2) by (auto dest: in_set_takeD)
    let ?sr = "\<lparr>sr_FromID = v_ID (c_validator n), sr_Events = map ToWire fs, sr_Known = knownEvents n'\<rparr>"
    have "sr_Known ?sr = knownEvents n" "sr_Events ?sr = map ToWire fs" using known by simp_all
    then show ?thesis using rd fs(1,3) sorted unknown by blast
  next
    case (Err err)
    then show ?thesis using run diff rd known
      by (auto simp: processSyncRequest_def tryG_run go_defs bindG_run Let_def)
  qed (use run diff in \<open>auto simp: processSyncRequest_def tryG_run go_defs\<close>)
qed

text \<open>C36: A synchronisation request with a negative limit crashes the node: as soon as there is an event that
  the requester does not know, the handler panics, in the state \<open>Babbling\<close> and in the state
  \<open>Suspended\<close>.\<close>

theorem negative_sync_limit_panics:
  assumes "n_state n \<in> {Babbling, Suspended}" and "fst (eventDiff (sq_Known cmd) n) = Ok (e # es)"
    and "sq_SyncLimit cmd < 0"
  shows "fst (processRPC P px now (SyncCmd cmd) n) = Panic"
proof -
  obtain n1 where "eventDiff (sq_Known cmd) n = (Ok (e # es), n1)" using assms(2) by (metis prod.collapse)
  then have "processSyncRequest cmd n = (Panic, n1)"
    using assms(3) processSyncRequest_run by (fastforce simp: Let_def)
  then show ?thesis using assms(1) by (auto simp: processRPC_def go_defs bindG_run)
qed

section \<open>The best fast-forward response\<close>

lemma best_response_fold:
  assumes "b = foldl better_response (m, None) rs" and "0 \<le> m"
  shows "case snd b of
      None \<Rightarrow> fst b = m \<and> (\<forall>resp. Ok resp \<in> set rs \<longrightarrow> bl_Index (fr_Block resp) \<le> m)
    | Some resp \<Rightarrow> Ok resp \<in> set rs \<and> fst b = bl_Index (fr_Block resp) \<and> m < fst b \<and>
        (\<forall>resp'. Ok resp' \<in> set rs \<longrightarrow> bl_Index (fr_Block resp') \<le> fst b)"
  using assms(1)
proof (induction rs arbitrary: b rule: rev_induct)
  case (snoc r rs)
  define a where "a = foldl better_response (m, None) rs"
  have b: "b = better_response a r" using snoc.prems by (simp add: a_def)
  show ?case
  proof (cases r)
    case (Ok resp)
    then show ?thesis using snoc.IH [OF a_def] b
      by (cases "bl_Index (fr_Block resp) > fst a"; cases "snd a")
        (auto simp: better_response_def intro: less_imp_le dest: order.strict_trans1)
  qed (use snoc.IH [OF a_def] b in \<open>auto simp: better_response_def split: option.splits\<close>)
qed simp

text \<open>C23: \<open>getBestFastForwardResponse\<close> asks every peer and, when the requests come back, returns a response
  whose block has the highest index of all; it returns none exactly when no response has a block with
  an index above zero.\<close>

theorem best_fast_forward_response:
  assumes "\<And>p. is_Ok (f p) \<or> (\<exists>e. f p = Err e)"
    and f: "f = (\<lambda>p. tr_FastForward tr (p_NetAddr p) \<lparr>fq_FromID = v_ID (c_validator n)\<rparr>)"
  shows "\<exists>best. getBestFastForwardResponse tr n = (Ok best, n) \<and>
    (let responses = {resp. \<exists>p \<in> set (ps_Peers (getPeers (c_peerSelector n))). f p = Ok resp} in
     case best of
       None \<Rightarrow> \<forall>resp \<in> responses. bl_Index (fr_Block resp) \<le> 0
     | Some resp \<Rightarrow> resp \<in> responses \<and> 0 < bl_Index (fr_Block resp) \<and>
         (\<forall>resp' \<in> responses. bl_Index (fr_Block resp') \<le> bl_Index (fr_Block resp)))"
proof -
  let ?peers = "ps_Peers (getPeers (c_peerSelector n))"
  define b where "b = foldl better_response (0, None) (map f ?peers)"
  have req: "requestFastForward tr (p_NetAddr p) n = liftO (f p) n" for p
    by (simp add: requestFastForward_def go_defs f)
  have step: "tryG (requestFastForward tr (p_NetAddr p)) k n = tryG (liftO (f p)) k n" for p k
    by (simp add: tryG_def req)
  have "foldG (\<lambda>p best. tryG (requestFastForward tr (p_NetAddr p)) (\<lambda>r.
      okG (better_response best (case r of Inl err \<Rightarrow> Err err | Inr resp \<Rightarrow> Ok resp)))) ps a n =
    (Ok (foldl better_response a (map f ps)), n)" for ps a
  proof (induction ps arbitrary: a)
    case (Cons p ps)
    show ?case using assms(1) [of p] Cons.IH
      by (cases "f p") (auto simp: bindG_def step tryG_run go_defs)
  qed (simp add: go_defs)
  then have run: "getBestFastForwardResponse tr n = (Ok (snd b), n)"
    by (simp add: getBestFastForwardResponse_def go_defs bindG_run b_def)
  have mem: "Ok resp \<in> set (map f ?peers) \<longleftrightarrow> (\<exists>p \<in> set ?peers. f p = Ok resp)" for resp by (auto simp: image_iff eq_commute)
  show ?thesis using run best_response_fold [OF b_def] mem by (auto simp: Let_def split: option.splits)
qed

section \<open>Shutdown\<close>

text \<open>C37: A shutdown does not last when it comes while the node is catching up. \<open>fastForward\<close>, when no
  response is usable, puts the node back in the state \<open>Babbling\<close>, where the main loop does not return
  although the shutdown channel is closed; and the next call of \<open>Shutdown\<close> panics, because it closes that
  channel again.\<close>

theorem shutdown_undone_by_fast_forward:
  assumes "n_state n \<noteq> Shutdown" and "\<not> n_shutdownClosed n"
  shows "let n1 = snd (node_Shutdown n); n2 = snd (fastForward_with P px None n1) in
    n_state n1 = Shutdown \<and> run_activity (n_state n2) = Some DoBabble \<and> babble_returns n2 \<and>
    fst (node_Shutdown n2) = Panic"
  using assms
  by (simp add: node_Shutdown_def fastForward_with_def transition_def close_shutdownCh_def go_defs bindG_run Let_def
      n_state_def GetState_def SetState_def run_activity_def babble_returns_def)

section \<open>A sample node\<close>

definition sample_conf :: Config where
  "sample_conf = (NewDefaultConfig ''data'' ''data/badger_db'')\<lparr>cf_EnableFastSync := True\<rparr>"

definition sample_node :: node where
  "sample_node =
     snd (InsertEvent sample_crypto sample_e1 True
       (NewNode sample_conf \<lparr>v_Key = [1], v_Moniker = ''a''\<rparr> sample_peers sample_peers (NewInmemStore 10)))"

definition sample_proxy :: AppProxy where
  "sample_proxy =
     \<lparr>px_CommitBlock = sample_app, px_GetSnapshot = (\<lambda>_. Ok []), px_Restore = (\<lambda>_. Ok ())\<rparr>"

definition sample_request :: "int \<Rightarrow> SyncRequest" where
  "sample_request limit = \<lparr>sq_FromID = 2, sq_Known = [], sq_SyncLimit = limit\<rparr>"

definition sample_transport :: "(string \<Rightarrow> FastForwardResponse res) \<Rightarrow> Transport" where
  "sample_transport f =
     \<lparr>tr_Sync = (\<lambda>_ _. Err (Errorf ''down'')), tr_EagerSync = (\<lambda>_ _. Err (Errorf ''down'')),
      tr_FastForward = (\<lambda>t _. f t), tr_Join = (\<lambda>_ _. Err (Errorf ''down'')), tr_AdvertiseAddr = ''addr''\<rparr>"

lemma sample_node_run:
  "let n = sample_node; d = fst (eventDiff [] n) in
     n_state n = Babbling \<and> \<not> n_shutdownClosed n \<and> ps_Peers (getPeers (c_peerSelector n)) \<noteq> [] \<and>
     (case d of Ok es \<Rightarrow> length es = 1 | _ \<Rightarrow> False) \<and>
     (case fst (processSyncRequest (sample_request 5) n) of Ok _ \<Rightarrow> True | _ \<Rightarrow> False)"
  by code_simp

lemmas sample_node_facts = sample_node_run [unfolded Let_def]

theorem requests_only_when_babbling_witness:
  "let n = snd (transition Joining sample_node)
   in processRPC sample_crypto sample_proxy id (SyncCmd (sample_request 5)) n =
        (Ok (Answered (Respond None (Some (Errorf ''Not in Babbling state'')))), n)"
proof -
  let ?n = "snd (transition Joining sample_node)"
  have s: "n_state ?n = Joining" by (simp add: transition_def go_defs n_state_def GetState_def SetState_def)
  show ?thesis
    using requests_only_when_babbling [of ?n sample_crypto sample_proxy id "SyncCmd (sample_request 5)", OF _ surjective_pairing] s
    by (simp add: Let_def) (metis prod.collapse)
qed

theorem sync_response_bounded_witness:
  "\<exists>resp. fst (processSyncRequest (sample_request 5) sample_node) = Ok resp \<and>
     reads sample_node (snd (processSyncRequest (sample_request 5) sample_node)) \<and>
     (\<exists>sr err. resp = Respond (Some (SyncResp sr)) err \<and> length (sr_Events sr) \<le> 5)"
proof -
  let ?run = "processSyncRequest (sample_request 5) sample_node"
  obtain resp where r: "fst ?run = Ok resp" using sample_node_facts by (auto split: outcome.splits)
  then have run: "?run = (Ok resp, snd ?run)" by (metis prod.collapse)
  from sync_response_bounded [OF run] obtain sr err es where
    "reads sample_node (snd ?run)" "resp = Respond (Some (SyncResp sr)) err" "sr_Events sr = map ToWire es"
    "es \<noteq> [] \<longrightarrow> int (length es) \<le> 5" by (auto simp: sample_request_def)
  then show ?thesis using r by (cases "es = []") auto
qed

theorem negative_sync_limit_panics_witness:
  "fst (processRPC sample_crypto sample_proxy id (SyncCmd (sample_request (-1))) sample_node) = Panic"
proof -
  obtain e where "fst (eventDiff [] sample_node) = Ok [e]"
    using sample_node_facts by (auto simp: length_Suc_conv split: outcome.splits)
  then show ?thesis
    using negative_sync_limit_panics [of sample_node "sample_request (-1)" e "[]"] sample_node_facts
    by (simp add: sample_request_def)
qed

definition sample_forward :: FastForwardResponse where
  "sample_forward =
     \<lparr>fr_FromID = 2, fr_Block = forward_block, fr_Frame = forward_frame 5, fr_Snapshot = []\<rparr>"

theorem best_fast_forward_response_witness:
  "getBestFastForwardResponse (sample_transport (\<lambda>_. Ok sample_forward)) sample_node =
     (Ok (Some sample_forward), sample_node)"
proof -
  let ?tr = "sample_transport (\<lambda>_. Ok sample_forward)" and ?peers = "ps_Peers (getPeers (c_peerSelector sample_node))"
  have "bl_Index (fr_Block sample_forward) = 3" by code_simp
  moreover have "?peers \<noteq> []" using sample_node_facts by simp
  ultimately show ?thesis
    using best_fast_forward_response [of "\<lambda>_. Ok sample_forward" ?tr sample_node]
    by (auto simp: sample_transport_def split: option.splits)
qed

theorem shutdown_undone_by_fast_forward_witness:
  "fst (node_Shutdown (snd (fastForward_with sample_crypto sample_proxy None (snd (node_Shutdown sample_node))))) = Panic"
  using shutdown_undone_by_fast_forward [of sample_node sample_crypto sample_proxy] sample_node_facts by (simp add: Let_def)

end
