(* ===== verification/Application.thy ===== *)
theory Application
  imports Node
begin

text \<open>
  The application side: the demonstration application of \<open>src/src/dummy/state.go\<close> and the in-memory proxy of
  \<open>src/src/proxy/inmem/inmem_proxy.go\<close>, which passes the calls of the node to a handler. Logging and the
  channel of submitted transactions are left out. The interface \<open>ProxyHandler\<close> is the record of the handler's
  functions; what fast-forwarding relies on is the locale \<open>proxy_handler\<close>: the snapshot of a block restores the
  state hash that was returned for the block.
\<close>

section \<open>The demonstration application\<close>

record DummyState =
  ds_committedTxs :: "byte list list"
  ds_stateHash :: "byte list"
  ds_snapshots :: "(int \<times> byte list) list"
  ds_babbleState :: State

definition NewState :: DummyState where
  "NewState = \<lparr>ds_committedTxs = [], ds_stateHash = [], ds_snapshots = [], ds_babbleState = Babbling\<rparr>"

definition CommitHandler :: "crypto \<Rightarrow> Block \<Rightarrow> DummyState \<Rightarrow> CommitResponse res \<times> DummyState" where
  "CommitHandler P block a =
     (let txs = bb_Transactions (bl_Body block);
          hash = foldl (\<lambda>h tx. SimpleHashFromTwoHashes P h (cp_SHA256 P tx)) (ds_stateHash a) txs
      in (Ok \<lparr>cr_StateHash = hash, cr_InternalTransactionReceipts = map AsAccepted (bb_InternalTransactions (bl_Body block))\<rparr>,
          a\<lparr>ds_committedTxs := ds_committedTxs a @ txs, ds_stateHash := hash,
            ds_snapshots := AList.update (bl_Index block) hash (ds_snapshots a)\<rparr>))"

definition SnapshotHandler :: "int \<Rightarrow> DummyState \<Rightarrow> byte list res" where
  "SnapshotHandler blockIndex a =
     (case map_of (ds_snapshots a) blockIndex of
        None \<Rightarrow> Err (Errorf (''Snapshot '' @ itoa blockIndex @ '' not found''))
      | Some snapshot \<Rightarrow> Ok snapshot)"

definition RestoreHandler :: "byte list \<Rightarrow> DummyState \<Rightarrow> byte list res \<times> DummyState" where
  "RestoreHandler snapshot a = (Ok snapshot, a\<lparr>ds_stateHash := snapshot\<rparr>)"

definition StateChangeHandler :: "State \<Rightarrow> DummyState \<Rightarrow> unit res \<times> DummyState" where
  "StateChangeHandler s a = (Ok (), a\<lparr>ds_babbleState := s\<rparr>)"

definition GetCommittedTransactions :: "DummyState \<Rightarrow> byte list list" where
  "GetCommittedTransactions a = ds_committedTxs a"

definition DummyCommitCallback :: app where
  "DummyCommitCallback block =
     Ok \<lparr>cr_StateHash = [], cr_InternalTransactionReceipts = map AsAccepted (bb_InternalTransactions (bl_Body block))\<rparr>"

section \<open>The in-memory proxy\<close>

record 's ProxyHandler =
  ph_CommitHandler :: "Block \<Rightarrow> 's \<Rightarrow> CommitResponse res \<times> 's"
  ph_SnapshotHandler :: "int \<Rightarrow> 's \<Rightarrow> byte list res"
  ph_RestoreHandler :: "byte list \<Rightarrow> 's \<Rightarrow> byte list res \<times> 's"
  ph_StateChangeHandler :: "State \<Rightarrow> 's \<Rightarrow> unit res \<times> 's"

definition dummy_handler :: "crypto \<Rightarrow> DummyState ProxyHandler" where
  "dummy_handler P =
     \<lparr>ph_CommitHandler = CommitHandler P, ph_SnapshotHandler = SnapshotHandler,
      ph_RestoreHandler = RestoreHandler, ph_StateChangeHandler = StateChangeHandler\<rparr>"

definition proxy_CommitBlock :: "'s ProxyHandler \<Rightarrow> Block \<Rightarrow> 's \<Rightarrow> CommitResponse res \<times> 's" where
  "proxy_CommitBlock p block s = ph_CommitHandler p block s"

definition proxy_GetSnapshot :: "'s ProxyHandler \<Rightarrow> int \<Rightarrow> 's \<Rightarrow> byte list res" where
  "proxy_GetSnapshot p blockIndex s = ph_SnapshotHandler p blockIndex s"

definition proxy_Restore :: "'s ProxyHandler \<Rightarrow> byte list \<Rightarrow> 's \<Rightarrow> unit res \<times> 's" where
  "proxy_Restore p snapshot s =
     (case ph_RestoreHandler p snapshot s of (r, s') \<Rightarrow> (bindO r (\<lambda>_. Ok ()), s'))"

definition proxy_OnStateChanged :: "'s ProxyHandler \<Rightarrow> State \<Rightarrow> 's \<Rightarrow> unit res \<times> 's" where
  "proxy_OnStateChanged p st s = ph_StateChangeHandler p st s"

section \<open>The interface of an application\<close>

locale proxy_handler =
  fixes commitH :: "Block \<Rightarrow> 's \<Rightarrow> CommitResponse res \<times> 's"
    and snapshotH :: "int \<Rightarrow> 's \<Rightarrow> byte list res"
    and restoreH :: "byte list \<Rightarrow> 's \<Rightarrow> byte list res \<times> 's"
  assumes snapshot_own: "commitH b s = (Ok r, s') \<Longrightarrow>
      \<exists>snap. snapshotH (bl_Index b) s' = Ok snap \<and> fst (restoreH snap t) = Ok (cr_StateHash r)"
    and snapshot_other: "bl_Index b \<noteq> i \<Longrightarrow> snapshotH i (snd (commitH b s)) = snapshotH i s"
begin

lemma snapshot_kept:
  "(\<And>b. b \<in> set bs \<Longrightarrow> bl_Index b \<noteq> i) \<Longrightarrow> snapshotH i (fold (\<lambda>b s. snd (commitH b s)) bs s) = snapshotH i s"
  by (induction bs arbitrary: s) (simp_all add: snapshot_other)

lemma restored_hash:
  assumes "commitH b s = (Ok r, s')" and "\<And>c. c \<in> set bs \<Longrightarrow> bl_Index c \<noteq> bl_Index b"
  shows "\<exists>snap. snapshotH (bl_Index b) (fold (\<lambda>b s. snd (commitH b s)) bs s') = Ok snap \<and>
    fst (restoreH snap t) = Ok (cr_StateHash r)"
  using snapshot_own [OF assms(1)] snapshot_kept [OF assms(2)] by simp

end

interpretation dummy: proxy_handler "CommitHandler P" SnapshotHandler RestoreHandler for P
  by unfold_locales (auto simp: CommitHandler_def SnapshotHandler_def RestoreHandler_def Let_def)

text \<open>A node that restores the demonstration application from the snapshot of a block gets the state hash that
  was signed with the block, whatever blocks with other indexes were committed since.\<close>

lemma dummy_restores_block_state:
  assumes "CommitHandler P b a = (Ok r, a')" and "\<forall>c \<in> set bs. bl_Index c \<noteq> bl_Index b"
  shows "\<exists>snap. SnapshotHandler (bl_Index b) (fold (\<lambda>b a. snd (CommitHandler P b a)) bs a') = Ok snap \<and>
    fst (RestoreHandler snap t) = Ok (cr_StateHash r)"
  using dummy.restored_hash [OF assms(1)] assms(2) by blast

end
