(* ===== verification/Engine.thy ===== *)
theory Engine
  imports Application
begin

text \<open>
  \<open>src/src/babble/babble.go\<close>: from a configuration to an initialised node, with the reading of peer-set files
  from \<open>src/src/peers/json_peer_set.go\<close>.

  The operating system is a parameter, \<open>os_ops\<close>, over a state of the file system: reading a file, renaming a
  directory, opening a database, creating a transport. Decoding JSON text into a list of peers, joining paths,
  the name of a backup, which contains the time, and the reading of a key file are arguments. A cache size is
  not negative. A nil key or peer-set is \<open>None\<close>; dereferencing it panics.
\<close>

section \<open>Peer-set files\<close>

definition cleansePeer :: "Peer \<Rightarrow> Peer" where
  "cleansePeer p =
     (let up = ToUpper (p_PubKeyHex p)
      in p\<lparr>p_PubKeyHex := ''0X'' @ (if take 2 up = ''0X'' then drop 2 up else up)\<rparr>)"

definition cleansePeerSet :: "Peer list \<Rightarrow> Peer list" where
  "cleansePeerSet peers = map cleansePeer peers"

definition JSONPeerSet_path :: "(string \<Rightarrow> string \<Rightarrow> string) \<Rightarrow> string \<Rightarrow> bool \<Rightarrow> string" where
  "JSONPeerSet_path pathJoin base isCurrent =
     (if isCurrent then pathJoin base ''peers.json'' else pathJoin base ''peers.genesis.json'')"

definition JSONPeerSet_PeerSet :: "(byte list \<Rightarrow> Peer list res) \<Rightarrow> byte list res \<Rightarrow> PeerSet option res" where
  "JSONPeerSet_PeerSet decode file =
     bindO file (\<lambda>buf.
     if buf = [] then Ok None
     else bindO (decode buf) (\<lambda>peers. Ok (Some (NewPeerSet (cleansePeerSet peers)))))"

section \<open>The engine\<close>

datatype rename_result = Renamed | NotExist | RenameFailed go_error

record ('fs, 'db) os_ops =
  os_ReadFile :: "string \<Rightarrow> 'fs \<Rightarrow> byte list res"
  os_Rename :: "string \<Rightarrow> string \<Rightarrow> 'fs \<Rightarrow> rename_result \<times> 'fs"
  os_Open :: "string \<Rightarrow> 'fs \<Rightarrow> 'db res \<times> 'fs"
  os_NewTransport :: "Config \<Rightarrow> unit res"
  os_ReadKey :: "string \<Rightarrow> 'fs \<Rightarrow> byte list res"
  os_Join :: "string \<Rightarrow> string \<Rightarrow> string"
  os_DecodePeers :: "byte list \<Rightarrow> Peer list res"
  os_DefaultDatabaseDir :: string
  os_BackupName :: "string \<Rightarrow> string"

record ('fs, 'db) Babble =
  b_Config :: Config
  b_Key :: "byte list option"
  b_Peers :: "PeerSet option"
  b_GenesisPeers :: "PeerSet option"
  b_Store :: "(InmemStore \<times> 'db option) option"
  b_Transport :: bool
  b_Node :: "node option"
  b_Service :: bool
  b_fs :: 'fs

definition NewBabble :: "Config \<Rightarrow> byte list option \<Rightarrow> 'fs \<Rightarrow> ('fs, 'db) Babble" where
  "NewBabble c key fs =
     \<lparr>b_Config = c, b_Key = key, b_Peers = None, b_GenesisPeers = None, b_Store = None, b_Transport = False,
      b_Node = None, b_Service = False, b_fs = fs\<rparr>"

definition babble_validateConfig :: "('fs, 'db) os_ops \<Rightarrow> (('fs, 'db) Babble, unit) go" where
  "babble_validateConfig os =
     modifyG (\<lambda>b. b\<lparr>b_Config := validateConfig (os_Join os) (os_DefaultDatabaseDir os) (b_Config b)\<rparr>)"

text \<open>An error of reading the key is only logged; \<open>ReadKey\<close> returns nil with it.\<close>

definition initKey :: "('fs, 'db) os_ops \<Rightarrow> (('fs, 'db) Babble, unit) go" where
  "initKey os =
     modifyG (\<lambda>b. case b_Key b of
         Some _ \<Rightarrow> b
       | None \<Rightarrow> (case os_ReadKey os (Keyfile (os_Join os) (b_Config b)) (b_fs b) of
             Ok key \<Rightarrow> b\<lparr>b_Key := Some key\<rparr>
           | _ \<Rightarrow> b\<lparr>b_Key := None\<rparr>))"

definition read_peers :: "('fs, 'db) os_ops \<Rightarrow> bool \<Rightarrow> (('fs, 'db) Babble, PeerSet option) go" where
  "read_peers os isCurrent =
     bindG (getsG (\<lambda>b. os_ReadFile os (JSONPeerSet_path (os_Join os) (cf_DataDir (b_Config b)) isCurrent) (b_fs b)))
       (\<lambda>file. liftO (JSONPeerSet_PeerSet (os_DecodePeers os) file))"

definition initPeers :: "('fs, 'db) os_ops \<Rightarrow> (('fs, 'db) Babble, unit) go" where
  "initPeers os =
     bindG (read_peers os True) (\<lambda>participants.
     bindG (modifyG (\<lambda>b. b\<lparr>b_Peers := participants\<rparr>)) (\<lambda>_.
     tryG (read_peers os False) (\<lambda>r. case r of
         Inl _ \<Rightarrow> modifyG (\<lambda>b. b\<lparr>b_GenesisPeers := participants\<rparr>)
       | Inr genesis \<Rightarrow> modifyG (\<lambda>b. b\<lparr>b_GenesisPeers := genesis\<rparr>))))"

definition backup_database :: "('fs, 'db) os_ops \<Rightarrow> string \<Rightarrow> (('fs, 'db) Babble, unit) go" where
  "backup_database os dbPath b =
     (case os_Rename os dbPath (os_BackupName os dbPath) (b_fs b) of
        (RenameFailed e, fs) \<Rightarrow> (Err e, b\<lparr>b_fs := fs\<rparr>)
      | (_, fs) \<Rightarrow> (Ok (), b\<lparr>b_fs := fs\<rparr>))"

definition open_database :: "('fs, 'db) os_ops \<Rightarrow> string \<Rightarrow> (('fs, 'db) Babble, unit) go" where
  "open_database os dbPath b =
     (case os_Open os dbPath (b_fs b) of (handle, fs) \<Rightarrow>
        bindG (liftO (NewBadgerStore (nat (cf_CacheSize (b_Config b))) handle (cf_MaintenanceMode (b_Config b))))
          (\<lambda>s. modifyG (\<lambda>b. b\<lparr>b_Store := Some (bg_inmem s, Some (bg_db s))\<rparr>)) (b\<lparr>b_fs := fs\<rparr>))"

definition initStore :: "('fs, 'db) os_ops \<Rightarrow> (('fs, 'db) Babble, unit) go" where
  "initStore os =
     bindG (getsG b_Config) (\<lambda>c.
     if \<not> cf_Store c then modifyG (\<lambda>b. b\<lparr>b_Store := Some (NewInmemStore (nat (cf_CacheSize c)), None)\<rparr>)
     else
       bindG (if \<not> cf_Bootstrap c then backup_database os (cf_DatabaseDir c) else okG ()) (\<lambda>_.
       open_database os (cf_DatabaseDir c)))"

text \<open>The identity for the signalling server is the public key, so a nil key panics there.\<close>

definition initTransport :: "('fs, 'db) os_ops \<Rightarrow> (('fs, 'db) Babble, unit) go" where
  "initTransport os =
     bindG (getsG b_Config) (\<lambda>c.
     bindG (getsG b_Key) (\<lambda>key.
     if cf_MaintenanceMode c then okG ()
     else if cf_WebRTC c \<and> key = None then liftO Panic
     else bindG (liftO (os_NewTransport os c)) (\<lambda>_. modifyG (\<lambda>b. b\<lparr>b_Transport := True\<rparr>))))"

definition initValidator :: "byte list \<Rightarrow> string \<Rightarrow> PeerSet \<Rightarrow> Validator" where
  "initValidator key moniker peers =
     (let v = \<lparr>v_Key = key, v_Moniker = moniker\<rparr>
      in case map_of (ps_ByID peers) (v_ID v) of
           Some p \<Rightarrow> if p_Moniker p \<noteq> v_Moniker v then v\<lparr>v_Moniker := p_Moniker p\<rparr> else v
         | None \<Rightarrow> v)"

definition initNode ::
  "'db badger_ops \<Rightarrow> crypto \<Rightarrow> AppProxy \<Rightarrow> nat \<Rightarrow> (('fs, 'db) Babble, unit) go" where
  "initNode D P px fuel b =
     (case (b_Key b, b_Peers b, b_GenesisPeers b, b_Store b) of
        (Some key, Some peers, Some genesisPeers, Some (store, db)) \<Rightarrow>
          (let n = NewNode (b_Config b) (initValidator key (cf_Moniker (b_Config b)) peers) peers genesisPeers store
           in case node_Init D db P px fuel n of (r, n') \<Rightarrow> (r, b\<lparr>b_Node := Some n'\<rparr>))
      | _ \<Rightarrow> (Panic, b))"

definition initService :: "(('fs, 'db) Babble, unit) go" where
  "initService = modifyG (\<lambda>b. if \<not> cf_NoService (b_Config b) then b\<lparr>b_Service := True\<rparr> else b)"

definition babble_Init ::
  "('fs, 'db) os_ops \<Rightarrow> 'db badger_ops \<Rightarrow> crypto \<Rightarrow> AppProxy \<Rightarrow> nat \<Rightarrow> (('fs, 'db) Babble, unit) go" where
  "babble_Init os D P px fuel =
     bindG (babble_validateConfig os) (\<lambda>_.
     bindG (initKey os) (\<lambda>_.
     bindG (initPeers os) (\<lambda>_.
     bindG (initStore os) (\<lambda>_.
     bindG (initTransport os) (\<lambda>_.
     bindG (initNode D P px fuel) (\<lambda>_.
     initService))))))"


section \<open>What an initialised engine has\<close>

definition has_parts :: "Config \<Rightarrow> ('fs, 'db) Babble \<Rightarrow> bool" where
  "has_parts c b \<longleftrightarrow>
     b_Config b = c \<and> b_Key b \<noteq> None \<and> b_Peers b \<noteq> None \<and> b_GenesisPeers b \<noteq> None \<and> b_Node b \<noteq> None \<and>
     (\<exists>st db. b_Store b = Some (st, db) \<and> (db \<noteq> None \<longleftrightarrow> cf_Store c)) \<and>
     b_Transport b = (\<not> cf_MaintenanceMode c) \<and> b_Service b = (\<not> cf_NoService c)"

text \<open>What each step leaves behind when it returns without an error.\<close>

lemma initKey_parts:
  "initKey os b = (r, b') \<Longrightarrow> b' = b\<lparr>b_Key := b_Key b'\<rparr> \<and>
     (b_Key b' \<noteq> None \<longrightarrow> b_Key b \<noteq> None \<or> is_Ok (os_ReadKey os (Keyfile (os_Join os) (b_Config b)) (b_fs b)))"
  by (cases b) (auto simp: initKey_def modifyG_def split: option.splits outcome.splits)

lemma read_peers_run:
  "read_peers os cur b =
     (JSONPeerSet_PeerSet (os_DecodePeers os)
        (os_ReadFile os (JSONPeerSet_path (os_Join os) (cf_DataDir (b_Config b)) cur) (b_fs b)), b)"
  by (simp add: read_peers_def bindG_def getsG_def liftO_def)

lemma initPeers_parts:
  assumes "initPeers os b = (Ok u, b')"
  shows "b' = b\<lparr>b_Peers := b_Peers b', b_GenesisPeers := b_GenesisPeers b'\<rparr>"
  using assms
  by (cases "JSONPeerSet_PeerSet (os_DecodePeers os)
        (os_ReadFile os (JSONPeerSet_path (os_Join os) (cf_DataDir (b_Config b)) False) (b_fs b))")
    (auto simp: initPeers_def bindG_eq_Ok modifyG_def tryG_def read_peers_run)

lemma backup_database_parts: "backup_database os path b = (Ok u, b') \<Longrightarrow> \<exists>fs. b' = b\<lparr>b_fs := fs\<rparr>"
  by (auto simp: backup_database_def split: prod.splits rename_result.splits)

lemma open_database_parts:
  "open_database os path b = (Ok u, b') \<Longrightarrow> \<exists>fs st db. b' = b\<lparr>b_fs := fs, b_Store := Some (st, Some db)\<rparr>"
  by (auto simp: open_database_def NewBadgerStore_def bindG_eq_Ok bindO_eq_Ok modifyG_def liftO_def split: prod.splits)

lemma initStore_parts:
  assumes "initStore os b = (Ok u, b')"
  shows "b' = b\<lparr>b_Store := b_Store b', b_fs := b_fs b'\<rparr> \<and>
    (\<exists>st db. b_Store b' = Some (st, db) \<and> (db \<noteq> None \<longleftrightarrow> cf_Store (b_Config b)))"
  using assms
  by (auto simp: initStore_def bindG_eq_Ok getsG_def modifyG_def okG_def
      dest!: backup_database_parts open_database_parts split: if_splits)

lemma initTransport_parts:
  assumes "initTransport os b = (Ok u, b')" and "\<not> b_Transport b"
  shows "b' = b\<lparr>b_Transport := \<not> cf_MaintenanceMode (b_Config b)\<rparr>"
  using assms
  by (cases b) (auto simp: initTransport_def bindG_eq_Ok getsG_def modifyG_def liftO_def okG_def split: if_splits)

lemma initNode_parts:
  assumes "initNode D P px fuel b = (Ok u, b')"
  shows "\<exists>n. b' = b\<lparr>b_Node := Some n\<rparr> \<and> b_Key b \<noteq> None \<and> b_Peers b \<noteq> None \<and> b_GenesisPeers b \<noteq> None"
  using assms by (auto simp: initNode_def Let_def split: option.splits prod.splits)

text \<open>C39: The engine initialises only if a private key is configured or readable. It then has the validated
  configuration, a current and a genesis peer-set, a database exactly when the configuration asks for a persistent
  store, a transport except in maintenance mode, and a service unless it is switched off. The code logs an
  unreadable key and goes on, so that the missing key shows up as a failure of a later step.\<close>

theorem init_needs_key:
  assumes "babble_Init os D P px fuel (NewBabble c key fs) = (Ok (), b)"
  shows "let c' = validateConfig (os_Join os) (os_DefaultDatabaseDir os) c in
    (key \<noteq> None \<or> is_Ok (os_ReadKey os (Keyfile (os_Join os) c') fs)) \<and> has_parts c' b"
proof -
  define c' where "c' = validateConfig (os_Join os) (os_DefaultDatabaseDir os) c"
  have valid: "babble_validateConfig os (NewBabble c key fs) = (Ok (), NewBabble c' key fs)"
    by (simp add: babble_validateConfig_def modifyG_def NewBabble_def c'_def)
  obtain b1 b2 b3 b4 b5 where run: "initKey os (NewBabble c' key fs) = (Ok (), b1)"
      "initPeers os b1 = (Ok (), b2)" "initStore os b2 = (Ok (), b3)" "initTransport os b3 = (Ok (), b4)"
      "initNode D P px fuel b4 = (Ok (), b5)" "initService b5 = (Ok (), b)"
    using assms unfolding babble_Init_def by (auto simp: bindG_eq_Ok valid)
  note parts = initKey_parts [OF run(1)] initPeers_parts [OF run(2)] initStore_parts [OF run(3)]
  have key1: "b1 = (NewBabble c' key fs)\<lparr>b_Key := b_Key b1\<rparr>" using parts(1) by blast
  have conf: "b_Config b1 = c'" "\<not> b_Transport b1" "\<not> b_Service b1"
    by (subst key1, simp add: NewBabble_def)+
  have peers2: "b_Config b2 = c'" "\<not> b_Transport b2" "\<not> b_Service b2" "b_Key b2 = b_Key b1"
    using conf by (subst parts(2), simp)+
  have store3: "b3 = b2\<lparr>b_Store := b_Store b3, b_fs := b_fs b3\<rparr>" using parts(3) by blast
  have at3: "b_Config b3 = c'" "\<not> b_Transport b3" "\<not> b_Service b3" "b_Key b3 = b_Key b1"
    using peers2 by (subst store3, simp)+
  note trans4 = initTransport_parts [OF run(4) at3(2)]
  obtain n where node5: "b5 = b4\<lparr>b_Node := Some n\<rparr>" "b_Key b4 \<noteq> None" "b_Peers b4 \<noteq> None" "b_GenesisPeers b4 \<noteq> None"
    using initNode_parts [OF run(5)] by blast
  have last: "b = (if \<not> cf_NoService (b_Config b5) then b5\<lparr>b_Service := True\<rparr> else b5)"
    using run(6) by (simp add: initService_def modifyG_def)
  have "b_Key b1 \<noteq> None" using node5(2) at3(4) trans4 by simp
  then have "key \<noteq> None \<or> is_Ok (os_ReadKey os (Keyfile (os_Join os) c') fs)"
    using parts(1) by (simp add: NewBabble_def)
  moreover have "has_parts c' b"
    using parts(3) node5 at3 peers2(1) unfolding has_parts_def last by (simp add: trans4)
  ultimately show ?thesis by (simp add: c'_def [symmetric])
qed

text \<open>A machine with a peers file, a key file and no genesis file.\<close>

definition sample_os :: "(unit, (string \<times> db_value) list) os_ops" where
  "sample_os =
     \<lparr>os_ReadFile = (\<lambda>path _. if path = ''data/peers.json'' then Ok [1] else Err (Errorf ''no such file'')),
      os_Rename = (\<lambda>_ _ fs. (NotExist, fs)), os_Open = (\<lambda>_ fs. (Ok [], fs)), os_NewTransport = (\<lambda>_. Ok ()),
      os_ReadKey = (\<lambda>_ _. Ok [1, 2, 3]), os_Join = (\<lambda>a b. a @ ''/'' @ b),
      os_DecodePeers = (\<lambda>_. Ok [NewPeer ''0x010203'' ''addr'' ''monika'']),
      os_DefaultDatabaseDir = ''data/badger_db'', os_BackupName = (\<lambda>p. p @ ''--UTC'')\<rparr>"

definition engine_proxy :: AppProxy where
  "engine_proxy =
     \<lparr>px_CommitBlock = DummyCommitCallback, px_GetSnapshot = (\<lambda>_. Ok []), px_Restore = (\<lambda>_. Ok ())\<rparr>"

definition engine_conf :: Config where
  "engine_conf = (NewDefaultConfig ''data'' ''data/badger_db'')\<lparr>cf_CacheSize := 10\<rparr>"

definition sample_start :: "unit res \<times> (unit, (string \<times> db_value) list) Babble" where
  "sample_start = babble_Init sample_os list_db sample_crypto engine_proxy 5
     (NewBabble engine_conf None ())"

lemma sample_start_ok: "fst sample_start = Ok ()"
  by code_simp

theorem init_needs_key_witness:
  "is_Ok (os_ReadKey sample_os ''data/priv_key'' ()) \<and>
   has_parts engine_conf (snd sample_start)"
proof -
  have "babble_Init sample_os list_db sample_crypto engine_proxy 5
      (NewBabble engine_conf None ()) = (Ok (), snd sample_start)"
    using sample_start_ok by (simp add: sample_start_def prod_eq_iff)
  from init_needs_key [OF this] show ?thesis
    by (simp add: validateConfig_def SetDataDir_def NewDefaultConfig_def Keyfile_def sample_os_def engine_conf_def Millisecond_def Let_def)
qed

end
