(* ===== verification/Service.thy ===== *)
theory Service
  imports Node Reads
begin

text \<open>
  \<open>src/src/service/service.go\<close>: the HTTP service of a node, with \<open>GetInfos\<close> of \<open>src/src/node/graph.go\<close>.

  A handler gets the path and the query of a request and a response under construction: status, header and
  body. A body that is encoded as JSON is the value that is encoded. The server, which routes requests to the
  handlers by their path, is the one of \<open>net/http\<close>; \<open>registerHandlers\<close> is the table it is given. Texts are
  ASCII.
\<close>

section \<open>Numbers in requests\<close>

text \<open>\<open>strconv.Atoi\<close>: an optional sign and decimal digits, within 64 bits.\<close>

definition dec_step :: "int option \<Rightarrow> char \<Rightarrow> int option" where
  "dec_step acc c =
     (let k = of_char c :: nat in
      case acc of Some i \<Rightarrow> if 48 \<le> k \<and> k \<le> 57 then Some (10 * i + int (k - 48)) else None | None \<Rightarrow> None)"

definition parse_dec :: "string \<Rightarrow> int option" where
  "parse_dec s = (if s = [] then None else foldl dec_step (Some 0) s)"

definition parse_signed :: "string \<Rightarrow> int option" where
  "parse_signed s =
     (case s of
        [] \<Rightarrow> None
      | c # t \<Rightarrow>
          if c = CHR ''-'' then map_option uminus (parse_dec t)
          else if c = CHR ''+'' then parse_dec t
          else parse_dec s)"

text \<open>\<open>strconv.Quote\<close>.\<close>

definition quote_char :: "char \<Rightarrow> string" where
  "quote_char c =
     (let k = of_char c :: nat; bs = CHR 0x5C in
      if k = 34 \<or> k = 92 then [bs, c]
      else if k = 7 then [bs, CHR ''a''] else if k = 8 then [bs, CHR ''b''] else if k = 12 then [bs, CHR ''f'']
      else if k = 10 then [bs, CHR ''n''] else if k = 13 then [bs, CHR ''r''] else if k = 9 then [bs, CHR ''t'']
      else if k = 11 then [bs, CHR ''v'']
      else if k < 32 \<or> k = 127
      then [bs, CHR ''x'', digit_char (k div 16), digit_char (k mod 16)]
      else [c])"

definition Quote :: "string \<Rightarrow> string" where
  "Quote s = CHR 0x22 # concat (map quote_char s) @ [CHR 0x22]"

definition Atoi :: "string \<Rightarrow> int res" where
  "Atoi s =
     (case parse_signed s of
        None \<Rightarrow> Err (Errorf (''strconv.Atoi: parsing '' @ Quote s @ '': invalid syntax''))
      | Some i \<Rightarrow>
          if - (2 ^ 63) \<le> i \<and> i < 2 ^ 63 then Ok i
          else Err (Errorf (''strconv.Atoi: parsing '' @ Quote s @ '': value out of range'')))"

section \<open>The graph view\<close>

record Infos =
  inf_ParticipantEvents :: "(string \<times> (string \<times> Event) list) list"
  inf_Rounds :: "RoundInfo list"
  inf_Blocks :: "Block list"

definition GetInfos :: "crypto \<Rightarrow> ('e, Infos) nm" where
  "GetInfos P =
     bindG (GetParticipantEvents P) (\<lambda>participantEvents.
     bindG graph_GetRounds (\<lambda>rounds.
     bindG graph_GetBlocks (\<lambda>blocks.
     okG \<lparr>inf_ParticipantEvents = participantEvents, inf_Rounds = rounds, inf_Blocks = blocks\<rparr>)))"

section \<open>Requests and responses\<close>

record http_request =
  rq_Path :: string
  rq_Query :: "(string \<times> string) list"

datatype http_body =
    B_Empty
  | B_Text string
  | B_Stats "(string \<times> string) list"
  | B_Block Block
  | B_Blocks "Block list"
  | B_Graph Infos
  | B_Peers "Peer list"
  | B_History "(int \<times> Peer list) list"

record http_response =
  hr_Status :: nat
  hr_Header :: "(string \<times> string) list"
  hr_Body :: http_body

type_synonym 'e handler = "http_request \<Rightarrow> http_response \<Rightarrow> ('e, http_response) nm"

definition StatusInternalServerError :: nat where
  "StatusInternalServerError = 500"

text \<open>\<open>w.Header().Set\<close>, \<open>http.Error\<close>, and a body after the JSON content type.\<close>

definition set_header :: "string \<Rightarrow> string \<Rightarrow> http_response \<Rightarrow> http_response" where
  "set_header k v w = w\<lparr>hr_Header := AList.update k v (hr_Header w)\<rparr>"

definition http_Error :: "http_response \<Rightarrow> string \<Rightarrow> nat \<Rightarrow> http_response" where
  "http_Error w msg code =
     (set_header ''X-Content-Type-Options'' ''nosniff'' (set_header ''Content-Type'' ''text/plain; charset=utf-8'' w))
       \<lparr>hr_Status := code, hr_Body := B_Text (msg @ [CHR 0x0A])\<rparr>"

definition encode_json :: "http_response \<Rightarrow> http_body \<Rightarrow> http_response" where
  "encode_json w b = (set_header ''Content-Type'' ''application/json'' w)\<lparr>hr_Body := b\<rparr>"

text \<open>\<open>if err != nil { http.Error(...); return }\<close>\<close>

definition or_error :: "http_response \<Rightarrow> ('e, 'a) nm \<Rightarrow> ('a \<Rightarrow> ('e, http_response) nm) \<Rightarrow> ('e, http_response) nm" where
  "or_error w m k =
     tryG m (\<lambda>r. case r of
       Inl err \<Rightarrow> okG (http_Error w (error_text err) StatusInternalServerError)
     | Inr a \<Rightarrow> k a)"

text \<open>\<open>r.URL.Path[len(prefix):]\<close> and \<open>r.URL.Query().Get(key)\<close>.\<close>

definition path_after :: "string \<Rightarrow> string \<Rightarrow> string res" where
  "path_after prefix path = (if length path < length prefix then Panic else Ok (drop (length prefix) path))"

definition query_Get :: "(string \<times> string) list \<Rightarrow> string \<Rightarrow> string" where
  "query_Get q k = (case map_of q k of None \<Rightarrow> '''' | Some v \<Rightarrow> v)"

section \<open>Handlers\<close>

definition MAXBLOCKS :: int where
  "MAXBLOCKS = 50"

definition svc_GetStats :: "'e handler" where
  "svc_GetStats r w = bindG (getsG GetStats) (\<lambda>stats. okG (encode_json w (B_Stats stats)))"

definition svc_GetBlock :: "'e handler" where
  "svc_GetBlock r w =
     bindG (liftO (path_after ''/block/'' (rq_Path r))) (\<lambda>param.
     or_error w (liftO (Atoi param)) (\<lambda>blockIndex.
     or_error w (node_GetBlock blockIndex) (\<lambda>block.
     okG (encode_json w (B_Block block)))))"

text \<open>The number of blocks to return, from the text of the parameter.\<close>

definition block_count :: "int \<Rightarrow> int \<Rightarrow> string \<Rightarrow> int res" where
  "block_count requestStart lastBlockIndex qc =
     (if qc = '''' then Ok 1
      else
        bindO (Atoi qc) (\<lambda>n.
        let n = (if n > MAXBLOCKS then MAXBLOCKS else n) in
        Ok (if wrap64 (wrap64 (requestStart + n) - 1) > lastBlockIndex
            then wrap64 (wrap64 (lastBlockIndex - requestStart) + 1) else n)))"

definition fetch_block :: "int \<Rightarrow> int \<Rightarrow> Block list \<Rightarrow> ('e, Block list) nm" where
  "fetch_block requestStart c blocks =
     bindG (node_GetBlock (wrap64 (requestStart + c))) (\<lambda>block. okG (blocks @ [block]))"

definition fetch_blocks :: "int \<Rightarrow> int \<Rightarrow> ('e, Block list) nm" where
  "fetch_blocks requestStart n = foldG (fetch_block requestStart) [0..n - 1] []"

definition svc_GetBlocks :: "'e handler" where
  "svc_GetBlocks r w =
     bindG (liftO (path_after ''/blocks/'' (rq_Path r))) (\<lambda>qs.
     or_error w (liftO (Atoi qs)) (\<lambda>requestStart.
     bindG (getsG getLastBlockIndex) (\<lambda>lastBlockIndex.
     if requestStart > lastBlockIndex
     then okG (http_Error w ''Requested starting index larger than last block index'' StatusInternalServerError)
     else
       or_error w (liftO (block_count requestStart lastBlockIndex (query_Get (rq_Query r) ''count''))) (\<lambda>n.
       or_error w (fetch_blocks requestStart n) (\<lambda>blocks.
       okG (encode_json w (B_Blocks blocks)))))))"

definition zero_Infos :: Infos where
  "zero_Infos = \<lparr>inf_ParticipantEvents = [], inf_Rounds = [], inf_Blocks = []\<rparr>"

definition svc_GetGraph :: "crypto \<Rightarrow> 'e handler" where
  "svc_GetGraph P r w =
     tryG (GetInfos P) (\<lambda>x. case x of
       Inl _ \<Rightarrow> okG (encode_json w (B_Graph zero_Infos))
     | Inr res \<Rightarrow> okG (encode_json w (B_Graph res)))"

definition returnPeerSet :: "http_response \<Rightarrow> Peer list \<Rightarrow> http_response" where
  "returnPeerSet w peers = encode_json w (B_Peers peers)"

definition svc_GetPeers :: "'e handler" where
  "svc_GetPeers r w = bindG (getsG node_GetPeers) (\<lambda>ps. okG (returnPeerSet w ps))"

definition svc_GetGenesisPeers :: "'e handler" where
  "svc_GetGenesisPeers r w = or_error w (GetValidatorSet 0) (\<lambda>ps. okG (returnPeerSet w ps))"

definition svc_GetValidatorSet :: "'e handler" where
  "svc_GetValidatorSet r w =
     bindG (getsG GetLastConsensusRoundIndex) (\<lambda>round.
     bindG (liftO (path_after ''/validators/'' (rq_Path r))) (\<lambda>param.
     or_error w (if param \<noteq> '''' then liftO (Atoi param) else okG round) (\<lambda>round.
     or_error w (GetValidatorSet round) (\<lambda>validators.
     okG (returnPeerSet w validators)))))"

definition svc_GetAllValidatorSets :: "'e handler" where
  "svc_GetAllValidatorSets r w =
     or_error w GetAllValidatorSets (\<lambda>allPeerSets. okG (encode_json w (B_History allPeerSets)))"

definition makeHandler :: "'e handler \<Rightarrow> http_request \<Rightarrow> ('e, http_response) nm" where
  "makeHandler fn r =
     fn r (set_header ''Access-Control-Allow-Origin'' ''*'' \<lparr>hr_Status = 200, hr_Header = [], hr_Body = B_Empty\<rparr>)"

definition registerHandlers :: "crypto \<Rightarrow> (string \<times> (http_request \<Rightarrow> ('e, http_response) nm)) list" where
  "registerHandlers P =
     [(''/stats'', makeHandler svc_GetStats), (''/block/'', makeHandler svc_GetBlock),
      (''/blocks/'', makeHandler svc_GetBlocks), (''/graph'', makeHandler (svc_GetGraph P)),
      (''/peers'', makeHandler svc_GetPeers), (''/genesispeers'', makeHandler svc_GetGenesisPeers),
      (''/validators/'', makeHandler svc_GetValidatorSet), (''/history'', makeHandler svc_GetAllValidatorSets)]"

section \<open>The service only reads\<close>

lemma keeps_reads_GetRoot [reads_intro]: "keeps reads (onStore (GetRoot p))"
  by (rule keeps_reads_onStore) (simp add: store_reads_def GetRoot_def)

lemma keeps_reads_or_error [reads_intro]:
  "keeps reads m \<Longrightarrow> (\<And>a. keeps reads (k a)) \<Longrightarrow> keeps reads (or_error w m k)"
  unfolding or_error_def by (intro rd.keeps_basic keeps_rules)

lemma keeps_reads_getters [reads_intro]:
  "keeps reads (node_GetBlock i)" "keeps reads (GetValidatorSet i)" "keeps reads GetAllValidatorSets"
  "keeps reads graph_GetRounds" "keeps reads graph_GetBlocks" "keeps reads (GetParticipantEvents P)"
  unfolding node_GetBlock_def GetValidatorSet_def GetAllValidatorSets_def graph_GetRounds_def graph_GetBlocks_def
    GetParticipantEvents_def participant_events_def
  by (intro rd.keeps_basic keeps_rules reads_intro)+

lemma keeps_reads_handlers [reads_intro]:
  "keeps reads (svc_GetStats r w)" "keeps reads (svc_GetBlock r w)" "keeps reads (svc_GetBlocks r w)"
  "keeps reads (svc_GetGraph P r w)" "keeps reads (svc_GetPeers r w)" "keeps reads (svc_GetGenesisPeers r w)"
  "keeps reads (svc_GetValidatorSet r w)" "keeps reads (svc_GetAllValidatorSets r w)"
  unfolding svc_GetStats_def svc_GetBlock_def svc_GetBlocks_def svc_GetGraph_def svc_GetPeers_def
    svc_GetGenesisPeers_def svc_GetValidatorSet_def svc_GetAllValidatorSets_def fetch_blocks_def fetch_block_def GetInfos_def
  by (intro rd.keeps_basic keeps_rules reads_intro)+

text \<open>How a handler finishes: with a value that is encoded, or with an error in text.\<close>

definition answers :: "http_response \<Rightarrow> http_response \<Rightarrow> bool" where
  "answers w w' \<longleftrightarrow>
     map_of (hr_Header w') ''Access-Control-Allow-Origin'' = map_of (hr_Header w) ''Access-Control-Allow-Origin'' \<and>
     (if hr_Status w' = 200 then \<forall>msg. hr_Body w' \<noteq> B_Text msg
      else hr_Status w' = StatusInternalServerError \<and> (\<exists>msg. hr_Body w' = B_Text msg))"

definition good_end :: "http_response \<Rightarrow> http_response res \<Rightarrow> bool" where
  "good_end w res \<longleftrightarrow> (case res of Ok w' \<Rightarrow> answers w w' | Err _ \<Rightarrow> False | _ \<Rightarrow> True)"

lemma good_end_simps [simp]:
  "good_end w (Ok w') = answers w w'" "\<not> good_end w (Err e)" "good_end w Panic" "good_end w Diverge"
  by (simp_all add: good_end_def)

definition finishes :: "http_response \<Rightarrow> ('e, http_response) nm \<Rightarrow> bool" where
  "finishes w m \<longleftrightarrow> (\<forall>n. good_end w (fst (m n)))"

named_theorems finish_intro \<open>handlers that answer\<close>

lemma finishes_error [finish_intro]: "finishes w (okG (http_Error w msg StatusInternalServerError))"
  by (simp add: finishes_def okG_def answers_def http_Error_def set_header_def update_conv' StatusInternalServerError_def)

lemma finishes_json [finish_intro]:
  "hr_Status w = 200 \<Longrightarrow> (\<And>msg. b \<noteq> B_Text msg) \<Longrightarrow> finishes w (okG (encode_json w b))"
  by (simp add: finishes_def okG_def answers_def encode_json_def set_header_def update_conv')

lemma finishes_try [finish_intro]:
  "(\<And>a. finishes w (k a)) \<Longrightarrow> finishes w (tryG m k)"
  by (simp add: finishes_def tryG_def split: prod.splits outcome.splits)

lemma finishes_bind [finish_intro]:
  "(\<And>n e. fst (m n) \<noteq> Err e) \<Longrightarrow> (\<And>a. finishes w (k a)) \<Longrightarrow> finishes w (bindG m k)"
  unfolding finishes_def bindG_def by (simp split: prod.splits outcome.splits) (metis fst_conv)

lemma finishes_cases [finish_intro]:
  "(c \<Longrightarrow> finishes w m) \<Longrightarrow> (\<not> c \<Longrightarrow> finishes w m') \<Longrightarrow> finishes w (if c then m else m')"
  "(\<And>a. finishes w (f a)) \<Longrightarrow> (\<And>b. finishes w (g b)) \<Longrightarrow> finishes w (case x of Inl a \<Rightarrow> f a | Inr b \<Rightarrow> g b)"
  by (simp_all split: sum.split)

lemma finishes_or_error [finish_intro]: "(\<And>a. finishes w (k a)) \<Longrightarrow> finishes w (or_error w m k)"
  unfolding or_error_def by (intro finish_intro)

lemma no_error [simp]: "fst (getsG f n) \<noteq> Err e" "fst (liftO (path_after p q) n) \<noteq> Err e"
  by (simp_all add: getsG_def liftO_def path_after_def)

lemma finishes_handlers:
  assumes "hr_Status w = 200"
  shows "finishes w (svc_GetStats r w)" "finishes w (svc_GetBlock r w)" "finishes w (svc_GetBlocks r w)"
    "finishes w (svc_GetGraph P r w)" "finishes w (svc_GetPeers r w)" "finishes w (svc_GetGenesisPeers r w)"
    "finishes w (svc_GetValidatorSet r w)" "finishes w (svc_GetAllValidatorSets r w)"
  unfolding svc_GetStats_def svc_GetBlock_def svc_GetBlocks_def svc_GetGraph_def svc_GetPeers_def
    svc_GetGenesisPeers_def svc_GetValidatorSet_def svc_GetAllValidatorSets_def returnPeerSet_def
  by (intro finish_intro assms; simp)+

text \<open>C31: The HTTP service does not influence consensus. Whatever the request, a registered handler changes
  nothing but the recency of cache entries and memo tables. It returns no error of its own; an answer has the
  status 200 and an encoded value, or the status 500 and a text, and allows access from every origin.\<close>

theorem service_only_reads:
  assumes "(pattern, handle) \<in> set (registerHandlers P)" and "handle r n = (res, n')"
  shows "reads n n' \<and> (\<forall>e. res \<noteq> Err e) \<and>
    (\<forall>w. res = Ok w \<longrightarrow>
       (hr_Status w = 200 \<and> (\<forall>msg. hr_Body w \<noteq> B_Text msg) \<or> hr_Status w = 500 \<and> (\<exists>msg. hr_Body w = B_Text msg)) \<and>
       map_of (hr_Header w) ''Access-Control-Allow-Origin'' = Some ''*'')"
proof -
  define w0 where "w0 = set_header ''Access-Control-Allow-Origin'' ''*'' \<lparr>hr_Status = 200, hr_Header = [], hr_Body = B_Empty\<rparr>"
  have w0: "hr_Status w0 = 200" "map_of (hr_Header w0) ''Access-Control-Allow-Origin'' = Some ''*''"
    by (simp_all add: w0_def set_header_def)
  have ok: "keeps reads (handle r) \<and> finishes w0 (handle r)"
    using assms(1) unfolding registerHandlers_def makeHandler_def w0_def [symmetric]
    by (auto intro: keeps_reads_handlers finishes_handlers [OF w0(1)])
  have "reads n n'" using keepsD [OF ok [THEN conjunct1] assms(2)] .
  moreover have "good_end w0 res"
    using ok assms(2) unfolding finishes_def by (metis fst_conv)
  ultimately show ?thesis
    using w0(2) by (auto simp: good_end_def answers_def StatusInternalServerError_def split: outcome.splits if_splits)
qed

section \<open>Pages of blocks\<close>

definition block_at :: "'e node_scheme \<Rightarrow> int \<Rightarrow> Block option" where
  "block_at n = lru_lookup (is_blockCache (h_Store n))"

lemma node_GetBlock_run:
  "fst (node_GetBlock i n) =
     (case block_at n i of None \<Rightarrow> Err (NewStoreErr ''BlockCache'' KeyNotFound (itoa i)) | Some b \<Rightarrow> Ok b)"
  "block_at (snd (node_GetBlock i n)) = block_at n"
proof -
  show "fst (node_GetBlock i n) =
      (case block_at n i of None \<Rightarrow> Err (NewStoreErr ''BlockCache'' KeyNotFound (itoa i)) | Some b \<Rightarrow> Ok b)"
    by (simp add: node_GetBlock_def onStore_def GetBlock_def split_beta Let_def block_at_def)
  have "reads n (snd (node_GetBlock i n))" by (rule keepsD [OF keeps_reads_getters(1)]) (rule surjective_pairing)
  then show "block_at (snd (node_GetBlock i n)) = block_at n" by (simp add: block_at_def readsD(2))
qed

lemma fetch_block_run:
  "fst (fetch_block s c acc n) =
     (case block_at n (wrap64 (s + c)) of
        None \<Rightarrow> Err (NewStoreErr ''BlockCache'' KeyNotFound (itoa (wrap64 (s + c)))) | Some b \<Rightarrow> Ok (acc @ [b]))"
  "block_at (snd (fetch_block s c acc n)) = block_at n"
  using node_GetBlock_run [of "wrap64 (s + c)" n]
  by (auto simp: fetch_block_def bindG_def okG_def split: prod.splits outcome.splits option.splits)

lemma fetch_loop:
  "fst (foldG (fetch_block s) cs acc n) = Ok bs \<longleftrightarrow>
     (\<forall>c \<in> set cs. block_at n (wrap64 (s + c)) \<noteq> None) \<and> bs = acc @ map (\<lambda>c. the (block_at n (wrap64 (s + c)))) cs"
proof (induction cs arbitrary: acc n)
  case (Cons c cs)
  obtain r n1 where run: "fetch_block s c acc n = (r, n1)" by fastforce
  have b: "block_at n1 = block_at n" using fetch_block_run(2) [of s c acc n] run by simp
  show ?case
  proof (cases "block_at n (wrap64 (s + c))")
    case None
    then show ?thesis using fetch_block_run(1) [of s c acc n] run by (simp add: bindG_def)
  next
    case (Some x)
    then show ?thesis using fetch_block_run(1) [of s c acc n] run b Cons.IH [of "acc @ [x]" n1] by (simp add: bindG_def)
  qed
qed (auto simp: okG_def)

text \<open>The response to a request with a well-formed path.\<close>

definition blocks_request :: "int \<Rightarrow> string \<Rightarrow> http_request" where
  "blocks_request start qc = \<lparr>rq_Path = ''/blocks/'' @ itoa start, rq_Query = [(''count'', qc)]\<rparr>"

lemma dec_step_digit: "d < 10 \<Longrightarrow> dec_step (Some i) (digit_char d) = Some (10 * i + int d)"
  by (simp add: dec_step_def digit_char_def Let_def)

lemma foldl_dec_show: "foldl dec_step (Some 0) (show_base 10 m) = Some (int m)"
proof (induction m rule: less_induct)
  case (less m)
  show ?case
  proof (cases "m < 10")
    case False
    then have "foldl dec_step (Some 0) (show_base 10 (m div 10)) = Some (int (m div 10))" by (intro less) simp
    then show ?thesis using False
      by (subst show_base.simps) (simp add: dec_step_digit zdiv_int zmod_int)
  qed (subst show_base.simps, simp add: dec_step_digit)
qed

lemma Atoi_itoa: "- (2 ^ 63) \<le> i \<Longrightarrow> i < 2 ^ 63 \<Longrightarrow> Atoi (itoa i) = Ok i"
proof -
  assume range: "- (2 ^ 63) \<le> i" "i < 2 ^ 63"
  have dec: "parse_dec (show_base 10 m) = Some (int m)" for m by (simp add: parse_dec_def foldl_dec_show)
  have "parse_signed (itoa i) = Some i"
  proof (cases "i < 0")
    case False
    obtain c t where ct: "show_base 10 (nat i) = c # t" by (cases "show_base 10 (nat i)") auto
    have "c \<noteq> CHR ''-'' \<and> c \<noteq> CHR ''+''"
      using show_base_chars [of 10 c "nat i"] digit_char_not_special ct by fastforce
    then show ?thesis using False dec [of "nat i"] ct by (simp add: itoa_def parse_signed_def)
  qed (simp add: itoa_def parse_signed_def dec)
  then show ?thesis using range by (simp add: Atoi_def)
qed

lemma block_count_page:
  assumes "0 \<le> start" "start \<le> l" "l < 2 ^ 62" and "Atoi qc = Ok k" "k \<noteq> - (2 ^ 63)" "qc \<noteq> ''''"
  shows "block_count start l qc = Ok (min (min k MAXBLOCKS) (l - start + 1))"
proof -
  define m where "m = min k MAXBLOCKS"
  have "- (2 ^ 63) < k" using assms(4,5) by (auto simp: Atoi_def split: option.splits if_splits)
  then have small: "m \<le> 50" "- (2 ^ 63) < m" by (auto simp: m_def MAXBLOCKS_def)
  have "wrap64 (wrap64 (start + m) - 1) = start + m - 1"
    using assms(1-3) small by (simp add: wrap64_id)
  moreover have "wrap64 (wrap64 (l - start) + 1) = l - start + 1"
    using assms(1-3) by (simp add: wrap64_id)
  moreover have "(if k > MAXBLOCKS then MAXBLOCKS else k) = m" by (auto simp: m_def)
  ultimately show ?thesis using assms(4,6) by (auto simp: block_count_def Let_def m_def [symmetric])
qed

lemma fetch_loop_fails:
  "(\<exists>bs. fst (foldG (fetch_block s) cs acc n) = Ok bs) \<or> (\<exists>e. fst (foldG (fetch_block s) cs acc n) = Err e)"
proof (induction cs arbitrary: acc n)
  case (Cons c cs)
  obtain r n1 where run: "fetch_block s c acc n = (r, n1)" by fastforce
  then show ?case
    using fetch_block_run(1) [of s c acc n] Cons.IH by (auto simp: bindG_def split: option.splits)
qed (simp add: okG_def)

definition page_of :: "'e node_scheme \<Rightarrow> int \<Rightarrow> int \<Rightarrow> Block list option" where
  "page_of n start m =
     (let bs = map (\<lambda>i. block_at n (start + i)) [0..m - 1] in if None \<in> set bs then None else Some (map the bs))"

lemma fetch_blocks_page:
  assumes "0 \<le> start" "start + m < 2 ^ 62"
  shows "case page_of n start m of
      Some bs \<Rightarrow> fst (fetch_blocks start m n) = Ok bs
    | None \<Rightarrow> \<exists>e. fst (fetch_blocks start m n) = Err e"
proof -
  have w: "wrap64 (start + i) = start + i" if "i \<in> set [0..m - 1]" for i
    using that assms by (simp add: wrap64_id)
  have "fst (fetch_blocks start m n) = Ok bs \<longleftrightarrow> page_of n start m = Some bs" for bs
    using fetch_loop [of start "[0..m - 1]" "[]" n bs] w
    by (auto simp: fetch_blocks_def page_of_def Let_def image_iff simp del: set_upto)
  then show ?thesis using fetch_loop_fails [of start "[0..m - 1]" "[]" n]
    by (auto simp: fetch_blocks_def split: option.splits)
qed

lemma svc_GetBlocks_run:
  assumes "0 \<le> start" "start \<le> getLastBlockIndex n" "getLastBlockIndex n < 2 ^ 61"
    and "block_count start (getLastBlockIndex n) qc = Ok m" and "m \<le> getLastBlockIndex n + 1"
  shows "\<exists>w'. fst (svc_GetBlocks (blocks_request start qc) w n) = Ok w' \<and>
    (case page_of n start m of Some bs \<Rightarrow> w' = encode_json w (B_Blocks bs) | None \<Rightarrow> hr_Status w' = 500)"
proof -
  have atoi: "Atoi (itoa start) = Ok start" using assms(1-3) by (intro Atoi_itoa) simp_all
  have fetched: "case page_of n start m of
      Some bs \<Rightarrow> fst (fetch_blocks start m n) = Ok bs
    | None \<Rightarrow> \<exists>e. fst (fetch_blocks start m n) = Err e"
    using assms by (intro fetch_blocks_page) simp_all
  have run: "svc_GetBlocks (blocks_request start qc) w n =
      or_error w (fetch_blocks start m) (\<lambda>blocks. okG (encode_json w (B_Blocks blocks))) n"
    using assms(2,4) atoi
    by (simp add: svc_GetBlocks_def blocks_request_def path_after_def query_Get_def or_error_def bindG_def tryG_def
        liftO_def getsG_def)
  obtain r n1 where "fetch_blocks start m n = (r, n1)" by fastforce
  then show ?thesis unfolding run using fetched
    by (auto simp: or_error_def tryG_def okG_def http_Error_def StatusInternalServerError_def split: option.splits)
qed

text \<open>C32: A page of blocks is what was asked for: the blocks from the start index on, as many as requested but not
  more than \<open>MAXBLOCKS\<close> and not beyond the last block; if one of them is not available the answer is an error. One
  count is excluded, the least 64-bit integer.\<close>

theorem blocks_page:
  assumes "0 \<le> start" "start \<le> getLastBlockIndex n" "getLastBlockIndex n < 2 ^ 61"
    and "Atoi qc = Ok k" "k \<noteq> - (2 ^ 63)" "qc \<noteq> ''''"
  shows "\<exists>w'. fst (svc_GetBlocks (blocks_request start qc) w n) = Ok w' \<and>
    (case page_of n start (min (min k MAXBLOCKS) (getLastBlockIndex n - start + 1)) of
       Some bs \<Rightarrow> w' = encode_json w (B_Blocks bs) \<and> int (length bs) \<le> MAXBLOCKS
     | None \<Rightarrow> hr_Status w' = 500)"
proof -
  let ?m = "min (min k MAXBLOCKS) (getLastBlockIndex n - start + 1)"
  have "block_count start (getLastBlockIndex n) qc = Ok ?m"
    using assms by (intro block_count_page) simp_all
  moreover have "int (length bs) \<le> MAXBLOCKS" if "page_of n start ?m = Some bs" for bs
    using that by (auto simp: page_of_def Let_def MAXBLOCKS_def split: if_splits)
  ultimately show ?thesis
    using svc_GetBlocks_run [of start n qc ?m w, OF assms(1-3)] assms(1) by (cases "page_of n start ?m") auto
qed

text \<open>C33: The limit on the number of blocks can be bypassed. With the start index zero and the least 64-bit
  integer as the count, the test whether the page ends after the last block overflows, and the count is
  replaced by the number of all blocks: when they are cached, all of them are returned.\<close>

theorem blocks_limit_bypassed:
  assumes "MAXBLOCKS \<le> getLastBlockIndex n" "getLastBlockIndex n < 2 ^ 61"
    and "page_of n 0 (getLastBlockIndex n + 1) = Some bs"
  shows "fst (svc_GetBlocks (blocks_request 0 ''-9223372036854775808'') w n) = Ok (encode_json w (B_Blocks bs)) \<and>
    MAXBLOCKS < int (length bs)"
proof -
  have "Atoi ''-9223372036854775808'' = Ok (- (2 ^ 63))" by code_simp
  then have "block_count 0 (getLastBlockIndex n) ''-9223372036854775808'' = Ok (getLastBlockIndex n + 1)"
    using assms(1,2) by (simp add: block_count_def wrap64_def MAXBLOCKS_def)
  moreover have "int (length bs) = getLastBlockIndex n + 1"
    using assms by (auto simp: page_of_def Let_def MAXBLOCKS_def split: if_splits)
  ultimately show ?thesis
    using svc_GetBlocks_run [of 0 n "''-9223372036854775808''" "getLastBlockIndex n + 1" w] assms
    by (auto simp: MAXBLOCKS_def)
qed

text \<open>A node whose cache holds sixty blocks.\<close>

definition sixty_blocks :: node where
  "sixty_blocks =
     (let n = NewNode (NewDefaultConfig ''data'' ''data/badger_db'') \<lparr>v_Key = [1], v_Moniker = ''a''\<rparr>
            (NewPeerSet []) (NewPeerSet []) (NewInmemStore 100);
          s = h_Store n
      in n\<lparr>h_Store := s\<lparr>is_lastBlock := 59,
             is_blockCache := (is_blockCache s)\<lparr>lru_evictList := map (\<lambda>i. (i, zero_Block)) [0..59]\<rparr>\<rparr>\<rparr>)"

lemma map_of_const: "map_of (map (\<lambda>i. (i, v)) xs) k = (if k \<in> set xs then Some v else None)"
  by (induction xs) auto

lemma sixty_blocks_facts:
  "getLastBlockIndex sixty_blocks = 59"
  "0 \<le> i \<Longrightarrow> i \<le> 59 \<Longrightarrow> block_at sixty_blocks i = Some zero_Block"
  by (simp_all add: sixty_blocks_def getLastBlockIndex_def block_at_def lru_lookup_def Let_def map_of_const)

lemma sixty_blocks_page:
  assumes "0 \<le> s" "s + m \<le> 60"
  shows "page_of sixty_blocks s m = Some (replicate (nat m) zero_Block)"
proof -
  have "map (\<lambda>i. block_at sixty_blocks (s + i)) [0..m - 1] = map (\<lambda>_. Some zero_Block) [0..m - 1]"
    using assms by (simp add: sixty_blocks_facts(2))
  then show ?thesis by (simp add: page_of_def map_replicate_const)
qed

theorem blocks_page_witness:
  "\<exists>w. fst (makeHandler svc_GetBlocks (blocks_request 0 ''1000'') sixty_blocks) = Ok w \<and>
     hr_Body w = B_Blocks (replicate 50 zero_Block)"
proof -
  have "Atoi ''1000'' = Ok 1000" by code_simp
  from blocks_page [of 0 sixty_blocks, OF _ _ _ this] show ?thesis
    by (simp add: sixty_blocks_facts(1) sixty_blocks_page makeHandler_def MAXBLOCKS_def encode_json_def)
qed

theorem blocks_limit_bypassed_witness:
  "\<exists>w. fst (makeHandler svc_GetBlocks (blocks_request 0 ''-9223372036854775808'') sixty_blocks) = Ok w \<and>
     hr_Body w = B_Blocks (replicate 60 zero_Block)"
  using blocks_limit_bypassed [of sixty_blocks "replicate 60 zero_Block"]
  by (simp add: sixty_blocks_facts(1) sixty_blocks_page makeHandler_def MAXBLOCKS_def encode_json_def)

theorem service_only_reads_witness:
  "reads sixty_blocks (snd (makeHandler svc_GetStats \<lparr>rq_Path = ''/stats'', rq_Query = []\<rparr> sixty_blocks))"
proof -
  have "(''/stats'', makeHandler svc_GetStats) \<in> set (registerHandlers sample_crypto)" by (simp add: registerHandlers_def)
  from service_only_reads [OF this surjective_pairing] show ?thesis by blast
qed

end
