(* ===== verification/Socket_Proxy.thy ===== *)
theory Socket_Proxy
  imports Application
begin

text \<open>
  \<open>src/src/proxy/socket\<close>: the application in another process, reached by remote calls over TCP. Both sides of
  both directions are modelled: the node calls the application (\<open>SocketAppProxyClient\<close> and
  \<open>SocketBabbleProxyServer\<close>), the application submits transactions (\<open>SocketBabbleProxyClient\<close> and
  \<open>SocketAppProxyServer\<close>).

  The network is a parameter, \<open>link\<close>: for every attempt, whether dialling succeeds, and what happens to the
  call. The reply arrives in time; or it does not, and the server has executed the method or not; or the
  connection breaks, likewise. \<open>net/rpc\<close> passes the text of an error. A server that panics closes the connection,
  and one that does not return exceeds the timeout.
\<close>

section \<open>Links and clients\<close>

datatype delivery = In_time | Timed_out bool | Broken bool go_error

record link =
  ln_Dial :: "nat \<Rightarrow> unit res"
  ln_Call :: "nat \<Rightarrow> delivery"

text \<open>A client: whether it has a connection, its number of tries, the attempts made so far, and the state of
  the process at the other end.\<close>

record 's rpc_client =
  rc_connected :: bool
  rc_retries :: nat
  rc_attempts :: nat
  rc_remote :: 's

type_synonym ('s, 'a) remote = "'s \<Rightarrow> 'a res \<times> 's"

definition NewSocketAppProxyClient :: "'s \<Rightarrow> 's rpc_client" where
  "NewSocketAppProxyClient s = \<lparr>rc_connected = False, rc_retries = 3, rc_attempts = 0, rc_remote = s\<rparr>"

definition getConnection :: "link \<Rightarrow> ('s rpc_client, unit) go" where
  "getConnection L =
     bindG (getsG rc_connected) (\<lambda>connected.
     if connected then okG ()
     else
       bindG (getsG rc_attempts) (\<lambda>i.
       bindG (liftO (ln_Dial L i)) (\<lambda>_.
       modifyG (\<lambda>c. c\<lparr>rc_connected := True\<rparr>))))"

text \<open>\<open>p.rpc.Go(serviceMethod, args, reply, nil)\<close> and the wait for its end.\<close>

definition remote_result :: "'a res \<Rightarrow> 'a res" where
  "remote_result r =
     (case r of
        Ok a \<Rightarrow> Ok a
      | Err e \<Rightarrow> Err (Errorf (error_text e))
      | Panic \<Rightarrow> Err (Errorf ''unexpected EOF'')
      | Diverge \<Rightarrow> Err (Errorf ''rpc timeout''))"

definition rpc_Go :: "link \<Rightarrow> ('s, 'a) remote \<Rightarrow> ('s rpc_client, 'a) go" where
  "rpc_Go L f c =
     (case f (rc_remote c) of (r, s) \<Rightarrow>
        case ln_Call L (rc_attempts c) of
          In_time \<Rightarrow> (remote_result r, c\<lparr>rc_remote := s\<rparr>)
        | Timed_out executed \<Rightarrow> (Err (Errorf ''rpc timeout''), if executed then c\<lparr>rc_remote := s\<rparr> else c)
        | Broken executed e \<Rightarrow> (Err e, if executed then c\<lparr>rc_remote := s\<rparr> else c))"

definition next_attempt :: "'s rpc_client \<Rightarrow> 's rpc_client" where
  "next_attempt c = c\<lparr>rc_attempts := rc_attempts c + 1\<rparr>"

text \<open>The loop of \<open>call\<close>: \<open>err\<close> is the result of the last attempt; before the first one there is no error, and the
  reply has its zero value.\<close>

primrec call_loop :: "link \<Rightarrow> ('s rpc_client, 'a) go \<Rightarrow> nat \<Rightarrow> 'a res \<Rightarrow> ('s rpc_client, 'a) go" where
  "call_loop L invoke 0 err = liftO err"
| "call_loop L invoke (Suc n) err =
     tryG (getConnection L) (\<lambda>d. case d of
       Inl e \<Rightarrow> bindG (modifyG next_attempt) (\<lambda>_. call_loop L invoke n (Err e))
     | Inr _ \<Rightarrow>
         tryG invoke (\<lambda>r.
         bindG (modifyG next_attempt) (\<lambda>_.
         case r of
           Inl e \<Rightarrow> bindG (modifyG (\<lambda>c. c\<lparr>rc_connected := False\<rparr>)) (\<lambda>_. call_loop L invoke n (Err e))
         | Inr a \<Rightarrow> okG a)))"

definition app_call :: "link \<Rightarrow> ('s, 'a) remote \<Rightarrow> 'a \<Rightarrow> ('s rpc_client, 'a) go" where
  "app_call L f zero = bindG (getsG rc_retries) (\<lambda>retries. call_loop L (rpc_Go L f) retries (Ok zero))"

text \<open>The other direction calls \<open>p.rpc.Call\<close>, which has no timeout: it waits until the reply arrives or the
  connection breaks.\<close>

definition rpc_Call :: "link \<Rightarrow> ('s, 'a) remote \<Rightarrow> ('s rpc_client, 'a) go" where
  "rpc_Call L f c =
     (case f (rc_remote c) of (r, s) \<Rightarrow>
        case ln_Call L (rc_attempts c) of
          In_time \<Rightarrow> (case r of Diverge \<Rightarrow> Diverge | _ \<Rightarrow> remote_result r, c\<lparr>rc_remote := s\<rparr>)
        | Timed_out executed \<Rightarrow> (Diverge, if executed then c\<lparr>rc_remote := s\<rparr> else c)
        | Broken executed e \<Rightarrow> (Err e, if executed then c\<lparr>rc_remote := s\<rparr> else c))"

definition babble_call :: "link \<Rightarrow> ('s, 'a) remote \<Rightarrow> 'a \<Rightarrow> ('s rpc_client, 'a) go" where
  "babble_call L f zero = bindG (getsG rc_retries) (\<lambda>retries. call_loop L (rpc_Call L f) retries (Ok zero))"

section \<open>The node calls the application\<close>

text \<open>The server side, \<open>SocketBabbleProxyServer\<close>, passes the calls to the handler.\<close>

definition srv_CommitBlock :: "'s ProxyHandler \<Rightarrow> Block \<Rightarrow> ('s, CommitResponse) remote" where
  "srv_CommitBlock H block = ph_CommitHandler H block"

definition srv_GetSnapshot :: "'s ProxyHandler \<Rightarrow> int \<Rightarrow> ('s, byte list) remote" where
  "srv_GetSnapshot H blockIndex s = (ph_SnapshotHandler H blockIndex s, s)"

definition srv_Restore :: "'s ProxyHandler \<Rightarrow> byte list \<Rightarrow> ('s, byte list) remote" where
  "srv_Restore H snapshot = ph_RestoreHandler H snapshot"

definition srv_OnStateChanged :: "'s ProxyHandler \<Rightarrow> State \<Rightarrow> ('s, unit) remote" where
  "srv_OnStateChanged H st = ph_StateChangeHandler H st"

definition client_CommitBlock :: "link \<Rightarrow> 's ProxyHandler \<Rightarrow> Block \<Rightarrow> ('s rpc_client, CommitResponse) go" where
  "client_CommitBlock L H block =
     app_call L (srv_CommitBlock H block) \<lparr>cr_StateHash = [], cr_InternalTransactionReceipts = []\<rparr>"

definition client_GetSnapshot :: "link \<Rightarrow> 's ProxyHandler \<Rightarrow> int \<Rightarrow> ('s rpc_client, byte list) go" where
  "client_GetSnapshot L H blockIndex = app_call L (srv_GetSnapshot H blockIndex) []"

definition client_Restore :: "link \<Rightarrow> 's ProxyHandler \<Rightarrow> byte list \<Rightarrow> ('s rpc_client, unit) go" where
  "client_Restore L H snapshot = bindG (app_call L (srv_Restore H snapshot) []) (\<lambda>_. okG ())"

definition client_OnStateChanged :: "link \<Rightarrow> 's ProxyHandler \<Rightarrow> State \<Rightarrow> ('s rpc_client, unit) go" where
  "client_OnStateChanged L H st = app_call L (srv_OnStateChanged H st) ()"

section \<open>The application submits transactions\<close>

text \<open>\<open>SocketAppProxyServer.SubmitTx\<close>: the remote state is the sequence of transactions sent on the channel.\<close>

definition srv_SubmitTx :: "byte list \<Rightarrow> (byte list list, bool) remote" where
  "srv_SubmitTx tx submitCh = (Ok True, submitCh @ [tx])"

definition client_SubmitTx :: "link \<Rightarrow> byte list \<Rightarrow> (byte list list rpc_client, bool) go" where
  "client_SubmitTx L tx = babble_call L (srv_SubmitTx tx) False"

definition SubmitTx :: "link \<Rightarrow> byte list \<Rightarrow> (byte list list rpc_client, unit) go" where
  "SubmitTx L tx =
     bindG (client_SubmitTx L tx) (\<lambda>ack.
     if \<not> ack then errG (Errorf ''Failed to deliver transaction to Babble'') else okG ())"

section \<open>Executions of a remote method\<close>

primrec executed :: "('s, 'a) remote \<Rightarrow> nat \<Rightarrow> 's \<Rightarrow> 's" where
  "executed f 0 s = s"
| "executed f (Suc k) s = executed f k (snd (f s))"

lemma executed_snoc: "snd (f (executed f k s)) = executed f (Suc k) s"
  by (induction k arbitrary: s) simp_all

text \<open>One attempt executes the method at most once, and exactly once when it returns a value.\<close>

definition one_attempt :: "('s, 'a) remote \<Rightarrow> ('s rpc_client, 'a) go \<Rightarrow> bool" where
  "one_attempt f invoke \<longleftrightarrow>
     (\<forall>c r c'. invoke c = (r, c') \<longrightarrow>
        rc_remote c' \<in> {rc_remote c, snd (f (rc_remote c))} \<and>
        (\<forall>a. r = Ok a \<longrightarrow> f (rc_remote c) = (Ok a, rc_remote c')))"

lemma one_attempt_Go: "one_attempt f (rpc_Go L f)"
  by (auto simp: one_attempt_def rpc_Go_def remote_result_def split: prod.splits delivery.splits if_splits outcome.splits)

lemma one_attempt_Call: "one_attempt f (rpc_Call L f)"
  by (auto simp: one_attempt_def rpc_Call_def remote_result_def split: prod.splits delivery.splits if_splits outcome.splits)

lemma getConnection_remote: "getConnection L c = (r, c') \<Longrightarrow> rc_remote c' = rc_remote c"
  by (auto simp: getConnection_def bindG_def getsG_def okG_def liftO_def modifyG_def
      split: prod.splits outcome.splits if_splits)

text \<open>The loop executes the method at most once per try. A value comes from the last execution.\<close>

definition executions :: "('s, 'a) remote \<Rightarrow> nat \<Rightarrow> 'a res \<Rightarrow> 's \<Rightarrow> 'a res \<Rightarrow> 's \<Rightarrow> bool" where
  "executions f n err s r s' \<longleftrightarrow>
     (\<exists>k \<le> n. s' = executed f k s \<and>
        (\<forall>a. r = Ok a \<longrightarrow> (n = 0 \<and> err = Ok a) \<or> (\<exists>j. k = Suc j \<and> fst (f (executed f j s)) = Ok a)))"

lemma executions_more:
  assumes "executions f n (Err e) s1 r s'" and "s1 \<in> {s, snd (f s)}"
  shows "executions f (Suc n) err s r s'"
proof -
  obtain k where k: "k \<le> n" "s' = executed f k s1"
      "\<And>a. r = Ok a \<Longrightarrow> \<exists>j. k = Suc j \<and> fst (f (executed f j s1)) = Ok a"
    using assms(1) unfolding executions_def by auto
  show ?thesis
  proof (cases "s1 = s")
    case True
    then show ?thesis using k unfolding executions_def by (intro exI [of _ k]) auto
  next
    case False
    then have s1: "executed f m s1 = executed f (Suc m) s" for m using assms(2) by simp
    show ?thesis using k unfolding executions_def by (intro exI [of _ "Suc k"]) (auto simp: s1 simp del: executed.simps)
  qed
qed

lemma call_loop_executions:
  assumes "one_attempt f invoke" and "call_loop L invoke n err c = (r, c')"
  shows "executions f n err (rc_remote c) r (rc_remote c')"
  using assms(2)
proof (induction n arbitrary: err c)
  case 0
  then show ?case by (auto simp: executions_def liftO_def)
next
  case (Suc n)
  obtain d c1 where conn: "getConnection L c = (d, c1)" by fastforce
  note c1 = getConnection_remote [OF conn]
  obtain x c2 where inv: "invoke c1 = (x, c2)" by fastforce
  have att: "rc_remote c2 \<in> {rc_remote c, snd (f (rc_remote c))}" "\<And>a. x = Ok a \<Longrightarrow> f (rc_remote c) = (Ok a, rc_remote c2)"
    using assms(1) [unfolded one_attempt_def, rule_format, OF inv] c1 by simp_all
  have stop: "executions f (Suc n) err (rc_remote c) r (rc_remote c)" if "\<And>a. r \<noteq> Ok a" for r
    using that unfolding executions_def by (intro exI [of _ 0]) simp
  have again: "executions f (Suc n) err (rc_remote c) r (rc_remote c')"
    if "call_loop L invoke n (Err e) c3 = (r, c')" "rc_remote c3 \<in> {rc_remote c, snd (f (rc_remote c))}" for e c3
    using executions_more [OF Suc.IH [OF that(1)] that(2)] .
  show ?case
  proof (cases d)
    case (Ok u)
    have done1: "executions f (Suc n) err (rc_remote c) (Ok a) (rc_remote c2)" if "x = Ok a" for a
      using att(2) [OF that] unfolding executions_def by (intro exI [of _ 1]) simp
    have stop1: "executions f (Suc n) err (rc_remote c) r (rc_remote c2)" if "\<And>a. r \<noteq> Ok a" for r
      using that att(1) unfolding executions_def
      by (cases "rc_remote c2 = rc_remote c") (force intro: exI [of _ 0] exI [of _ "Suc 0"])+
    show ?thesis using Suc.prems conn Ok inv c1 done1 stop1 att(1) again
      by (cases x) (auto simp: tryG_def bindG_def modifyG_def okG_def next_attempt_def)
  qed (use Suc.prems conn c1 stop again in \<open>auto simp: tryG_def bindG_def modifyG_def next_attempt_def\<close>)
qed


definition reliable :: link where
  "reliable = \<lparr>ln_Dial = (\<lambda>_. Ok ()), ln_Call = (\<lambda>_. In_time)\<rparr>"

lemma reliable_call:
  assumes "f (rc_remote c) = (Ok a, s')" and "0 < rc_retries c"
  shows "app_call reliable f zero c = (Ok a, c\<lparr>rc_connected := True, rc_attempts := rc_attempts c + 1, rc_remote := s'\<rparr>)"
proof -
  obtain m where m: "rc_retries c = Suc m" using assms(2) by (cases "rc_retries c") auto
  show ?thesis
    using assms(1) m
    by (cases c) (simp add: app_call_def reliable_def getConnection_def rpc_Go_def remote_result_def next_attempt_def
        bindG_def getsG_def tryG_def okG_def liftO_def modifyG_def)
qed

text \<open>Over a link that dials and delivers in time, the socket proxy behaves as the in-memory proxy: when the
  handler of the application returns a response, so does \<open>CommitBlock\<close>, after one execution.\<close>

theorem socket_refines_inmem:
  assumes "proxy_CommitBlock H block (rc_remote c) = (Ok resp, s')" and "rc_retries c = 3"
  shows "\<exists>c'. client_CommitBlock reliable H block c = (Ok resp, c') \<and> rc_remote c' = s' \<and> rc_retries c' = 3"
  using reliable_call [of "ph_CommitHandler H block" c resp s'] assms
  by (simp add: client_CommitBlock_def srv_CommitBlock_def proxy_CommitBlock_def)

definition slow_once :: link where
  "slow_once = \<lparr>ln_Dial = (\<lambda>_. Ok ()), ln_Call = (\<lambda>i. if i = 0 then Timed_out True else In_time)\<rparr>"


text \<open>A block with one transaction, and hashing by the identity: one execution and two give different hashes.\<close>

definition one_tx_block :: Block where
  "one_tx_block = zero_Block\<lparr>bl_Body := (bl_Body zero_Block)\<lparr>bb_Transactions := [[7]]\<rparr>\<rparr>"

lemma twice_differs:
  "fst (client_CommitBlock slow_once (dummy_handler sample_crypto) one_tx_block (NewSocketAppProxyClient NewState)) \<noteq>
   fst (client_CommitBlock reliable (dummy_handler sample_crypto) one_tx_block (NewSocketAppProxyClient NewState))"
  by code_simp


theorem socket_refines_inmem_witness:
  "\<exists>c. client_CommitBlock reliable (dummy_handler sample_crypto) one_tx_block (NewSocketAppProxyClient NewState) =
     (Ok \<lparr>cr_StateHash = [7], cr_InternalTransactionReceipts = []\<rparr>, c) \<and> ds_committedTxs (rc_remote c) = [[7]]"
proof -
  let ?c = "NewSocketAppProxyClient NewState"
  have "proxy_CommitBlock (dummy_handler sample_crypto) one_tx_block (rc_remote ?c) =
      (Ok \<lparr>cr_StateHash = [7], cr_InternalTransactionReceipts = []\<rparr>,
       NewState\<lparr>ds_committedTxs := [[7]], ds_stateHash := [7], ds_snapshots := [(bl_Index one_tx_block, [7])]\<rparr>)"
    by code_simp
  from socket_refines_inmem [OF this] show ?thesis by (auto simp: NewSocketAppProxyClient_def)
qed

section \<open>Accepting connections\<close>

text \<open>The two servers on what their listeners accept: the connections that are served, and how the loop ends. The server of
  the node serves the nil connection that comes with an error, which panics; the server of the application returns
  the error.\<close>

fun app_listen :: "(go_error + 'conn) list \<Rightarrow> 'conn list \<times> unit res" where
  "app_listen [] = ([], Diverge)"
| "app_listen (Inl err # rest) = ([], Panic)"
| "app_listen (Inr conn # rest) = (case app_listen rest of (served, e) \<Rightarrow> (conn # served, e))"

fun babble_listen :: "(go_error + 'conn) list \<Rightarrow> 'conn list \<times> unit res" where
  "babble_listen [] = ([], Diverge)"
| "babble_listen (Inl err # rest) = ([], Err err)"
| "babble_listen (Inr conn # rest) = (case babble_listen rest of (served, e) \<Rightarrow> (conn # served, e))"

lemma app_listen_error_panics: "app_listen (map Inr conns @ Inl err # rest) = (conns, Panic)"
  by (induction conns) auto

end
