(* ===== verification/Net_Transport.thy ===== *)
theory Net_Transport
  imports Node
begin

text \<open>
  \<open>src/src/net/net_transport.go\<close>, client side: requests over pooled connections.

  A connection is a target and a number; the transport keeps what was dialled and what was closed.
  What happens on a connection is a parameter, \<open>stream_ops\<close>, which may answer differently at every call: its
  functions get the number of the call. \<open>fmt.Errorf\<close> with a text as its format, and no operands, is the
  function \<open>st_Format\<close>.
\<close>

section \<open>Types of requests\<close>

definition rpcJoin :: byte where
  "rpcJoin = 0"

definition rpcSync :: byte where
  "rpcSync = 1"

definition rpcEagerSync :: byte where
  "rpcEagerSync = 2"

definition rpcFastForward :: byte where
  "rpcFastForward = 3"

definition ErrTransportShutdown :: go_error where
  "ErrTransportShutdown = Errorf ''transport shutdown''"

section \<open>Client side\<close>

record netConn =
  nc_target :: string
  nc_id :: nat

record NetworkTransport =
  nt_connPool :: "(string \<times> netConn list) list"
  nt_maxPool :: int
  nt_shutdown :: bool
  nt_timeout :: int
  nt_joinTimeout :: int
  nt_dialled :: nat
  nt_released :: "netConn list"
  nt_calls :: nat

record stream_ops =
  st_Dial :: "string \<Rightarrow> int \<Rightarrow> nat \<Rightarrow> unit res"
  st_WriteByte :: "nat \<Rightarrow> netConn \<Rightarrow> byte \<Rightarrow> unit res"
  st_Encode :: "nat \<Rightarrow> netConn \<Rightarrow> Command \<Rightarrow> unit res"
  st_Flush :: "nat \<Rightarrow> netConn \<Rightarrow> unit res"
  st_DecodeError :: "nat \<Rightarrow> netConn \<Rightarrow> string res"
  st_DecodeResponse :: "nat \<Rightarrow> netConn \<Rightarrow> byte \<Rightarrow> Response option res"
  st_Format :: "string \<Rightarrow> string"

type_synonym 'a nt = "(NetworkTransport, 'a) go"

definition NewNetworkTransport :: "int \<Rightarrow> int \<Rightarrow> int \<Rightarrow> NetworkTransport" where
  "NewNetworkTransport maxPool timeout joinTimeout =
     \<lparr>nt_connPool = [], nt_maxPool = maxPool, nt_shutdown = False, nt_timeout = timeout,
      nt_joinTimeout = joinTimeout, nt_dialled = 0, nt_released = [], nt_calls = 0\<rparr>"

definition nt_Close :: "unit nt" where
  "nt_Close = modifyG (\<lambda>t. if \<not> nt_shutdown t then t\<lparr>nt_shutdown := True\<rparr> else t)"

definition IsShutdown :: "NetworkTransport \<Rightarrow> bool" where
  "IsShutdown t = nt_shutdown t"

definition Release :: "netConn \<Rightarrow> unit nt" where
  "Release conn = modifyG (\<lambda>t. t\<lparr>nt_released := nt_released t @ [conn]\<rparr>)"

definition pooled :: "NetworkTransport \<Rightarrow> string \<Rightarrow> netConn list" where
  "pooled t target = (case map_of (nt_connPool t) target of None \<Rightarrow> [] | Some conns \<Rightarrow> conns)"

definition getPooledConn :: "string \<Rightarrow> netConn option nt" where
  "getPooledConn target t =
     (let conns = pooled t target in
      if conns = [] then (Ok None, t)
      else (Ok (Some (last conns)), t\<lparr>nt_connPool := AList.update target (butlast conns) (nt_connPool t)\<rparr>))"

definition getConn :: "stream_ops \<Rightarrow> string \<Rightarrow> int \<Rightarrow> netConn nt" where
  "getConn S target timeout =
     bindG (getPooledConn target) (\<lambda>p. case p of
       Some conn \<Rightarrow> okG conn
     | None \<Rightarrow>
         bindG (getsG nt_calls) (\<lambda>k.
         bindG (liftO (st_Dial S target timeout k)) (\<lambda>_.
         bindG (getsG nt_dialled) (\<lambda>i.
         bindG (modifyG (\<lambda>t. t\<lparr>nt_dialled := i + 1\<rparr>)) (\<lambda>_.
         okG \<lparr>nc_target = target, nc_id = i\<rparr>)))))"

definition returnConn :: "netConn \<Rightarrow> unit nt" where
  "returnConn conn =
     bindG (getsG id) (\<lambda>t.
     let key = nc_target conn; conns = pooled t key in
     if \<not> IsShutdown t \<and> int (length conns) < nt_maxPool t
     then modifyG (\<lambda>t. t\<lparr>nt_connPool := AList.update key (conns @ [conn]) (nt_connPool t)\<rparr>)
     else Release conn)"

text \<open>\<open>if err := m; err != nil { conn.Release(); return err }\<close>\<close>

definition or_release :: "netConn \<Rightarrow> 'a res \<Rightarrow> ('a \<Rightarrow> 'b nt) \<Rightarrow> 'b nt" where
  "or_release conn m k =
     tryG (liftO m) (\<lambda>r. case r of
       Inl err \<Rightarrow> bindG (Release conn) (\<lambda>_. errG err)
     | Inr a \<Rightarrow> k a)"

definition sendRPC :: "stream_ops \<Rightarrow> nat \<Rightarrow> netConn \<Rightarrow> byte \<Rightarrow> Command \<Rightarrow> unit nt" where
  "sendRPC S k conn rpcType args =
     or_release conn (st_WriteByte S k conn rpcType) (\<lambda>_.
     or_release conn (st_Encode S k conn args) (\<lambda>_.
     or_release conn (st_Flush S k conn) (\<lambda>_. okG ())))"

text \<open>The flag that the connection can be reused, and the response or an error.\<close>

definition decodeResponse :: "stream_ops \<Rightarrow> nat \<Rightarrow> netConn \<Rightarrow> byte \<Rightarrow> (bool \<times> (go_error + Response option)) nt" where
  "decodeResponse S k conn rpcType =
     tryG (liftO (st_DecodeError S k conn)) (\<lambda>e. case e of
       Inl err \<Rightarrow> bindG (Release conn) (\<lambda>_. okG (False, Inl err))
     | Inr rpcError \<Rightarrow>
         tryG (liftO (st_DecodeResponse S k conn rpcType)) (\<lambda>r. case r of
           Inl err \<Rightarrow> bindG (Release conn) (\<lambda>_. okG (False, Inl err))
         | Inr resp \<Rightarrow>
             if rpcError \<noteq> '''' then okG (True, Inl (Errorf (st_Format S rpcError)))
             else okG (True, Inr resp)))"

definition genericRPC :: "stream_ops \<Rightarrow> string \<Rightarrow> byte \<Rightarrow> int \<Rightarrow> Command \<Rightarrow> Response option nt" where
  "genericRPC S target rpcType timeout args =
     bindG (modifyG (\<lambda>t. t\<lparr>nt_calls := nt_calls t + 1\<rparr>)) (\<lambda>_.
     bindG (getConn S target timeout) (\<lambda>conn.
     bindG (getsG nt_calls) (\<lambda>k.
     bindG (sendRPC S k conn rpcType args) (\<lambda>_.
     bindG (decodeResponse S k conn rpcType) (\<lambda>(canReturn, r).
     bindG (if canReturn then returnConn conn else okG ()) (\<lambda>_.
     case r of Inl err \<Rightarrow> errG err | Inr resp \<Rightarrow> okG resp))))))"

definition nt_Sync :: "stream_ops \<Rightarrow> string \<Rightarrow> SyncRequest \<Rightarrow> Response option nt" where
  "nt_Sync S target args = bindG (getsG nt_timeout) (\<lambda>t. genericRPC S target rpcSync t (SyncCmd args))"

definition nt_EagerSync :: "stream_ops \<Rightarrow> string \<Rightarrow> EagerSyncRequest \<Rightarrow> Response option nt" where
  "nt_EagerSync S target args = bindG (getsG nt_timeout) (\<lambda>t. genericRPC S target rpcEagerSync t (EagerSyncCmd args))"

definition nt_FastForward :: "stream_ops \<Rightarrow> string \<Rightarrow> FastForwardRequest \<Rightarrow> Response option nt" where
  "nt_FastForward S target args = bindG (getsG nt_timeout) (\<lambda>t. genericRPC S target rpcFastForward t (FastForwardCmd args))"

definition nt_Join :: "stream_ops \<Rightarrow> string \<Rightarrow> JoinRequest \<Rightarrow> Response option nt" where
  "nt_Join S target args = bindG (getsG nt_joinTimeout) (\<lambda>t. genericRPC S target rpcJoin t (JoinCmd args))"

section \<open>Connections are neither lost nor reused after they were closed\<close>

definition pool_conns :: "NetworkTransport \<Rightarrow> netConn multiset" where
  "pool_conns t = mset (concat (map snd (nt_connPool t)))"

text \<open>The connections dialled so far are those in the pool, those closed, and those in use, each once. A pool
  holds connections to its target, within the limit.\<close>

definition pool_inv :: "netConn multiset \<Rightarrow> NetworkTransport \<Rightarrow> bool" where
  "pool_inv used t \<longleftrightarrow>
     image_mset nc_id (pool_conns t + mset (nt_released t) + used) = mset [0..<nt_dialled t] \<and>
     distinct (map fst (nt_connPool t)) \<and>
     (\<forall>(key, conns) \<in> set (nt_connPool t).
        (\<forall>c \<in> set conns. nc_target c = key) \<and> int (length conns) \<le> max 0 (nt_maxPool t))"

lemma mset_update_pool:
  "distinct (map fst al) \<Longrightarrow>
   mset (concat (map snd (AList.update k v al))) + mset (case map_of al k of None \<Rightarrow> [] | Some u \<Rightarrow> u) =
     mset (concat (map snd al)) + mset v"
proof (induction al)
  case (Cons p al)
  obtain a b where p: "p = (a, b)" by fastforce
  have "map_of al k = None" if "k = a" using Cons.prems p that by (auto simp: map_of_eq_None_iff)
  then show ?case using Cons p by (auto simp: add.assoc ac_simps)
qed simp

lemma set_update_pool: "x \<in> set (AList.update k v al) \<Longrightarrow> x = (k, v) \<or> x \<in> set al"
  by (induction al) (auto split: if_splits)

lemma pool_inv_update:
  assumes "pool_inv used t" and "mset conns + used' = mset (pooled t key) + used" and "\<forall>c \<in> set conns. nc_target c = key"
    and "int (length conns) \<le> max 0 (nt_maxPool t)"
  shows "pool_inv used' (t\<lparr>nt_connPool := AList.update key conns (nt_connPool t)\<rparr>)"
proof -
  let ?al = "nt_connPool t"
  have al: "mset (concat (map snd (AList.update key conns ?al))) + mset (pooled t key) = mset (concat (map snd ?al)) + mset conns"
    using mset_update_pool [of ?al key conns] assms(1) by (simp add: pool_inv_def pooled_def)
  have "mset (concat (map snd (AList.update key conns ?al))) + used' + mset (pooled t key) =
      mset (concat (map snd ?al)) + used + mset (pooled t key)"
    using al assms(2) by (metis add.assoc add.commute)
  then have "mset (concat (map snd (AList.update key conns ?al))) + used' = mset (concat (map snd ?al)) + used" by simp
  then have all: "mset (concat (map snd (AList.update key conns ?al))) + mset (nt_released t) + used' =
      mset (concat (map snd ?al)) + mset (nt_released t) + used"
    by (metis add.assoc add.commute)
  have entry: "(\<forall>c \<in> set cs. nc_target c = k) \<and> int (length cs) \<le> max 0 (nt_maxPool t)"
    if "(k, cs) \<in> set (AList.update key conns ?al)" for k cs
    using set_update_pool [OF that] assms(1,3,4) unfolding pool_inv_def by blast
  then show ?thesis
    using assms(1) distinct_update [of ?al key conns]
    unfolding pool_inv_def pool_conns_def by (simp del: image_mset_union add: all) blast
qed

lemma pooled_facts:
  assumes "pool_inv used t"
  shows "\<forall>c \<in> set (pooled t key). nc_target c = key" and "int (length (pooled t key)) \<le> max 0 (nt_maxPool t)"
  using assms unfolding pool_inv_def pooled_def
  by (auto split: option.splits dest!: map_of_SomeD)

lemma hoare_getPooledConn:
  "hoare (pool_inv used) (getPooledConn target)
     (\<lambda>p. case p of None \<Rightarrow> pool_inv used | Some c \<Rightarrow> pool_inv (add_mset c used)) (pool_inv used)"
proof -
  have "pool_inv (add_mset (last (pooled t target)) used)
      (t\<lparr>nt_connPool := AList.update target (butlast (pooled t target)) (nt_connPool t)\<rparr>)"
    if inv: "pool_inv used t" and ne: "pooled t target \<noteq> []" for t
  proof (rule pool_inv_update [OF inv])
    have "mset (butlast (pooled t target)) + {#last (pooled t target)#} = mset (pooled t target)"
      using ne by (metis append_butlast_last_id mset.simps(1,2) mset_append)
    then show "mset (butlast (pooled t target)) + add_mset (last (pooled t target)) used = mset (pooled t target) + used"
      by (metis add_mset_add_single union_mset_add_mset_left union_mset_add_mset_right add.right_neutral)
  qed (use pooled_facts [OF inv, of target] in \<open>auto dest: in_set_butlastD\<close>)
  then show ?thesis by (auto simp: hoare_def getPooledConn_def Let_def)
qed

lemma pool_inv_dial:
  "pool_inv used t \<Longrightarrow> pool_inv (add_mset \<lparr>nc_target = target, nc_id = nt_dialled t\<rparr> used) (t\<lparr>nt_dialled := Suc (nt_dialled t)\<rparr>)"
  by (simp add: pool_inv_def pool_conns_def)

lemma hoare_getConn: "hoare (pool_inv used) (getConn S target timeout) (\<lambda>c. pool_inv (add_mset c used)) (pool_inv used)"
  unfolding getConn_def
proof (rule hoare_bind [OF hoare_getPooledConn])
  fix p :: "netConn option"
  show "hoare (case p of None \<Rightarrow> pool_inv used | Some c \<Rightarrow> pool_inv (add_mset c used))
      (case p of None \<Rightarrow> bindG (getsG nt_calls) (\<lambda>k. bindG (liftO (st_Dial S target timeout k)) (\<lambda>_.
          bindG (getsG nt_dialled) (\<lambda>i. bindG (modifyG (\<lambda>t. t\<lparr>nt_dialled := i + 1\<rparr>)) (\<lambda>_. okG \<lparr>nc_target = target, nc_id = i\<rparr>))))
       | Some conn \<Rightarrow> okG conn) (\<lambda>c. pool_inv (add_mset c used)) (pool_inv used)"
    by (cases p) (auto simp: hoare_def bindG_def getsG_def liftO_def modifyG_def okG_def pool_inv_dial split: outcome.splits)
qed

lemma hoare_Release: "hoare (pool_inv (add_mset c used)) (Release c) (\<lambda>_. pool_inv used) E"
  by (simp add: hoare_def Release_def modifyG_def pool_inv_def pool_conns_def)

lemma hoare_returnConn: "hoare (pool_inv (add_mset c used)) (returnConn c) (\<lambda>_. pool_inv used) E"
proof -
  have keep: "pool_inv used (t\<lparr>nt_connPool := AList.update (nc_target c) (pooled t (nc_target c) @ [c]) (nt_connPool t)\<rparr>)"
    if inv: "pool_inv (add_mset c used) t" and "int (length (pooled t (nc_target c))) < nt_maxPool t" for t
    by (rule pool_inv_update [OF inv]) (use that pooled_facts [OF inv, of "nc_target c"] in auto)
  have "pool_inv used (t\<lparr>nt_released := nt_released t @ [c]\<rparr>)" if "pool_inv (add_mset c used) t" for t
    using that by (simp add: pool_inv_def pool_conns_def)
  then show ?thesis using keep
    by (auto simp: hoare_def returnConn_def bindG_def getsG_def modifyG_def Release_def Let_def)
qed

section \<open>Interleaved calls\<close>

text \<open>What the parameter promises: an operation of a connection returns a value or an error.\<close>

fun returns :: "'a res \<Rightarrow> bool" where
  "returns (Ok a) = True"
| "returns (Err e) = True"
| "returns _ = False"

definition stream_ok :: "stream_ops \<Rightarrow> bool" where
  "stream_ok S \<longleftrightarrow>
     (\<forall>k c b. returns (st_WriteByte S k c b)) \<and> (\<forall>k c m. returns (st_Encode S k c m)) \<and>
     (\<forall>k c. returns (st_Flush S k c)) \<and> (\<forall>k c. returns (st_DecodeError S k c)) \<and>
     (\<forall>k c b. returns (st_DecodeResponse S k c b))"

lemma hoare_same: "hoare P (okG a) (\<lambda>_. P) E" "hoare P (errG e) Q P"
  by (simp_all add: hoare_def go_defs)

lemma hoare_tryO:
  assumes "returns m" and "\<And>e. hoare P (k (Inl e)) Q E" and "\<And>a. hoare P (k (Inr a)) Q E"
  shows "hoare P (tryG (liftO m) k) Q E"
  using assms by (cases m) (auto simp: hoare_def tryG_def liftO_def)

lemma hoare_or_release:
  assumes "returns m" and "\<And>a. hoare (pool_inv (add_mset c used)) (k a) Q (pool_inv used)"
  shows "hoare (pool_inv (add_mset c used)) (or_release c m k) Q (pool_inv used)"
  unfolding or_release_def
  by (rule hoare_tryO [OF assms(1)]) (auto intro: assms(2) hoare_bind [OF hoare_Release] hoare_err)

lemma hoare_sendRPC:
  assumes "stream_ok S"
  shows "hoare (pool_inv (add_mset c used)) (sendRPC S k c b m) (\<lambda>_. pool_inv (add_mset c used)) (pool_inv used)"
  unfolding sendRPC_def
  by (intro hoare_or_release hoare_ok) (use assms in \<open>auto simp: stream_ok_def\<close>)

lemma hoare_decodeResponse:
  assumes "stream_ok S"
  shows "hoare (pool_inv (add_mset c used)) (decodeResponse S k c b)
    (\<lambda>(canReturn, _). pool_inv (if canReturn then add_mset c used else used)) E"
proof -
  let ?Q = "\<lambda>(canReturn :: bool, _ :: go_error + Response option). pool_inv (if canReturn then add_mset c used else used)"
  have fail: "hoare (pool_inv (add_mset c used)) (bindG (Release c) (\<lambda>_. okG (False, Inl err))) ?Q E" for err
    by (rule hoare_bind [OF hoare_Release]) (rule hoare_pre [OF hoare_ok], simp)
  have keep: "hoare (pool_inv (add_mset c used)) (okG (True, r)) ?Q E" for r
    by (rule hoare_pre [OF hoare_ok]) simp
  show ?thesis unfolding decodeResponse_def
    by (rule hoare_tryO; (rule hoare_tryO)?) (use assms fail keep in \<open>auto simp: stream_ok_def intro!: hoare_tryO\<close>)
qed

lemma hoare_genericRPC:
  assumes S: "stream_ok S"
  shows "hoare (pool_inv used) (genericRPC S target b timeout m) (\<lambda>_. pool_inv used) (pool_inv used)"
proof -
  have count: "hoare (pool_inv used) (modifyG (\<lambda>t. t\<lparr>nt_calls := nt_calls t + 1\<rparr>)) (\<lambda>_. pool_inv used) (pool_inv used)"
    by (simp add: hoare_def modifyG_def pool_inv_def pool_conns_def)
  have give: "hoare (pool_inv (if can then add_mset c used else used)) (if can then returnConn c else okG ())
      (\<lambda>_. pool_inv used) (pool_inv used)" for can c
    by (cases can) (simp_all add: hoare_returnConn hoare_same)
  have answer: "hoare (pool_inv used) (case r of Inl err \<Rightarrow> errG err | Inr resp \<Rightarrow> okG resp) (\<lambda>_. pool_inv used) (pool_inv used)"
    for r :: "go_error + Response option" by (cases r) (simp_all add: hoare_same)
  have tail: "hoare (pool_inv (add_mset c used)) (bindG (decodeResponse S k c b) (\<lambda>(can, r).
      bindG (if can then returnConn c else okG ()) (\<lambda>_. case r of Inl err \<Rightarrow> errG err | Inr resp \<Rightarrow> okG resp)))
      (\<lambda>_. pool_inv used) (pool_inv used)" for k c
    by (rule hoare_bind [OF hoare_decodeResponse [OF S]]) (auto intro: hoare_bind [OF give answer])
  have calls: "hoare (pool_inv u) (getsG nt_calls) (\<lambda>_. pool_inv u) E" for u E
    by (simp add: hoare_def getsG_def)
  show ?thesis unfolding genericRPC_def
    by (rule hoare_bind [OF count], rule hoare_bind [OF hoare_getConn], rule hoare_bind [OF calls],
        rule hoare_bind [OF hoare_sendRPC [OF S]], rule tail)
qed

text \<open>
  Several goroutines call the transport at once. The pool lock makes taking a connection and giving it back atomic;
  \<open>transport_step\<close> interleaves those steps, the state being the transport and the connections in use.
\<close>

inductive transport_step ::
  "stream_ops \<Rightarrow> NetworkTransport \<times> netConn multiset \<Rightarrow> NetworkTransport \<times> netConn multiset \<Rightarrow> bool" for S where
  step_acquire: "getConn S target timeout t = (Ok c, t') \<Longrightarrow> transport_step S (t, used) (t', add_mset c used)"
| step_refused: "getConn S target timeout t = (r, t') \<Longrightarrow> \<not> is_Ok r \<Longrightarrow> transport_step S (t, used) (t', used)"
| step_release: "Release c t = (r, t') \<Longrightarrow> transport_step S (t, add_mset c used) (t', used)"
| step_return: "returnConn c t = (r, t') \<Longrightarrow> transport_step S (t, add_mset c used) (t', used)"
| step_call: "genericRPC S target b timeout m t = (r, t') \<Longrightarrow> transport_step S (t, used) (t', used)"
| step_close: "nt_Close t = (r, t') \<Longrightarrow> transport_step S (t, used) (t', used)"

lemma pool_inv_Close: "pool_inv used t \<Longrightarrow> pool_inv used (snd (nt_Close t))"
  by (simp add: nt_Close_def modifyG_def pool_inv_def pool_conns_def)

lemma hoare_snd: "hoare P m (\<lambda>_. Q) Q \<Longrightarrow> P s \<Longrightarrow> m s = (r, s') \<Longrightarrow> Q s'"
  by (cases r) (auto simp: hoare_def split: prod.splits)

lemma transport_step_inv:
  assumes "stream_ok S" and "transport_step S a b" and "pool_inv (snd a) (fst a)"
  shows "pool_inv (snd b) (fst b)"
  using assms(2,3)
proof cases
  case (step_acquire target timeout t c t' used)
  then show ?thesis using hoareD [OF hoare_getConn] assms(3) by fastforce
next
  case (step_refused target timeout t r t' used)
  then show ?thesis using hoareD_fail [OF hoare_getConn] assms(3) by fastforce
next
  case (step_release c t r t' used)
  then show ?thesis using hoare_snd [OF hoare_Release] assms(3) by fastforce
next
  case (step_return c t r t' used)
  then show ?thesis using hoare_snd [OF hoare_returnConn] assms(3) by fastforce
next
  case (step_call target b timeout m t r t' used)
  then show ?thesis using hoare_snd [OF hoare_genericRPC [OF assms(1)]] assms(3) by fastforce
next
  case (step_close t r t' used)
  then show ?thesis using pool_inv_Close [of used t] assms(3) by simp
qed

text \<open>C24: However calls and \<open>Close\<close> interleave on a new \<open>NetworkTransport\<close>, every connection it ever dialled is, exactly
  once, in a pool, closed, or held by one call in progress: none leaks, none is closed twice, none is given to two calls.
  A pool only holds connections to its target, and never more than \<open>maxPool\<close> of them.\<close>

theorem pool_conserved:
  assumes "stream_ok S"
    and "(transport_step S)\<^sup>*\<^sup>* (NewNetworkTransport maxPool timeout joinTimeout, {#}) (t, used)"
  shows "pool_inv used t"
proof -
  have "pool_inv (snd b) (fst b)"
    if "(transport_step S)\<^sup>*\<^sup>* (NewNetworkTransport maxPool timeout joinTimeout, {#}) b" for b
    using that
  proof (induction rule: rtranclp_induct)
    case base
    show ?case by (simp add: pool_inv_def pool_conns_def NewNetworkTransport_def)
  next
    case (step a b)
    then show ?case using transport_step_inv [OF assms(1)] by blast
  qed
  from this [OF assms(2)] show ?thesis by simp
qed

definition quiet_stream :: stream_ops where
  "quiet_stream =
     \<lparr>st_Dial = (\<lambda>_ _ _. Ok ()), st_WriteByte = (\<lambda>_ _ _. Ok ()), st_Encode = (\<lambda>_ _ _. Ok ()), st_Flush = (\<lambda>_ _. Ok ()),
      st_DecodeError = (\<lambda>_ _. Ok ''''), st_DecodeResponse = (\<lambda>_ _ _. Ok None), st_Format = id\<rparr>"

definition sync_request :: SyncRequest where
  "sync_request = \<lparr>sq_FromID = 7, sq_Known = [(7, 0)], sq_SyncLimit = 100\<rparr>"

definition after_sync :: NetworkTransport where
  "after_sync = snd (genericRPC quiet_stream ''a:1'' rpcSync 0 (SyncCmd sync_request) (NewNetworkTransport 2 0 0))"

lemma quiet_stream_ok: "stream_ok quiet_stream"
  by (simp add: stream_ok_def quiet_stream_def)

lemma after_sync_eq:
  "genericRPC quiet_stream ''a:1'' rpcSync 0 (SyncCmd sync_request) (NewNetworkTransport 2 0 0) = (Ok None, after_sync)"
  "pooled after_sync ''a:1'' = [\<lparr>nc_target = ''a:1'', nc_id = 0\<rparr>]"
  by code_simp+

theorem pool_conserved_witness:
  "(transport_step quiet_stream)\<^sup>*\<^sup>* (NewNetworkTransport 2 0 0, {#}) (after_sync, {#}) \<and> pool_inv {#} after_sync"
proof -
  have steps: "(transport_step quiet_stream)\<^sup>*\<^sup>* (NewNetworkTransport 2 0 0, {#}) (after_sync, {#})"
    by (rule r_into_rtranclp, rule step_call, rule after_sync_eq(1))
  then show ?thesis using pool_conserved [OF quiet_stream_ok steps] by simp
qed

lemma getConn_pooled:
  "pooled t target = conns @ [c] \<Longrightarrow>
   getConn S target timeout t = (Ok c, t\<lparr>nt_connPool := AList.update target conns (nt_connPool t)\<rparr>)"
  by (simp add: getConn_def getPooledConn_def bindG_def okG_def)

lemma sendRPC_ok:
  "st_WriteByte S k c b = Ok () \<Longrightarrow> st_Encode S k c args = Ok () \<Longrightarrow> st_Flush S k c = Ok () \<Longrightarrow>
   sendRPC S k c b args t = (Ok (), t)"
  by (simp add: sendRPC_def or_release_def tryG_def liftO_def okG_def)

lemma decodeResponse_ok:
  "st_DecodeError S k c = Ok '''' \<Longrightarrow> st_DecodeResponse S k c b = Ok resp \<Longrightarrow>
   decodeResponse S k c b t = (Ok (True, Inr resp), t)"
  by (simp add: decodeResponse_def tryG_def liftO_def okG_def)

lemma returnConn_shutdown: "nt_shutdown t \<Longrightarrow> returnConn c t = (Ok (), t\<lparr>nt_released := nt_released t @ [c]\<rparr>)"
  by (simp add: returnConn_def Release_def IsShutdown_def bindG_def getsG_def modifyG_def Let_def)

lemma nt_Close_eq: "nt_Close t = (Ok (), t\<lparr>nt_shutdown := True\<rparr>)"
  by (simp add: nt_Close_def modifyG_def)

text \<open>\<open>ErrTransportShutdown\<close> is documented as what operations return after the transport was terminated. A call does not
  look at the flag: after \<open>Close\<close>, which leaves the pooled connections open, a request to a target with a pooled
  connection is sent over it and its response is returned. The connection is closed only then.\<close>

theorem calls_after_close:
  assumes "pooled t target = conns @ [c]" and "nt_calls t + 1 = k"
    and "st_WriteByte S k c b = Ok ()" and "st_Encode S k c args = Ok ()" and "st_Flush S k c = Ok ()"
    and "st_DecodeError S k c = Ok ''''" and "st_DecodeResponse S k c b = Ok resp"
  shows "\<exists>t'. bindG nt_Close (\<lambda>_. genericRPC S target b timeout args) t = (Ok resp, t') \<and>
      IsShutdown t' \<and> nt_released t' = nt_released t @ [c] \<and> pooled t' target = conns"
proof -
  let ?t0 = "t\<lparr>nt_shutdown := True\<rparr>\<lparr>nt_calls := k\<rparr>"
  have "pooled ?t0 target = conns @ [c]" using assms(1) by (simp add: pooled_def)
  note conn = getConn_pooled [OF this, of S timeout]
  show ?thesis using assms(2)
    by (auto simp: genericRPC_def bindG_def modifyG_def getsG_def okG_def nt_Close_eq conn sendRPC_ok [OF assms(3-5)]
        decodeResponse_ok [OF assms(6,7)] returnConn_shutdown IsShutdown_def pooled_def update_conv')
qed

theorem calls_after_close_witness:
  "fst (bindG nt_Close (\<lambda>_. genericRPC quiet_stream ''a:1'' rpcSync 0 (SyncCmd sync_request)) after_sync) = Ok None"
  using calls_after_close [of after_sync "''a:1''" "[]" "\<lparr>nc_target = ''a:1'', nc_id = 0\<rparr>" _ quiet_stream rpcSync
      "SyncCmd sync_request" None 0, OF _ refl]
  by (auto simp: after_sync_eq(2) quiet_stream_def)

end
