(* ===== verification/Net_Server.thy ===== *)
theory Net_Server
  imports Net_Transport
begin

text \<open>
  \<open>src/src/net/net_transport.go\<close>, server side: commands decoded from the bytes of a connection, given to the node, and
  answered.

  Between the connection and the program there are two buffers: the one of \<open>bufio.Reader\<close>, from which the type of a
  command is read, and the one of \<open>json.Decoder\<close>, which reads from the former. Both are in \<open>serverConn\<close>, with their
  sizes, as the standard library has them. What the network delivers is a list of chunks, followed by an error; a read
  returns bytes of the first chunk only.

  JSON itself is a parameter: \<open>js_Scan\<close> says whether bytes begin with a complete value and how long it is, the other
  functions convert values. What the node does with a command is the parameter \<open>serve\<close>.
\<close>

section \<open>The two buffers\<close>

definition io_EOF :: go_error where
  "io_EOF = Errorf ''EOF''"

definition io_ErrUnexpectedEOF :: go_error where
  "io_ErrUnexpectedEOF = Errorf ''unexpected EOF''"

definition io_ErrNoProgress :: go_error where
  "io_ErrNoProgress = Errorf ''multiple Read calls return no data or error''"

definition bufSize :: nat where
  "bufSize = 65535"

definition minRead :: nat where
  "minRead = 512"

text \<open>\<open>dc_buf\<close> is the unread part of the decoder's buffer, \<open>dc_room\<close> its capacity beyond that part.\<close>

record serverConn =
  rd_buf :: "byte list"
  rd_chunks :: "byte list list"
  rd_end :: go_error
  dc_buf :: "byte list"
  dc_room :: nat
  wr_buf :: "byte list"
  wr_sent :: "byte list"
  dispatched :: "Command list"

type_synonym 'a sc = "(serverConn, 'a) go"

definition conn_Read :: "nat \<Rightarrow> serverConn \<Rightarrow> (byte list \<times> go_error option) \<times> serverConn" where
  "conn_Read n s =
     (case rd_chunks s of
        [] \<Rightarrow> (([], Some (rd_end s)), s)
      | c # cs \<Rightarrow> ((take n c, None), s\<lparr>rd_chunks := if length c \<le> n then cs else drop n c # cs\<rparr>))"

text \<open>\<open>bufio.Reader.fill\<close> on an empty buffer: at most so many reads that return nothing.\<close>

fun buf_fill :: "nat \<Rightarrow> unit sc" where
  "buf_fill 0 s = (Err io_ErrNoProgress, s)"
| "buf_fill (Suc i) s =
     (case conn_Read bufSize s of
        ((bs, Some err), s') \<Rightarrow> (Err err, s')
      | ((bs, None), s') \<Rightarrow> if bs \<noteq> [] then (Ok (), s'\<lparr>rd_buf := bs\<rparr>) else buf_fill i s')"

definition ReadByte :: "byte sc" where
  "ReadByte =
     bindG (\<lambda>s. if rd_buf s = [] then buf_fill 100 s else (Ok (), s)) (\<lambda>_.
     bindG (getsG rd_buf) (\<lambda>b.
     bindG (modifyG (\<lambda>s. s\<lparr>rd_buf := tl b\<rparr>)) (\<lambda>_. okG (hd b))))"

definition buf_take :: "nat \<Rightarrow> serverConn \<Rightarrow> (byte list \<times> go_error option) \<times> serverConn" where
  "buf_take n s = ((take n (rd_buf s), None), s\<lparr>rd_buf := drop n (rd_buf s)\<rparr>)"

definition buf_Read :: "nat \<Rightarrow> serverConn \<Rightarrow> (byte list \<times> go_error option) \<times> serverConn" where
  "buf_Read n s =
     (if rd_buf s \<noteq> [] then buf_take n s
      else if bufSize \<le> n then conn_Read n s
      else case conn_Read bufSize s of
             ((bs, Some err), s') \<Rightarrow> (([], Some err), s')
           | ((bs, None), s') \<Rightarrow> if bs = [] then (([], None), s') else buf_take n (s'\<lparr>rd_buf := bs\<rparr>))"

text \<open>\<open>json.Decoder.refill\<close>: slide the unread bytes down, grow the buffer if less than \<open>minRead\<close> is free, read once.\<close>

definition refill :: "serverConn \<Rightarrow> go_error option \<times> serverConn" where
  "refill s =
     (let len = length (dc_buf s);
          room = if dc_room s < minRead then 2 * (len + dc_room s) + minRead - len else dc_room s in
      case buf_Read room s of
        ((bs, err), s') \<Rightarrow> (err, s'\<lparr>dc_buf := dc_buf s @ bs, dc_room := room - length bs\<rparr>))"

text \<open>What the connection may still deliver; every successful \<open>refill\<close> takes from it.\<close>

definition left_bytes :: "serverConn \<Rightarrow> nat" where
  "left_bytes s = length (rd_buf s) + (\<Sum>c \<leftarrow> rd_chunks s. Suc (length c))"

lemma conn_Read_left:
  "conn_Read n s = ((bs, None), s') \<Longrightarrow> 0 < n \<Longrightarrow> rd_buf s' = rd_buf s \<and> left_bytes s' + length bs \<le> left_bytes s \<and> left_bytes s' < left_bytes s"
  by (auto simp: conn_Read_def left_bytes_def split: list.splits if_splits)

lemma buf_take_left: "buf_take n s = (r, s') \<Longrightarrow> 0 < n \<Longrightarrow> rd_buf s \<noteq> [] \<Longrightarrow> left_bytes s' < left_bytes s"
  by (auto simp: buf_take_def left_bytes_def)

lemma conn_Read_full: "conn_Read n s = ((bs, None), s') \<Longrightarrow> bs \<noteq> [] \<Longrightarrow> rd_buf s = [] \<Longrightarrow> left_bytes (s'\<lparr>rd_buf := bs\<rparr>) \<le> left_bytes s"
  by (auto simp: conn_Read_def left_bytes_def split: list.splits if_splits)

lemma buf_Read_left:
  assumes "buf_Read n s = ((bs, None), s')" and "0 < n"
  shows "left_bytes s' < left_bytes s"
proof (cases "rd_buf s = [] \<and> n < bufSize")
  case True
  obtain bs1 e s1 where r: "conn_Read bufSize s = ((bs1, e), s1)" by (metis prod.collapse)
  have e: "e = None" using assms(1) r True by (cases e) (auto simp: buf_Read_def)
  note r = r [unfolded e]
  show ?thesis
  proof (cases "bs1 = []")
    case True
    then show ?thesis
      using assms(1) r \<open>rd_buf s = [] \<and> n < bufSize\<close> conn_Read_left [OF r] by (simp add: buf_Read_def bufSize_def)
  next
    case False
    then have "buf_take n (s1\<lparr>rd_buf := bs1\<rparr>) = ((bs, None), s')" using assms(1) r True by (simp add: buf_Read_def)
    from buf_take_left [OF this assms(2)] False conn_Read_full [OF r False] True show ?thesis by simp
  qed
next
  case False
  then show ?thesis using assms conn_Read_left [of n s bs s'] buf_take_left [of n s "(bs, None)" s']
    by (auto simp: buf_Read_def split: if_splits)
qed

lemma refill_left: "refill s = (None, s') \<Longrightarrow> left_bytes s' < left_bytes s"
proof -
  assume r: "refill s = (None, s')"
  define room where "room = (if dc_room s < minRead then 2 * (length (dc_buf s) + dc_room s) + minRead - length (dc_buf s) else dc_room s)"
  obtain bs e s1 where b: "buf_Read room s = ((bs, e), s1)" by (metis prod.collapse)
  have "0 < room" by (auto simp: room_def minRead_def)
  moreover have "e = None" "left_bytes s' = left_bytes s1"
    using r b by (auto simp: refill_def Let_def room_def [symmetric] left_bytes_def)
  ultimately show ?thesis using buf_Read_left b by metis
qed

section \<open>Decoding a value\<close>

datatype scan = More | Bad go_error | Complete nat

record json_ops =
  js_Scan :: "byte list \<Rightarrow> scan"
  js_SyncRequest :: "byte list \<Rightarrow> SyncRequest res"
  js_EagerSyncRequest :: "byte list \<Rightarrow> EagerSyncRequest res"
  js_FastForwardRequest :: "byte list \<Rightarrow> FastForwardRequest res"
  js_JoinRequest :: "byte list \<Rightarrow> JoinRequest res"
  js_String :: "string \<Rightarrow> byte list res"
  js_Response :: "Response option \<Rightarrow> byte list res"

definition isSpace :: "byte \<Rightarrow> bool" where
  "isSpace c \<longleftrightarrow> c = 32 \<or> c = 9 \<or> c = 13 \<or> c = 10"

text \<open>The bytes of the next value. At the end of the input a value such as a number, which only the next byte would
  end, is complete.\<close>

function readValue :: "json_ops \<Rightarrow> nat sc" where
  "readValue J s =
     (case js_Scan J (dc_buf s) of
        Complete n \<Rightarrow> (Ok n, s)
      | Bad err \<Rightarrow> (Err err, s)
      | More \<Rightarrow>
          (case refill s of
             (None, s') \<Rightarrow> readValue J s'
           | (Some err, s') \<Rightarrow>
               if err \<noteq> io_EOF then (Err err, s')
               else case js_Scan J (dc_buf s' @ [32]) of
                      Complete n \<Rightarrow> (Ok (length (dc_buf s')), s')
                    | _ \<Rightarrow> if list_ex (\<lambda>c. \<not> isSpace c) (dc_buf s') then (Err io_ErrUnexpectedEOF, s') else (Err io_EOF, s')))"
  by pat_completeness auto
termination
  by (relation "measure (\<lambda>(J, s). left_bytes s)") (auto intro: refill_left)

declare readValue.simps [simp del]

definition Decode :: "json_ops \<Rightarrow> (byte list \<Rightarrow> 'a res) \<Rightarrow> 'a sc" where
  "Decode J unmarshal =
     bindG (readValue J) (\<lambda>n.
     bindG (getsG dc_buf) (\<lambda>b.
     bindG (modifyG (\<lambda>s. s\<lparr>dc_buf := drop n b, dc_room := dc_room s + n\<rparr>)) (\<lambda>_.
     liftO (unmarshal (take n b)))))"

text \<open>\<open>json.Encoder.Encode\<close> ends a value with a newline.\<close>

definition Encode :: "byte list res \<Rightarrow> unit sc" where
  "Encode v = bindG (liftO v) (\<lambda>bs. modifyG (\<lambda>s. s\<lparr>wr_buf := wr_buf s @ bs @ [10]\<rparr>))"

section \<open>Serving commands\<close>

text \<open>What happens to a command: the transport is shut down before the node takes it, or before it answers, or the node
  answers.\<close>

datatype served = NotTaken | NotAnswered | Answered RPCResponse

definition decodeCommand :: "json_ops \<Rightarrow> byte \<Rightarrow> Command sc" where
  "decodeCommand J rpcType =
     (if rpcType = rpcSync then bindG (Decode J (js_SyncRequest J)) (\<lambda>req. okG (SyncCmd req))
      else if rpcType = rpcEagerSync then bindG (Decode J (js_EagerSyncRequest J)) (\<lambda>req. okG (EagerSyncCmd req))
      else if rpcType = rpcFastForward then bindG (Decode J (js_FastForwardRequest J)) (\<lambda>req. okG (FastForwardCmd req))
      else if rpcType = rpcJoin then bindG (Decode J (js_JoinRequest J)) (\<lambda>req. okG (JoinCmd req))
      else errG (Errorf (''unknown rpc type '' @ itoa (uint rpcType))))"

definition handleCommand :: "json_ops \<Rightarrow> (nat \<Rightarrow> Command \<Rightarrow> served) \<Rightarrow> unit sc" where
  "handleCommand J serve =
     bindG ReadByte (\<lambda>rpcType.
     bindG (decodeCommand J rpcType) (\<lambda>cmd.
     bindG (getsG (\<lambda>s. length (dispatched s))) (\<lambda>k.
     case serve k cmd of
       NotTaken \<Rightarrow> errG ErrTransportShutdown
     | NotAnswered \<Rightarrow> bindG (modifyG (\<lambda>s. s\<lparr>dispatched := dispatched s @ [cmd]\<rparr>)) (\<lambda>_. errG ErrTransportShutdown)
     | Answered resp \<Rightarrow>
         bindG (modifyG (\<lambda>s. s\<lparr>dispatched := dispatched s @ [cmd]\<rparr>)) (\<lambda>_.
         bindG (Encode (js_String J (case rpc_Error resp of None \<Rightarrow> '''' | Some e \<Rightarrow> error_text e))) (\<lambda>_.
         Encode (js_Response J (rpc_Response resp)))))))"

definition Flush :: "(nat \<Rightarrow> unit res) \<Rightarrow> unit sc" where
  "Flush flush =
     bindG (getsG (\<lambda>s. length (dispatched s))) (\<lambda>k.
     bindG (liftO (flush k)) (\<lambda>_.
     modifyG (\<lambda>s. s\<lparr>wr_sent := wr_sent s @ wr_buf s, wr_buf := []\<rparr>)))"

definition NewServerConn :: "byte list list \<Rightarrow> go_error \<Rightarrow> serverConn" where
  "NewServerConn chunks end_err =
     \<lparr>rd_buf = [], rd_chunks = chunks, rd_end = end_err, dc_buf = [], dc_room = 0, wr_buf = [], wr_sent = [], dispatched = []\<rparr>"

lemma left_bytes_ReadByte: "ReadByte s = (Ok b, s') \<Longrightarrow> left_bytes s' < left_bytes s"
proof -
  assume r: "ReadByte s = (Ok b, s')"
  have fill: "buf_fill i s = (Ok (), s1) \<Longrightarrow> rd_buf s = [] \<Longrightarrow> rd_buf s1 \<noteq> [] \<and> left_bytes s1 \<le> left_bytes s" for i s s1
  proof (induction i arbitrary: s)
    case (Suc i)
    obtain bs e s2 where c: "conn_Read bufSize s = ((bs, e), s2)" by (metis prod.collapse)
    with Suc.prems have e: "e = None" by (cases e) auto
    note c = c [unfolded e]
    have "rd_buf s2 = [] \<and> left_bytes s2 < left_bytes s" using conn_Read_left [OF c] Suc.prems by (simp add: bufSize_def)
    then show ?case using Suc c conn_Read_full [OF c] by (fastforce split: if_splits)
  qed simp
  obtain r1 s1 where s1: "(if rd_buf s = [] then buf_fill 100 s else (Ok (), s)) = (r1, s1)" by fastforce
  with r have ok: "r1 = Ok ()" and s': "s' = s1\<lparr>rd_buf := tl (rd_buf s1)\<rparr>"
    by (cases r1; auto simp: ReadByte_def bindG_def getsG_def modifyG_def okG_def)+
  have "rd_buf s1 \<noteq> [] \<and> left_bytes s1 \<le> left_bytes s"
    using s1 ok fill [of 100 s s1] by (auto split: if_splits)
  then show ?thesis using s' by (cases "rd_buf s1") (auto simp: left_bytes_def)
qed

text \<open>No step puts bytes back, and a command takes at least its type.\<close>

definition drains :: "serverConn \<Rightarrow> serverConn \<Rightarrow> bool" where
  "drains s s' \<longleftrightarrow> left_bytes s' \<le> left_bytes s"

interpretation dr: frame_rel drains
  by unfold_locales (auto simp: drains_def)

lemma refill_drains: "refill s = (e, s') \<Longrightarrow> drains s s'"
proof (cases e)
  case (Some err)
  assume "refill s = (e, s')"
  with Some have "rd_buf s' = rd_buf s \<and> rd_chunks s' = rd_chunks s"
    by (auto simp: refill_def buf_Read_def buf_take_def conn_Read_def Let_def split: if_splits list.splits prod.splits option.splits)
  then show ?thesis by (simp add: drains_def left_bytes_def)
qed (auto simp: drains_def dest: refill_left)

lemma readValue_drains: "drains s (snd (readValue J s))"
proof (induction J s rule: readValue.induct)
  case (1 J s)
  obtain e s1 where r: "refill s = (e, s1)" by fastforce
  note d = refill_drains [OF r]
  show ?case
  proof (cases "js_Scan J (dc_buf s)")
    case More
    show ?thesis
    proof (cases e)
      case None
      then show ?thesis
        using 1 [OF More] r d dr.frame_trans [OF d] by (subst readValue.simps) (simp add: More)
    next
      case (Some err)
      then show ?thesis using r d by (subst readValue.simps) (simp add: More split: scan.splits)
    qed
  qed (subst readValue.simps, simp add: dr.frame_refl)+
qed

lemma keeps_readValue: "keeps drains (readValue J)"
  by (simp add: keeps_def readValue_drains)

lemma keeps_Decode: "keeps drains (Decode J f)"
  unfolding Decode_def
  by (intro dr.keeps_bind dr.keeps_gets dr.keeps_lift dr.keeps_modify keeps_readValue) (simp add: drains_def left_bytes_def)

lemma keeps_Encode: "keeps drains (Encode v)"
  unfolding Encode_def by (intro dr.keeps_bind dr.keeps_lift dr.keeps_modify) (simp add: drains_def left_bytes_def)

lemma keeps_decodeCommand: "keeps drains (decodeCommand J b)"
  unfolding decodeCommand_def by (intro keeps_if dr.keeps_bind dr.keeps_ok dr.keeps_err keeps_Decode)

lemma keeps_Flush: "keeps drains (Flush flush)"
  unfolding Flush_def
  by (intro dr.keeps_bind dr.keeps_lift dr.keeps_gets dr.keeps_modify) (simp add: drains_def left_bytes_def)

lemma handleCommand_left:
  assumes "handleCommand J serve s = (Ok (), s')"
  shows "left_bytes s' < left_bytes s"
proof -
  let ?log = "\<lambda>cmd. modifyG (\<lambda>s. s\<lparr>dispatched := dispatched s @ [cmd]\<rparr>)"
  have log: "keeps drains (?log cmd)" for cmd by (rule dr.keeps_modify) (simp add: drains_def left_bytes_def)
  have "keeps drains (case serve k cmd of NotTaken \<Rightarrow> errG ErrTransportShutdown
      | NotAnswered \<Rightarrow> bindG (?log cmd) (\<lambda>_. errG ErrTransportShutdown)
      | Answered resp \<Rightarrow> bindG (?log cmd) (\<lambda>_.
          bindG (Encode (js_String J (case rpc_Error resp of None \<Rightarrow> '''' | Some e \<Rightarrow> error_text e))) (\<lambda>_.
          Encode (js_Response J (rpc_Response resp)))))" for k cmd
    by (cases "serve k cmd") (auto intro!: dr.keeps_bind log keeps_Encode dr.keeps_err)
  then have rest: "keeps drains (bindG (decodeCommand J b) (\<lambda>cmd. bindG (getsG (\<lambda>s. length (dispatched s))) (\<lambda>k.
      case serve k cmd of NotTaken \<Rightarrow> errG ErrTransportShutdown
      | NotAnswered \<Rightarrow> bindG (?log cmd) (\<lambda>_. errG ErrTransportShutdown)
      | Answered resp \<Rightarrow> bindG (?log cmd) (\<lambda>_.
          bindG (Encode (js_String J (case rpc_Error resp of None \<Rightarrow> '''' | Some e \<Rightarrow> error_text e))) (\<lambda>_.
          Encode (js_Response J (rpc_Response resp)))))))" for b
    by (intro dr.keeps_bind keeps_decodeCommand dr.keeps_gets)
  obtain b s1 where b: "ReadByte s = (Ok b, s1)" using assms unfolding handleCommand_def by (auto simp: bindG_eq_Ok)
  have "drains s1 s'" using assms b keepsD [OF rest] unfolding handleCommand_def by (simp add: bindG_def)
  then show ?thesis using left_bytes_ReadByte [OF b] by (simp add: drains_def)
qed

lemma serve_left:
  assumes "bindG (handleCommand J serve) (\<lambda>_. Flush flush) s = (Ok u, s')"
  shows "left_bytes s' < left_bytes s"
proof -
  obtain a s1 where "handleCommand J serve s = (Ok a, s1)" and f: "Flush flush s1 = (Ok u, s')"
    using assms by (auto simp: bindG_eq_Ok)
  then have "left_bytes s1 < left_bytes s" using handleCommand_left by simp
  moreover have "drains s1 s'" by (rule keepsD [OF keeps_Flush f])
  ultimately show ?thesis by (simp add: drains_def)
qed

text \<open>\<open>handleConn\<close> returns when a command or the answer to it failed; its deferred statement closes the connection.\<close>

function handleConn :: "json_ops \<Rightarrow> (nat \<Rightarrow> Command \<Rightarrow> served) \<Rightarrow> (nat \<Rightarrow> unit res) \<Rightarrow> unit sc" where
  "handleConn J serve flush s =
     (case bindG (handleCommand J serve) (\<lambda>_. Flush flush) s of
        (Ok _, s') \<Rightarrow> handleConn J serve flush s'
      | (r, s') \<Rightarrow> (r, s'))"
  by pat_completeness auto
termination
  by (relation "measure (\<lambda>(J, serve, flush, s). left_bytes s)") (auto intro: serve_left)

declare handleConn.simps [simp del]

text \<open>\<open>Listen\<close>: what the stream layer accepts, with whether the transport is shut down then.\<close>

fun Listen :: "((go_error + 'conn) \<times> bool) list \<Rightarrow> 'conn list" where
  "Listen [] = []"
| "Listen ((Inl err, shutdown) # rest) = (if shutdown then [] else Listen rest)"
| "Listen ((Inr conn, shutdown) # rest) = conn # Listen rest"

section \<open>Framing\<close>

text \<open>What a client sends for a command: the type, the text of the value, and the newline of the encoder.\<close>

type_synonym request = "byte \<times> byte list \<times> Command"

definition frame_bytes :: "request \<Rightarrow> byte list" where
  "frame_bytes = (\<lambda>(ty, body, cmd). ty # body @ [10])"

definition command_of :: "json_ops \<Rightarrow> byte \<Rightarrow> byte list \<Rightarrow> Command res" where
  "command_of J ty bs =
     (if ty = rpcSync then bindO (js_SyncRequest J bs) (\<lambda>r. Ok (SyncCmd r))
      else if ty = rpcEagerSync then bindO (js_EagerSyncRequest J bs) (\<lambda>r. Ok (EagerSyncCmd r))
      else if ty = rpcFastForward then bindO (js_FastForwardRequest J bs) (\<lambda>r. Ok (FastForwardCmd r))
      else if ty = rpcJoin then bindO (js_JoinRequest J bs) (\<lambda>r. Ok (JoinCmd r))
      else Err (Errorf ''''))"

text \<open>The text of an object is complete at its closing brace, whatever follows; a newline before it does not matter; an empty
  text is not complete.\<close>

definition json_text :: "json_ops \<Rightarrow> request \<Rightarrow> bool" where
  "json_text J = (\<lambda>(ty, body, cmd).
     js_Scan J [] = More \<and> js_Scan J [10] = More \<and>
     (\<forall>ws \<in> {[], [10]}. command_of J ty (ws @ body) = Ok cmd \<and>
        (\<forall>rest. js_Scan J (ws @ body @ rest) = Complete (length ws + length body))))"

lemma ReadByte_chunk:
  assumes "rd_buf s = []" and "rd_chunks s = (b # bs) # cs" and "length bs < bufSize"
  shows "ReadByte s = (Ok b, s\<lparr>rd_buf := bs, rd_chunks := cs\<rparr>)"
proof -
  have "buf_fill (Suc i) s = (Ok (), s\<lparr>rd_chunks := cs, rd_buf := b # bs\<rparr>)" for i
    using assms by (simp add: conn_Read_def)
  from this [of 99] show ?thesis
    using assms(1) by (simp del: buf_fill.simps add: ReadByte_def bindG_def getsG_def modifyG_def okG_def)
qed

lemma refill_buffered:
  assumes "rd_buf s \<noteq> []" and "length (rd_buf s) \<le> minRead"
  shows "\<exists>room. refill s = (None, s\<lparr>rd_buf := [], dc_buf := dc_buf s @ rd_buf s, dc_room := room\<rparr>)"
  using assms by (auto simp: refill_def buf_Read_def buf_take_def Let_def)

lemma readValue_now: "js_Scan J (dc_buf s) = Complete n \<Longrightarrow> readValue J s = (Ok n, s)"
  by (subst readValue.simps) simp

lemma readValue_refill: "js_Scan J (dc_buf s) = More \<Longrightarrow> refill s = (None, s') \<Longrightarrow> readValue J s = readValue J s'"
  by (subst readValue.simps) simp

lemma decodeCommand_value:
  assumes "readValue J s = (Ok n, s1)" and "command_of J ty (take n (dc_buf s1)) = Ok cmd"
  shows "decodeCommand J ty s = (Ok cmd, s1\<lparr>dc_buf := drop n (dc_buf s1), dc_room := dc_room s1 + n\<rparr>)"
  using assms
  by (auto simp: decodeCommand_def command_of_def Decode_def bindG_def getsG_def modifyG_def liftO_def okG_def bindO_eq_Ok
      split: if_splits)

text \<open>The bytes of an answer.\<close>

definition reply_bytes :: "(string \<Rightarrow> byte list) \<Rightarrow> (Response option \<Rightarrow> byte list) \<Rightarrow> RPCResponse \<Rightarrow> byte list" where
  "reply_bytes es er resp =
     es (case rpc_Error resp of None \<Rightarrow> '''' | Some e \<Rightarrow> error_text e) @ [10] @ er (rpc_Response resp) @ [10]"

text \<open>A connection between two commands.\<close>

definition idle :: "byte list list \<Rightarrow> Command list \<Rightarrow> byte list \<Rightarrow> serverConn \<Rightarrow> bool" where
  "idle cs log out s \<longleftrightarrow>
     rd_buf s = [] \<and> rd_chunks s = cs \<and> rd_end s = io_EOF \<and> dc_buf s \<in> {[], [10]} \<and> wr_buf s = [] \<and> wr_sent s = out \<and> dispatched s = log"

definition prompt_server :: "json_ops \<Rightarrow> (string \<Rightarrow> byte list) \<Rightarrow> (Response option \<Rightarrow> byte list) \<Rightarrow> (nat \<Rightarrow> unit res) \<Rightarrow> bool" where
  "prompt_server J es er flush \<longleftrightarrow> js_String J = (\<lambda>e. Ok (es e)) \<and> js_Response J = (\<lambda>r. Ok (er r)) \<and> flush = (\<lambda>_. Ok ())"

lemma answer_command:
  assumes "prompt_server J es er flush" and "ReadByte s = (Ok ty, s1)" and "decodeCommand J ty s1 = (Ok cmd, s2)"
  shows "bindG (handleCommand J (\<lambda>k cmd. Answered (answer k cmd))) (\<lambda>_. Flush flush) s =
    (Ok (), s2\<lparr>dispatched := dispatched s2 @ [cmd], wr_buf := [],
       wr_sent := wr_sent s2 @ wr_buf s2 @ reply_bytes es er (answer (length (dispatched s2)) cmd)\<rparr>)"
  using assms
  by (simp add: handleCommand_def Flush_def Encode_def prompt_server_def reply_bytes_def bindG_def getsG_def modifyG_def
      liftO_def okG_def)

lemma small_command:
  assumes J: "json_text J (ty, body, cmd)" and "length body < minRead" and srv: "prompt_server J es er flush"
    and i: "idle (frame_bytes (ty, body, cmd) # cs) log out s"
  shows "\<exists>s'. bindG (handleCommand J (\<lambda>k cmd. Answered (answer k cmd))) (\<lambda>_. Flush flush) s = (Ok (), s') \<and>
    idle cs (log @ [cmd]) (out @ reply_bytes es er (answer (length log) cmd)) s'"
proof -
  let ?ws = "dc_buf s" and ?s1 = "s\<lparr>rd_buf := body @ [10], rd_chunks := cs\<rparr>"
  have ws: "?ws \<in> {[], [10]}" using i by (simp add: idle_def)
  have type: "ReadByte s = (Ok ty, ?s1)"
    using i assms(2) by (intro ReadByte_chunk) (auto simp: idle_def frame_bytes_def minRead_def bufSize_def)
  obtain room where fill: "refill ?s1 = (None, ?s1\<lparr>rd_buf := [], dc_buf := ?ws @ body @ [10], dc_room := room\<rparr>)"
    using refill_buffered [of ?s1] assms(2) by auto
  let ?s2 = "?s1\<lparr>rd_buf := [], dc_buf := ?ws @ body @ [10], dc_room := room\<rparr>" and ?n = "length ?ws + length body"
  have scan: "js_Scan J ?ws = More" "js_Scan J (?ws @ body @ [10]) = Complete ?n" "command_of J ty (?ws @ body) = Ok cmd"
    using J ws by (auto simp: json_text_def)
  then have "readValue J ?s1 = (Ok ?n, ?s2)"
    by (simp add: readValue_refill [OF _ fill] readValue_now)
  then have "decodeCommand J ty ?s1 = (Ok cmd, ?s2\<lparr>dc_buf := [10], dc_room := room + ?n\<rparr>)"
    using decodeCommand_value [of J ?s1 ?n ?s2 ty cmd] scan(3) by simp
  from answer_command [OF srv type this] i show ?thesis by (simp add: idle_def)
qed

lemma end_of_input: "idle [] log out s \<Longrightarrow> \<exists>s'. handleConn J serve flush s = (Err io_EOF, s') \<and> idle [] log out s'"
proof -
  assume i: "idle [] log out s"
  have "buf_fill (Suc k) s = (Err io_EOF, s)" for k using i by (simp add: conn_Read_def idle_def)
  from this [of 99] i show ?thesis
    by (simp del: buf_fill.simps add: handleConn.simps handleCommand_def ReadByte_def bindG_def idle_def)
qed

text \<open>C25: Requests shorter than 512 bytes, each delivered in one piece, are framed correctly whatever their number: \<open>handleConn\<close>
  gives the node exactly the commands sent, in order, sends back the answers in order, and ends with the end of
  the input.\<close>

theorem small_requests_served:
  assumes "\<forall>req \<in> set reqs. json_text J req \<and> length (fst (snd req)) < minRead" and "prompt_server J es er flush"
  shows "\<exists>s'. handleConn J (\<lambda>k cmd. Answered (answer k cmd)) flush (NewServerConn (map frame_bytes reqs) io_EOF) = (Err io_EOF, s') \<and>
     dispatched s' = map (snd \<circ> snd) reqs \<and>
     wr_sent s' = concat (map (\<lambda>(k, ty, body, cmd). reply_bytes es er (answer k cmd)) (enumerate 0 reqs))"
proof -
  have "\<exists>s'. handleConn J (\<lambda>k cmd. Answered (answer k cmd)) flush s = (Err io_EOF, s') \<and>
      dispatched s' = log @ map (snd \<circ> snd) reqs \<and>
      wr_sent s' = out @ concat (map (\<lambda>(k, ty, body, cmd). reply_bytes es er (answer k cmd)) (enumerate (length log) reqs))"
    if "idle (map frame_bytes reqs) log out s" for log out s
    using that assms(1)
  proof (induction reqs arbitrary: log out s)
    case Nil
    then show ?case using end_of_input [of log out s] by (fastforce simp: idle_def)
  next
    case (Cons req reqs)
    obtain ty body cmd where req: "req = (ty, body, cmd)" by (rule prod_cases3)
    have J: "json_text J (ty, body, cmd)" "length body < minRead" using Cons.prems(2) req by simp_all
    have i: "idle (frame_bytes (ty, body, cmd) # map frame_bytes reqs) log out s" using Cons.prems(1) req by simp
    obtain s1 where s1: "bindG (handleCommand J (\<lambda>k cmd. Answered (answer k cmd))) (\<lambda>_. Flush flush) s = (Ok (), s1)"
      and i1: "idle (map frame_bytes reqs) (log @ [cmd]) (out @ reply_bytes es er (answer (length log) cmd)) s1"
      using small_command [OF J assms(2) i] by blast
    from Cons.IH [OF i1] Cons.prems(2) s1 show ?case by (simp add: handleConn.simps [of _ _ _ s] req)
  qed
  from this [of "[]" "[]" "NewServerConn (map frame_bytes reqs) io_EOF"] show ?thesis
    by (simp add: idle_def NewServerConn_def)
qed

text \<open>A model of JSON for examples: an object without strings or nested objects, of any content, which stands for one
  \<open>SyncRequest\<close>.\<close>

definition brace_json :: json_ops where
  "brace_json =
     \<lparr>js_Scan = (\<lambda>b. let n = length (takeWhile (\<lambda>c. c \<noteq> 125) b) in if n < length b then Complete (Suc n) else More),
      js_SyncRequest = (\<lambda>_. Ok sync_request), js_EagerSyncRequest = (\<lambda>_. Err (Errorf '''')),
      js_FastForwardRequest = (\<lambda>_. Err (Errorf '''')), js_JoinRequest = (\<lambda>_. Err (Errorf '''')),
      js_String = (\<lambda>_. Ok [34, 34]), js_Response = (\<lambda>_. Ok [123, 125])\<rparr>"

definition padded_request :: "nat \<Rightarrow> request" where
  "padded_request n = (rpcSync, 123 # replicate n 32 @ [125], SyncCmd sync_request)"

lemma padded_request_text: "json_text brace_json (padded_request n)"
proof -
  have "takeWhile (\<lambda>c. c \<noteq> (125 :: byte)) (replicate n 32 @ 125 # rest) = replicate n 32" for rest
    by (induction n) auto
  then show ?thesis
    by (auto simp: json_text_def padded_request_def brace_json_def command_of_def rpcSync_def Let_def)
qed

lemma brace_server: "prompt_server brace_json (\<lambda>_. [34, 34]) (\<lambda>_. [123, 125]) (\<lambda>_. Ok ())"
  by (simp add: prompt_server_def brace_json_def)

theorem small_requests_served_witness:
  "\<exists>s'. handleConn brace_json (\<lambda>k cmd. Answered (Respond None None)) (\<lambda>_. Ok ())
        (NewServerConn (map frame_bytes [padded_request 0, padded_request 509]) io_EOF) = (Err io_EOF, s') \<and>
     dispatched s' = [SyncCmd sync_request, SyncCmd sync_request]"
proof -
  have "\<forall>req \<in> set [padded_request 0, padded_request 509]. json_text brace_json req \<and> length (fst (snd req)) < minRead"
    by (simp add: padded_request_text) (simp add: padded_request_def minRead_def)
  from small_requests_served [OF this brace_server, of "\<lambda>_ _. Respond None None"] obtain s'
    where "handleConn brace_json (\<lambda>k cmd. Answered (Respond None None)) (\<lambda>_. Ok ())
        (NewServerConn (map frame_bytes [padded_request 0, padded_request 509]) io_EOF) = (Err io_EOF, s')"
      and "dispatched s' = map (snd \<circ> snd) [padded_request 0, padded_request 509]" by blast
  moreover have "map (snd \<circ> snd) [padded_request 0, padded_request 509] = [SyncCmd sync_request, SyncCmd sync_request]"
    by (simp add: padded_request_def)
  ultimately show ?thesis by metis
qed

text \<open>C26: The bound is sharp. On a new connection the decoder's buffer is 512 bytes: after a request of exactly that size,
  the newline that ends it is still in the reader's buffer, from which the next type is read. The first command is
  served; then the connection is closed with \<open>unknown rpc type 10\<close>, whatever the client sends next.\<close>

theorem newline_read_as_type:
  assumes J: "json_text J (ty, body, cmd)" and len: "length body = minRead" and srv: "prompt_server J es er flush"
  shows "\<exists>s'. handleConn J (\<lambda>k cmd. Answered (answer k cmd)) flush (NewServerConn (frame_bytes (ty, body, cmd) # cs) end_err) =
       (Err (Errorf ''unknown rpc type 10''), s') \<and> dispatched s' = [cmd]"
proof -
  let ?s = "NewServerConn (frame_bytes (ty, body, cmd) # cs) end_err"
  let ?s1 = "?s\<lparr>rd_buf := body @ [10], rd_chunks := cs\<rparr>"
  let ?s2 = "?s1\<lparr>rd_buf := [10], dc_buf := body, dc_room := 0\<rparr>"
  have type: "ReadByte ?s = (Ok ty, ?s1)"
    by (rule ReadByte_chunk) (simp_all add: NewServerConn_def frame_bytes_def len minRead_def bufSize_def)
  have fill: "refill ?s1 = (None, ?s2)"
    using len by (simp add: refill_def buf_Read_def buf_take_def NewServerConn_def minRead_def)
  have scan: "js_Scan J [] = More" "js_Scan J body = Complete (length body)" "command_of J ty body = Ok cmd"
    using J spec [of "\<lambda>rest. js_Scan J (body @ rest) = Complete (length body)" "[]"] by (auto simp: json_text_def)
  have "readValue J ?s1 = readValue J ?s2"
    by (rule readValue_refill [OF _ fill]) (simp add: NewServerConn_def scan)
  also have "readValue J ?s2 = (Ok (length body), ?s2)" by (rule readValue_now) (simp add: scan)
  finally have "decodeCommand J ty ?s1 = (Ok cmd, ?s2\<lparr>dc_buf := [], dc_room := length body\<rparr>)"
    using decodeCommand_value [of J ?s1 "length body" ?s2 ty cmd] scan(3) by simp
  note first = answer_command [OF srv type this, of answer]
  have "itoa 10 = ''10''" by code_simp
  then have second: "bindG (handleCommand J serve) (\<lambda>_. Flush flush) s = (Err (Errorf ''unknown rpc type 10''), s\<lparr>rd_buf := []\<rparr>)"
    if "rd_buf s = [10]" for s serve
    using that by (simp add: handleCommand_def ReadByte_def decodeCommand_def rpcSync_def rpcEagerSync_def rpcFastForward_def
        rpcJoin_def bindG_def getsG_def modifyG_def okG_def errG_def)
  show ?thesis
    by (subst handleConn.simps, subst first, simp, subst handleConn.simps, subst second) (simp_all add: NewServerConn_def)
qed

theorem newline_read_as_type_witness:
  "\<exists>s'. handleConn brace_json (\<lambda>k cmd. Answered (Respond None None)) (\<lambda>_. Ok ())
        (NewServerConn (map frame_bytes [padded_request 510, padded_request 0]) io_EOF) =
      (Err (Errorf ''unknown rpc type 10''), s') \<and> dispatched s' = [SyncCmd sync_request]"
  using newline_read_as_type [OF padded_request_text [of 510, unfolded padded_request_def] _ brace_server,
      of "\<lambda>_ _. Respond None None" "[frame_bytes (padded_request 0)]" io_EOF]
  by (simp add: minRead_def padded_request_def)

end
