(* ===== verification/Key_Files.thy ===== *)
theory Key_Files
  imports Keys
begin

text \<open>
  \<open>src/src/crypto/keys/private_key.go\<close>, \<open>key_reader_writer.go\<close> and \<open>curve.go\<close>: private keys as bytes and as
  text in a file. The elliptic curve comes from a third-party package and is a parameter: its size in bits
  and the multiplication of its base point, \<open>None\<close> when the point has no coordinates. Files are a parameter,
  \<open>file_ops\<close>. A word of \<open>math/big\<close> has 64 bits, as on the supported platforms, and the text of a key file is
  ASCII.
\<close>

section \<open>Natural numbers of \<open>math/big\<close>\<close>

text \<open>\<open>Bits\<close>: little-endian words without leading zeros; \<open>BitLen\<close>, \<open>Bytes\<close> and \<open>SetBytes\<close>.\<close>

function big_Bits :: "int \<Rightarrow> 64 word list" where
  "big_Bits n = (if n \<le> 0 then [] else word_of_int n # big_Bits (n div 2 ^ 64))"
  by pat_completeness auto
termination
proof (relation "measure nat")
  fix n :: int
  assume "\<not> n \<le> 0"
  then have "n div 2 ^ 64 < n" by (simp add: int_div_less_self)
  then show "(n div 2 ^ 64, n) \<in> measure nat" using \<open>\<not> n \<le> 0\<close> by simp
qed simp

function big_BitLen :: "int \<Rightarrow> nat" where
  "big_BitLen n = (if n \<le> 0 then 0 else Suc (big_BitLen (n div 2)))"
  by pat_completeness auto
termination
proof (relation "measure nat")
  fix n :: int
  assume "\<not> n \<le> 0"
  then have "n div 2 < n" by (simp add: int_div_less_self)
  then show "(n div 2, n) \<in> measure nat" using \<open>\<not> n \<le> 0\<close> by simp
qed simp

function big_Bytes :: "int \<Rightarrow> byte list" where
  "big_Bytes n = (if n \<le> 0 then [] else big_Bytes (n div 256) @ [word_of_int n])"
  by pat_completeness auto
termination
proof (relation "measure nat")
  fix n :: int
  assume "\<not> n \<le> 0"
  then have "n div 256 < n" by (simp add: int_div_less_self)
  then show "(n div 256, n) \<in> measure nat" using \<open>\<not> n \<le> 0\<close> by simp
qed simp

declare big_Bits.simps [simp del] big_BitLen.simps [simp del] big_Bytes.simps [simp del]

definition big_SetBytes :: "byte list \<Rightarrow> int" where
  "big_SetBytes bs = foldl (\<lambda>a b. a * 256 + uint b) 0 bs"

section \<open>Private keys\<close>

definition secp256k1N :: int where
  "secp256k1N = 0xfffffffffffffffffffffffffffffffebaaedce6af48a03bbfd25e8cd0364141"

record 'p curve_ops =
  cv_BitSize :: nat
  cv_ScalarBaseMult :: "byte list \<Rightarrow> 'p option"

record 'p PrivateKey =
  pk_D :: int
  pk_PublicKey :: 'p

definition wordBytes :: nat where
  "wordBytes = 8"

text \<open>The inner loop of \<open>readBits\<close> on one word, with the position in the buffer.\<close>

primrec read_word :: "nat \<Rightarrow> 64 word \<Rightarrow> nat \<times> byte list \<Rightarrow> nat \<times> byte list" where
  "read_word 0 d s = s"
| "read_word (Suc j) d s =
     (case s of (i, buf) \<Rightarrow>
        if i > 0 then read_word j (drop_bit 8 d) (i - 1, buf[i - 1 := ucast d]) else (i, buf))"

definition readBits :: "int \<Rightarrow> byte list \<Rightarrow> byte list" where
  "readBits bigint buf = snd (foldl (\<lambda>s d. read_word wordBytes d s) (length buf, buf) (big_Bits bigint))"

definition paddedBigBytes :: "int \<Rightarrow> nat \<Rightarrow> byte list" where
  "paddedBigBytes bigint n =
     (if big_BitLen bigint div 8 \<ge> n then big_Bytes bigint else readBits bigint (replicate n 0))"

definition DumpPrivateKey :: "'p curve_ops \<Rightarrow> 'p PrivateKey option \<Rightarrow> byte list" where
  "DumpPrivateKey C priv = (case priv of None \<Rightarrow> [] | Some k \<Rightarrow> paddedBigBytes (pk_D k) (cv_BitSize C div 8))"

definition ParsePrivateKey :: "'p curve_ops \<Rightarrow> byte list \<Rightarrow> 'p PrivateKey res" where
  "ParsePrivateKey C d =
     (if 8 * length d \<noteq> cv_BitSize C
      then Err (Errorf (''invalid length, need '' @ itoa (int (cv_BitSize C)) @ '' bits''))
      else
        let D = big_SetBytes d in
        if D \<ge> secp256k1N then Err (Errorf ''invalid private key, >=N'')
        else if D \<le> 0 then Err (Errorf ''invalid private key, zero or negative'')
        else (case cv_ScalarBaseMult C d of
                None \<Rightarrow> Err (Errorf ''invalid private key'')
              | Some pub \<Rightarrow> Ok \<lparr>pk_D = D, pk_PublicKey = pub\<rparr>))"

text \<open>\<open>encoding/hex\<close> writes lower-case digits.\<close>

definition hex_lower :: "nat \<Rightarrow> char" where
  "hex_lower d = (if d < 10 then char_of (48 + d) else char_of (87 + d))"

definition hex_EncodeToString :: "byte list \<Rightarrow> string" where
  "hex_EncodeToString bs = concat (map (\<lambda>b. [hex_lower (unat b div 16), hex_lower (unat b mod 16)]) bs)"

definition PrivateKeyHex :: "'p curve_ops \<Rightarrow> 'p PrivateKey option \<Rightarrow> string" where
  "PrivateKeyHex C k = hex_EncodeToString (DumpPrivateKey C k)"

section \<open>Key files\<close>

text \<open>\<open>strings.TrimSpace\<close> on ASCII text.\<close>

definition is_space :: "char \<Rightarrow> bool" where
  "is_space c \<longleftrightarrow> (of_char c :: nat) \<in> {9, 10, 11, 12, 13, 32}"

definition TrimSpace :: "string \<Rightarrow> string" where
  "TrimSpace s = rev (dropWhile is_space (rev (dropWhile is_space s)))"

record 'fs file_ops =
  fs_ReadFile :: "string \<Rightarrow> 'fs \<Rightarrow> string res"
  fs_MkdirAll :: "string \<Rightarrow> 'fs \<Rightarrow> unit res \<times> 'fs"
  fs_WriteFile :: "string \<Rightarrow> string \<Rightarrow> 'fs \<Rightarrow> unit res \<times> 'fs"
  fs_Dir :: "string \<Rightarrow> string"

definition ReadKey :: "'fs file_ops \<Rightarrow> 'p curve_ops \<Rightarrow> string \<Rightarrow> 'fs \<Rightarrow> 'p PrivateKey res" where
  "ReadKey F C keyfile fs =
     bindO (fs_ReadFile F keyfile fs) (\<lambda>buf.
     case hex_DecodeString (TrimSpace buf) of
       (_, Some err) \<Rightarrow> Err err
     | (key, None) \<Rightarrow> ParsePrivateKey C key)"

definition WriteKey :: "'fs file_ops \<Rightarrow> 'p curve_ops \<Rightarrow> string \<Rightarrow> 'p PrivateKey option \<Rightarrow> ('fs, unit) go" where
  "WriteKey F C keyfile key =
     (let rawKey = hex_EncodeToString (DumpPrivateKey C key) in
      bindG (fs_MkdirAll F (fs_Dir F keyfile)) (\<lambda>_. fs_WriteFile F keyfile rawKey))"

section \<open>Big-endian bytes\<close>

text \<open>The reference: the last \<open>k\<close> bytes of a number.\<close>

primrec be_bytes :: "nat \<Rightarrow> int \<Rightarrow> byte list" where
  "be_bytes 0 n = []"
| "be_bytes (Suc k) n = be_bytes k (n div 256) @ [word_of_int n]"

lemma length_be_bytes [simp]: "length (be_bytes k n) = k"
  by (induction k arbitrary: n) simp_all

lemma be_bytes_zero [simp]: "be_bytes k 0 = replicate k 0"
  by (induction k) (simp_all add: replicate_append_same)

lemma be_bytes_add: "be_bytes (a + b) n = be_bytes a (n div 256 ^ b) @ be_bytes b n"
  by (induction b arbitrary: n) (simp_all add: zdiv_zmult2_eq [symmetric])

lemma word8_of_mod: "(word_of_int (n mod 256) :: byte) = word_of_int n"
  by (simp add: word_uint_eq_iff uint_word_of_int)

lemma be_bytes_mod: "be_bytes k (n mod 256 ^ k) = be_bytes k n"
proof (induction k arbitrary: n)
  case (Suc k)
  have "n mod 256 ^ Suc k div 256 = n div 256 mod 256 ^ k"
    by (simp add: zmod_zmult2_eq)
  moreover have "(word_of_int (n mod 256 ^ Suc k) :: byte) = word_of_int n"
    using word8_of_mod [of "n mod 256 ^ Suc k"] word8_of_mod [of n]
    by (simp add: mod_mod_cancel)
  ultimately show ?case using Suc.IH [of "n div 256"] by simp
qed simp

lemma SetBytes_append: "big_SetBytes (bs @ [b]) = big_SetBytes bs * 256 + uint b"
  by (simp add: big_SetBytes_def)

lemma SetBytes_be_bytes: "big_SetBytes (be_bytes k n) = n mod 256 ^ k"
proof (induction k arbitrary: n)
  case (Suc k)
  have "uint (word_of_int n :: byte) = n mod 256"
    by (simp add: uint_word_of_int)
  then have "big_SetBytes (be_bytes (Suc k) n) = (n div 256 mod 256 ^ k) * 256 + n mod 256"
    by (simp add: SetBytes_append Suc.IH)
  also have "\<dots> = n mod (256 * 256 ^ k)" by (simp add: zmod_zmult2_eq)
  finally show ?case by simp
qed (simp add: big_SetBytes_def)

section \<open>The optimised encoder\<close>

lemma read_word_bytes:
  "read_word j d (i, replicate i 0 @ suf) =
     (i - min i j, replicate (i - min i j) 0 @ be_bytes (min i j) (uint d) @ suf)"
proof (induction j arbitrary: d i suf)
  case (Suc j)
  show ?case
  proof (cases i)
    case (Suc i')
    have upd: "(replicate (Suc i') 0 @ suf)[i' := ucast d] = replicate i' 0 @ (ucast d # suf)"
      by (induction i') simp_all
    have "uint (drop_bit 8 d) = uint d div 256"
      by (simp add: drop_bit_eq_div uint_div_distrib)
    moreover have "(word_of_int (uint d) :: byte) = ucast d"
      by (simp add: unsigned_ucast_eq)
    ultimately show ?thesis
      using upd Suc.IH [of "drop_bit 8 d" i' "ucast d # suf"] Suc by simp
  qed simp
qed simp

lemma foldl_read_word:
  "snd (foldl (\<lambda>s d. read_word wordBytes d s) (i, replicate i 0 @ suf) (big_Bits n)) =
     (if n \<le> 0 then replicate i 0 else be_bytes i n) @ suf"
proof (induction n arbitrary: i suf rule: big_Bits.induct)
  case (1 n)
  show ?case
  proof (cases "n \<le> 0")
    case True
    then show ?thesis by (simp add: big_Bits.simps [of n])
  next
    case False
    let ?m = "min i 8" and ?w = "word_of_int n :: 64 word"
    have w: "uint ?w = n mod 256 ^ 8" by (simp add: uint_word_of_int)
    have low: "be_bytes ?m (uint ?w) = be_bytes ?m n"
    proof -
      have "n mod 256 ^ 8 mod 256 ^ ?m = n mod (256 :: int) ^ ?m"
        by (rule mod_mod_cancel) (rule le_imp_power_dvd, simp)
      then show ?thesis using be_bytes_mod [of ?m "n mod 256 ^ 8"] be_bytes_mod [of ?m n] w by simp
    qed
    have high: "(if n div 2 ^ 64 \<le> 0 then replicate (i - ?m) 0 else be_bytes (i - ?m) (n div 2 ^ 64)) =
        be_bytes (i - ?m) (n div 256 ^ ?m)"
    proof (cases "i \<le> 8")
      case False
      have "0 \<le> n div 2 ^ 64" using \<open>\<not> n \<le> 0\<close> by (simp add: pos_imp_zdiv_nonneg_iff)
      then show ?thesis using False by (cases "n div 2 ^ 64 = 0") (simp_all add: min_def)
    qed (simp add: min_def)
    have "snd (foldl (\<lambda>s d. read_word wordBytes d s) (i, replicate i 0 @ suf) (big_Bits n)) =
        be_bytes (i - ?m) (n div 256 ^ ?m) @ be_bytes ?m n @ suf"
      using 1 False high low
      by (simp add: big_Bits.simps [of n] read_word_bytes wordBytes_def)
    then show ?thesis using False be_bytes_add [of "i - ?m" ?m n] by simp
  qed
qed

lemma readBits_be_bytes: "0 \<le> n \<Longrightarrow> readBits n (replicate k 0) = be_bytes k n"
  using foldl_read_word [of k "[]" n] by (cases "n = 0") (simp_all add: readBits_def)

lemma big_BitLen_ge: "0 \<le> n \<Longrightarrow> Suc k \<le> big_BitLen n \<Longrightarrow> 2 ^ k \<le> n"
proof (induction k arbitrary: n)
  case 0
  then show ?case by (subst (asm) big_BitLen.simps) (simp split: if_splits)
next
  case (Suc k)
  then have "2 ^ k \<le> n div 2" by (subst (asm) (2) big_BitLen.simps) (simp split: if_splits)
  then show ?case by simp
qed

lemma big_Bytes_be_bytes: "256 ^ k \<le> n \<Longrightarrow> n < 256 ^ Suc k \<Longrightarrow> big_Bytes n = be_bytes (Suc k) n"
proof (induction k arbitrary: n)
  case 0
  then show ?case by (simp add: big_Bytes.simps [of n] big_Bytes.simps [of 0])
next
  case (Suc k)
  have "256 ^ k \<le> n div 256" "n div 256 < 256 ^ Suc k" using Suc.prems by simp_all
  then have "big_Bytes (n div 256) = be_bytes (Suc k) (n div 256)" by (rule Suc.IH)
  moreover have "0 < n" by (rule less_le_trans [OF _ Suc.prems(1)]) simp
  ultimately show ?case by (simp add: big_Bytes.simps [of n])
qed

lemma paddedBigBytes_be_bytes:
  assumes "0 \<le> n" and "n < 256 ^ k" and "0 < k"
  shows "paddedBigBytes n k = be_bytes k n"
proof (cases "k \<le> big_BitLen n div 8")
  case True
  obtain j where k: "k = Suc j" using assms(3) by (cases k) auto
  have "Suc (8 * j + 7) \<le> big_BitLen n" using True k by simp
  then have "2 ^ (8 * j + 7) \<le> n" by (rule big_BitLen_ge [OF assms(1)])
  moreover have "(256 :: int) ^ j \<le> 2 ^ (8 * j + 7)"
    by (simp add: power_add power_mult)
  ultimately have "256 ^ j \<le> n" by simp
  then show ?thesis using True assms(2) big_Bytes_be_bytes k by (simp add: paddedBigBytes_def)
qed (simp add: paddedBigBytes_def readBits_be_bytes assms(1))

section \<open>Keys survive the file\<close>

lemma from_hex_char_lower: "d < 16 \<Longrightarrow> from_hex_char (hex_lower d) = Some d"
  by (auto simp: from_hex_char_def hex_lower_def Let_def)

lemma hex_lower_not_space: "d < 16 \<Longrightarrow> \<not> is_space (hex_lower d)"
  by (auto simp: is_space_def hex_lower_def)

lemma byte_halves: "unat (b :: byte) div 16 < 16" "unat b mod 16 < 16"
  "(of_nat (16 * (unat b div 16) + unat b mod 16) :: byte) = b"
proof -
  have "unat b < 2 ^ LENGTH(8)" by (rule unsigned_less)
  then show "unat b div 16 < 16" by simp
qed simp_all

lemma hex_DecodeString_lower: "hex_DecodeString (hex_EncodeToString bs) = (bs, None)"
proof (induction bs)
  case (Cons b bs)
  then show ?case
    using byte_halves [of b] by (simp add: hex_EncodeToString_def from_hex_char_lower del: of_nat_add of_nat_mult)
qed (simp add: hex_EncodeToString_def)

lemma hex_EncodeToString_chars: "c \<in> set (hex_EncodeToString bs) \<Longrightarrow> \<not> is_space c"
  by (auto simp: hex_EncodeToString_def hex_lower_not_space byte_halves)

lemma TrimSpace_id: "(\<And>c. c \<in> set s \<Longrightarrow> \<not> is_space c) \<Longrightarrow> TrimSpace s = s"
  unfolding TrimSpace_def by (metis dropWhile_id rev_rev_ident set_rev)

lemma length_hex_EncodeToString: "length (hex_EncodeToString bs) = 2 * length bs"
  by (induction bs) (simp_all add: hex_EncodeToString_def)

text \<open>What is relied on: a file that was written reads back.\<close>

definition fs_ok :: "'fs file_ops \<Rightarrow> bool" where
  "fs_ok F \<longleftrightarrow> (\<forall>path text fs fs'. fs_WriteFile F path text fs = (Ok (), fs') \<longrightarrow> fs_ReadFile F path fs' = Ok text)"

text \<open>A key as the parser returns them: its number is in the range of the curve, and its point belongs to it.\<close>

definition key_wf :: "'p curve_ops \<Rightarrow> 'p PrivateKey \<Rightarrow> bool" where
  "key_wf C k \<longleftrightarrow>
     0 < pk_D k \<and> pk_D k < secp256k1N \<and> cv_ScalarBaseMult C (be_bytes 32 (pk_D k)) = Some (pk_PublicKey k)"

lemma DumpPrivateKey_wf: "cv_BitSize C = 256 \<Longrightarrow> key_wf C k \<Longrightarrow> DumpPrivateKey C (Some k) = be_bytes 32 (pk_D k)"
  by (simp add: DumpPrivateKey_def key_wf_def paddedBigBytes_be_bytes secp256k1N_def)

lemma Parse_Dump:
  assumes "cv_BitSize C = 256" and "key_wf C k"
  shows "ParsePrivateKey C (DumpPrivateKey C (Some k)) = Ok k"
proof -
  have "big_SetBytes (be_bytes 32 (pk_D k)) = pk_D k"
    using assms(2) by (simp add: SetBytes_be_bytes key_wf_def secp256k1N_def)
  then show ?thesis
    using assms by (simp add: DumpPrivateKey_wf) (simp add: ParsePrivateKey_def key_wf_def Let_def)
qed

text \<open>Every key that is parsed is such a key, if the point is a function of the number.\<close>

lemma be_bytes_SetBytes: "be_bytes (length bs) (big_SetBytes bs) = bs"
proof (induction bs rule: rev_induct)
  case (snoc b bs)
  have "(big_SetBytes bs * 256 + uint b) div 256 = big_SetBytes bs"
    using uint_lt2p [of b] by simp
  moreover have "(word_of_int (big_SetBytes bs * 256 + uint b) :: byte) = b"
    using word8_of_mod [of "big_SetBytes bs * 256 + uint b"] uint_lt2p [of b] by simp
  ultimately show ?case using snoc by (simp add: SetBytes_append)
qed simp

lemma Parse_wf:
  assumes "cv_BitSize C = 256" and "ParsePrivateKey C d = Ok k"
  shows "key_wf C k \<and> DumpPrivateKey C (Some k) = d"
proof -
  have len: "length d = 32" and k: "pk_D k = big_SetBytes d" "0 < pk_D k" "pk_D k < secp256k1N"
      "cv_ScalarBaseMult C d = Some (pk_PublicKey k)"
    using assms by (auto simp: ParsePrivateKey_def Let_def split: if_splits option.splits)
  have d: "be_bytes 32 (pk_D k) = d" using be_bytes_SetBytes [of d] len k(1) by simp
  then have "key_wf C k" using k by (simp add: key_wf_def)
  then show ?thesis using DumpPrivateKey_wf [OF assms(1)] d by simp
qed

text \<open>C30: A private key survives its file, whatever its leading zeros: when writing a key of the curve succeeds,
  reading the file returns the same key. Conversely the file of a key that was parsed from 32 bytes is the
  hexadecimal text of exactly these bytes, 64 characters long.\<close>

theorem key_file_roundtrip:
  assumes "fs_ok F" and "cv_BitSize C = 256" and "WriteKey F C path (Some k) fs = (Ok (), fs')"
  shows "(key_wf C k \<longrightarrow> ReadKey F C path fs' = Ok k) \<and>
    (\<forall>d. ParsePrivateKey C d = Ok k \<longrightarrow> fs_ReadFile F path fs' = Ok (hex_EncodeToString d) \<and>
       length (hex_EncodeToString d) = 64)"
proof -
  have written: "fs_ReadFile F path fs' = Ok (hex_EncodeToString (DumpPrivateKey C (Some k)))"
    using assms(1,3) by (auto simp: WriteKey_def bindG_eq_Ok fs_ok_def)
  have trim: "TrimSpace (hex_EncodeToString bs) = hex_EncodeToString bs" for bs
    by (rule TrimSpace_id) (rule hex_EncodeToString_chars)
  have "ReadKey F C path fs' = Ok k" if "key_wf C k"
    using Parse_Dump [OF assms(2) that] by (simp add: ReadKey_def written trim hex_DecodeString_lower)
  moreover have "fs_ReadFile F path fs' = Ok (hex_EncodeToString d) \<and> length (hex_EncodeToString d) = 64"
    if "ParsePrivateKey C d = Ok k" for d
  proof -
    have "DumpPrivateKey C (Some k) = d" and wf: "key_wf C k" using Parse_wf [OF assms(2) that] by auto
    moreover have "length d = 32" using DumpPrivateKey_wf [OF assms(2) wf] calculation(1) by (metis length_be_bytes)
    ultimately show ?thesis using written by (simp add: length_hex_EncodeToString)
  qed
  ultimately show ?thesis by blast
qed

text \<open>A file system with one file, and a curve whose points are the keys.\<close>

definition one_file :: "string option file_ops" where
  "one_file =
     \<lparr>fs_ReadFile = (\<lambda>_ fs. case fs of None \<Rightarrow> Err (Errorf ''no such file'') | Some text \<Rightarrow> Ok text),
      fs_MkdirAll = (\<lambda>_ fs. (Ok (), fs)), fs_WriteFile = (\<lambda>_ text _. (Ok (), Some text)), fs_Dir = (\<lambda>_. ''.'')\<rparr>"

definition toy_curve :: "byte list curve_ops" where
  "toy_curve = \<lparr>cv_BitSize = 256, cv_ScalarBaseMult = Some\<rparr>"

definition small_key :: "byte list PrivateKey" where
  "small_key = \<lparr>pk_D = 258, pk_PublicKey = be_bytes 32 258\<rparr>"

theorem key_file_roundtrip_witness:
  "ReadKey one_file toy_curve ''priv_key'' (snd (WriteKey one_file toy_curve ''priv_key'' (Some small_key) None)) = Ok small_key"
proof -
  have 1: "fs_ok one_file" by (simp add: fs_ok_def one_file_def)
  have 2: "cv_BitSize toy_curve = 256" by (simp add: toy_curve_def)
  have 3: "WriteKey one_file toy_curve ''priv_key'' (Some small_key) None =
      (Ok (), snd (WriteKey one_file toy_curve ''priv_key'' (Some small_key) None))"
    by (simp add: WriteKey_def one_file_def bindG_def Let_def)
  have "key_wf toy_curve small_key" by (simp add: key_wf_def toy_curve_def small_key_def secp256k1N_def)
  then show ?thesis using key_file_roundtrip [OF 1 2 3] by simp
qed

end
