(* ===== verification/Transports.thy ===== *)
theory Transports
  imports Net_Transport Key_Files
begin

text \<open>
  \<open>src/src/net/inmem_transport.go\<close>, transports that are connected in memory, and \<open>tcp_transport.go\<close> with
  \<open>tcp_stream_layer.go\<close>, the creation of a transport over TCP.

  In memory, the network is a list of transports, and a route is a position in it. What the node at the other end does
  with a request, in time or not, is the parameter \<open>reaction\<close>. For TCP the operating system is the parameter
  \<open>tcp_ops\<close>; the state keeps the listeners that are open.
\<close>

section \<open>In-memory transports\<close>

record InmemTransport =
  it_consumerCh :: "Command list"
  it_localAddr :: string
  it_peers :: "(string \<times> nat) list"

type_synonym inmem_net = "InmemTransport list"
type_synonym 'a im = "(inmem_net, 'a) go"

text \<open>\<open>fmt.Sprintf("%08x-%04x-%04x-%04x-%12x", ...)\<close> on byte slices of these lengths.\<close>

definition generateUUID :: "byte list \<Rightarrow> string" where
  "generateUUID buf =
     hex_EncodeToString (take 4 buf) @ ''-'' @ hex_EncodeToString (take 2 (drop 4 buf)) @ ''-'' @
     hex_EncodeToString (take 2 (drop 6 buf)) @ ''-'' @ hex_EncodeToString (take 2 (drop 8 buf)) @ ''-'' @
     hex_EncodeToString (take 6 (drop 10 buf))"

definition newInmemAddr :: "byte list \<Rightarrow> string" where
  "newInmemAddr random = generateUUID random"

definition NewInmemTransport :: "byte list \<Rightarrow> string \<Rightarrow> string \<times> InmemTransport" where
  "NewInmemTransport random addr =
     (let addr = if addr = '''' then newInmemAddr random else addr in
      (addr, \<lparr>it_consumerCh = [], it_localAddr = addr, it_peers = []\<rparr>))"

definition inmem_capacity :: nat where
  "inmem_capacity = 16"

datatype reaction = Reacts RPCResponse | Late

text \<open>The send blocks while the channel of the other transport is full; the timeout only covers the wait for the
  response.\<close>

definition makeRPC :: "nat \<Rightarrow> string \<Rightarrow> Command \<Rightarrow> reaction \<Rightarrow> RPCResponse im" where
  "makeRPC i target args reaction =
     bindG (getsG (\<lambda>net. map_of (it_peers (net ! i)) target)) (\<lambda>peer.
     case peer of
       None \<Rightarrow> errG (Errorf (''failed to connect to peer: '' @ target))
     | Some p \<Rightarrow>
         bindG (getsG (\<lambda>net. it_consumerCh (net ! p))) (\<lambda>queue.
         if inmem_capacity \<le> length queue then liftO Diverge
         else
           bindG (modifyG (\<lambda>net. net[p := (net ! p)\<lparr>it_consumerCh := queue @ [args]\<rparr>])) (\<lambda>_.
           case reaction of
             Late \<Rightarrow> errG (Errorf ''command timed out'')
           | Reacts rpcResp \<Rightarrow> (case rpc_Error rpcResp of Some err \<Rightarrow> errG err | None \<Rightarrow> okG rpcResp))))"

text \<open>The type assertions on the response panic when it has another type.\<close>

definition im_Sync :: "nat \<Rightarrow> string \<Rightarrow> SyncRequest \<Rightarrow> reaction \<Rightarrow> SyncResponse im" where
  "im_Sync i target args reaction =
     bindG (makeRPC i target (SyncCmd args) reaction) (\<lambda>r.
     case rpc_Response r of Some (SyncResp out) \<Rightarrow> okG out | _ \<Rightarrow> liftO Panic)"

definition im_EagerSync :: "nat \<Rightarrow> string \<Rightarrow> EagerSyncRequest \<Rightarrow> reaction \<Rightarrow> EagerSyncResponse im" where
  "im_EagerSync i target args reaction =
     bindG (makeRPC i target (EagerSyncCmd args) reaction) (\<lambda>r.
     case rpc_Response r of Some (EagerSyncResp out) \<Rightarrow> okG out | _ \<Rightarrow> liftO Panic)"

definition im_FastForward :: "nat \<Rightarrow> string \<Rightarrow> FastForwardRequest \<Rightarrow> reaction \<Rightarrow> FastForwardResponse im" where
  "im_FastForward i target args reaction =
     bindG (makeRPC i target (FastForwardCmd args) reaction) (\<lambda>r.
     case rpc_Response r of Some (FastForwardResp out) \<Rightarrow> okG out | _ \<Rightarrow> liftO Panic)"

definition im_Join :: "nat \<Rightarrow> string \<Rightarrow> JoinRequest \<Rightarrow> reaction \<Rightarrow> JoinResponse im" where
  "im_Join i target args reaction =
     bindG (makeRPC i target (JoinCmd args) reaction) (\<lambda>r.
     case rpc_Response r of Some (JoinResp out) \<Rightarrow> okG out | _ \<Rightarrow> liftO Panic)"

definition im_update :: "nat \<Rightarrow> (InmemTransport \<Rightarrow> InmemTransport) \<Rightarrow> unit im" where
  "im_update i f = modifyG (\<lambda>net. net[i := f (net ! i)])"

definition Connect :: "nat \<Rightarrow> string \<Rightarrow> nat \<Rightarrow> unit im" where
  "Connect i peer other = im_update i (\<lambda>t. t\<lparr>it_peers := AList.update peer other (it_peers t)\<rparr>)"

definition Disconnect :: "nat \<Rightarrow> string \<Rightarrow> unit im" where
  "Disconnect i peer = im_update i (\<lambda>t. t\<lparr>it_peers := AList.delete peer (it_peers t)\<rparr>)"

definition DisconnectAll :: "nat \<Rightarrow> unit im" where
  "DisconnectAll i = im_update i (\<lambda>t. t\<lparr>it_peers := []\<rparr>)"

definition im_Close :: "nat \<Rightarrow> unit im" where
  "im_Close i = DisconnectAll i"

text \<open>A request reaches the transport its target is connected to, and no other.\<close>

lemma makeRPC_routes:
  assumes "map_of (it_peers (net ! i)) target = Some p" and "length (it_consumerCh (net ! p)) < inmem_capacity"
  shows "snd (makeRPC i target args reaction net) =
    net[p := (net ! p)\<lparr>it_consumerCh := it_consumerCh (net ! p) @ [args]\<rparr>]"
  using assms by (simp add: makeRPC_def bindG_def go_defs split: reaction.splits option.splits)

lemma connected_route:
  "i < length net \<Longrightarrow> map_of (it_peers (snd (Connect i peer p net) ! i)) peer = Some p"
  by (simp add: Connect_def im_update_def modifyG_def update_conv')

lemma closed_transport_fails:
  "i < length net \<Longrightarrow>
   makeRPC i target args reaction (snd (im_Close i net)) =
     (Err (Errorf (''failed to connect to peer: '' @ target)), snd (im_Close i net))"
  by (simp add: makeRPC_def im_Close_def DisconnectAll_def im_update_def bindG_def go_defs)

lemma full_channel_blocks:
  "map_of (it_peers (net ! i)) target = Some p \<Longrightarrow> inmem_capacity \<le> length (it_consumerCh (net ! p)) \<Longrightarrow>
   makeRPC i target args reaction net = (Diverge, net)"
  by (simp add: makeRPC_def bindG_def go_defs)

section \<open>TCP\<close>

text \<open>An address of the standard library: its text, and for a TCP address whether its IP is unspecified.\<close>

datatype net_addr = TCPAddr string bool | OtherAddr string

fun addr_String :: "net_addr \<Rightarrow> string" where
  "addr_String (TCPAddr s unspecified) = s"
| "addr_String (OtherAddr s) = s"

record tcp_ops =
  tcp_Listen :: "string \<Rightarrow> net_addr res"
  tcp_Resolve :: "string \<Rightarrow> net_addr res"
  tcp_CloseListener :: "nat \<Rightarrow> unit res"
  tcp_File :: "nat \<Rightarrow> bool"
  tcp_CloseFile :: "nat \<Rightarrow> unit res"

record tcpStreamLayer =
  tl_advertise :: string
  tl_listener :: nat
  tl_addr :: net_addr

text \<open>The listeners ever opened are numbered; the state keeps those that are open.\<close>

record tcp_state =
  ts_next :: nat
  ts_open :: "nat list"

type_synonym 'a tcp = "(tcp_state, 'a) go"

definition errNotAdvertisable :: go_error where
  "errNotAdvertisable = Errorf ''local bind address is not advertisable''"

definition errNotTCP :: go_error where
  "errNotTCP = Errorf ''local address is not a TCP address''"

definition net_Listen :: "tcp_ops \<Rightarrow> string \<Rightarrow> (nat \<times> net_addr) tcp" where
  "net_Listen T addr =
     bindG (liftO (tcp_Listen T addr)) (\<lambda>a.
     bindG (getsG ts_next) (\<lambda>n.
     bindG (modifyG (\<lambda>s. s\<lparr>ts_next := n + 1, ts_open := n # ts_open s\<rparr>)) (\<lambda>_. okG (n, a))))"

definition close_listener :: "nat \<Rightarrow> unit tcp" where
  "close_listener n = modifyG (\<lambda>s. s\<lparr>ts_open := removeAll n (ts_open s)\<rparr>)"

definition newTCPTransport ::
  "tcp_ops \<Rightarrow> string \<Rightarrow> string \<Rightarrow> (tcpStreamLayer \<Rightarrow> 'tr) \<Rightarrow> 'tr tcp" where
  "newTCPTransport T bindAddr advertiseAddr transportCreator =
     bindG (net_Listen T bindAddr) (\<lambda>(list, addr).
     bindG (if advertiseAddr \<noteq> '''' then liftO (tcp_Resolve T advertiseAddr) else okG addr) (\<lambda>resolved.
     case resolved of
       OtherAddr _ \<Rightarrow> bindG (close_listener list) (\<lambda>_. errG errNotTCP)
     | TCPAddr _ unspecified \<Rightarrow>
         if unspecified then bindG (close_listener list) (\<lambda>_. errG errNotAdvertisable)
         else okG (transportCreator \<lparr>tl_advertise = advertiseAddr, tl_listener = list, tl_addr = addr\<rparr>)))"

definition NewTCPTransport ::
  "tcp_ops \<Rightarrow> string \<Rightarrow> string \<Rightarrow> int \<Rightarrow> int \<Rightarrow> int \<Rightarrow> (tcpStreamLayer \<times> NetworkTransport) tcp" where
  "NewTCPTransport T bindAddr advertise maxPool timeout joinTimeout =
     newTCPTransport T bindAddr advertise (\<lambda>stream. (stream, NewNetworkTransport maxPool timeout joinTimeout))"

definition tcp_Close :: "tcp_ops \<Rightarrow> tcpStreamLayer \<Rightarrow> unit tcp" where
  "tcp_Close T t =
     (let has_file = tcp_File T (tl_listener t) in
      bindG (liftO (tcp_CloseListener T (tl_listener t))) (\<lambda>_.
      bindG (close_listener (tl_listener t)) (\<lambda>_.
      if has_file then liftO (tcp_CloseFile T (tl_listener t)) else okG ())))"

definition tcp_AdvertiseAddr :: "tcpStreamLayer \<Rightarrow> string" where
  "tcp_AdvertiseAddr t = (if tl_advertise t \<noteq> '''' then tl_advertise t else addr_String (tl_addr t))"

definition tcp_wf :: "tcp_state \<Rightarrow> bool" where
  "tcp_wf s \<longleftrightarrow> (\<forall>n \<in> set (ts_open s). n < ts_next s)"

text \<open>A TCP transport that is created owns one open listener, and advertises the given address or else the one it is
  bound to, which is a TCP address with a specified IP. When creation fails, no listener stays open, with one exception:
  when the advertised address does not resolve, the listener is not closed.\<close>

theorem tcp_transport_listener:
  assumes "NewTCPTransport T bindAddr advertise maxPool timeout joinTimeout s = (r, s')" and "tcp_wf s"
    and "\<forall>a. returns (tcp_Listen T a)" and "\<forall>a. returns (tcp_Resolve T a)"
  shows "case r of
      Ok (stream, t) \<Rightarrow> ts_open s' = tl_listener stream # ts_open s \<and> tl_listener stream \<notin> set (ts_open s) \<and>
        tcp_AdvertiseAddr stream = (if advertise \<noteq> '''' then advertise else addr_String (tl_addr stream)) \<and>
        (\<exists>text. (if advertise \<noteq> '''' then tcp_Resolve T advertise else Ok (tl_addr stream)) = Ok (TCPAddr text False))
    | Err e \<Rightarrow> ts_open s' =
        (if is_Ok (tcp_Listen T bindAddr) \<and> advertise \<noteq> '''' \<and> \<not> is_Ok (tcp_Resolve T advertise)
         then ts_next s # ts_open s else ts_open s)
    | _ \<Rightarrow> False"
proof -
  have fresh: "removeAll (ts_next s) (ts_open s) = ts_open s" "ts_next s \<notin> set (ts_open s)"
    using assms(2) by (auto simp: tcp_wf_def intro!: removeAll_id)
  have l: "returns (tcp_Listen T bindAddr)" and d: "returns (tcp_Resolve T advertise)" using assms(3,4) by simp_all
  show ?thesis
  proof (cases "tcp_Listen T bindAddr")
    case (Ok a)
    show ?thesis
    proof (cases "advertise = ''''")
      case True
      then show ?thesis using assms(1) Ok fresh
        by (cases a) (auto simp: NewTCPTransport_def newTCPTransport_def net_Listen_def close_listener_def
            tcp_AdvertiseAddr_def bindG_def go_defs split: if_splits)
    next
      case False
      then show ?thesis using assms(1) Ok fresh d
        by (cases "tcp_Resolve T advertise"; cases a)
          (auto simp: NewTCPTransport_def newTCPTransport_def net_Listen_def close_listener_def
            tcp_AdvertiseAddr_def bindG_def go_defs split: if_splits net_addr.splits)
    qed
  qed (use assms(1) l in \<open>auto simp: NewTCPTransport_def newTCPTransport_def net_Listen_def bindG_def go_defs\<close>)
qed

text \<open>An operating system on which every name resolves, except one.\<close>

definition one_bad_name :: tcp_ops where
  "one_bad_name =
     \<lparr>tcp_Listen = (\<lambda>a. Ok (TCPAddr a False)),
      tcp_Resolve = (\<lambda>a. if a = ''nowhere:1'' then Err (Errorf ''no such host'') else Ok (TCPAddr a False)),
      tcp_CloseListener = (\<lambda>_. Ok ()), tcp_File = (\<lambda>_. True), tcp_CloseFile = (\<lambda>_. Ok ())\<rparr>"

theorem tcp_transport_listener_witness:
  "let s = \<lparr>ts_next = 5, ts_open = [2]\<rparr> in
   ts_open (snd (NewTCPTransport one_bad_name ''127.0.0.1:1'' ''nowhere:1'' 2 0 0 s)) = [5, 2]"
proof -
  let ?s = "\<lparr>ts_next = 5, ts_open = [2]\<rparr>"
  have wf: "tcp_wf ?s" "\<forall>a. returns (tcp_Listen one_bad_name a)" "\<forall>a. returns (tcp_Resolve one_bad_name a)"
    by (simp_all add: tcp_wf_def one_bad_name_def)
  have "fst (NewTCPTransport one_bad_name ''127.0.0.1:1'' ''nowhere:1'' 2 0 0 ?s) = Err (Errorf ''no such host'')"
    by code_simp
  then show ?thesis
    using tcp_transport_listener [OF surjective_pairing wf, of "''127.0.0.1:1''" "''nowhere:1''" 2 0 0]
    by (simp add: one_bad_name_def)
qed

lemma tcp_Close_closes:
  "tcp_CloseListener T (tl_listener t) = Ok () \<Longrightarrow> ts_open (snd (tcp_Close T t s)) = removeAll (tl_listener t) (ts_open s)"
  by (cases "tcp_CloseFile T (tl_listener t)") (auto simp: tcp_Close_def close_listener_def bindG_def go_defs Let_def)

end
