(* ===== verification/Webrtc.thy ===== *)
theory Webrtc
  imports Net_Transport
begin

text \<open>
  Connections over WebRTC: \<open>src/src/net/signal\<close>, through which peers exchange session descriptions by way of a
  signalling server, and \<open>src/src/net/webrtc_stream_layer.go\<close>, which makes connections from them.

  The packages for WAMP and WebRTC are third-party and parameters here. \<open>wamp_ops\<close> has the conversions of values and
  session descriptions, \<open>tls_ops\<close> the files and certificates, \<open>webrtc_ops\<close> the operations on a peer connection, which
  get its number. The signalling server is a function from the name of a procedure and its arguments to a result.
\<close>

section \<open>Signalling\<close>

record ('v, 'd) wamp_ops =
  wp_String :: "string \<Rightarrow> 'v"
  wp_AsString :: "'v \<Rightarrow> string option"
  wp_Marshal :: "'d \<Rightarrow> string res"
  wp_Unmarshal :: "string \<Rightarrow> 'd res"

type_synonym 'v wamp_router = "string \<Rightarrow> 'v list \<Rightarrow> 'v list res"

definition ErrProcessingOffer :: string where
  "ErrProcessingOffer = ''io.babble.processing_offer''"

record 'd OfferPromise =
  op_From :: string
  op_Offer :: 'd

record 'd OfferPromiseResponse =
  or_Answer :: "'d option"
  or_Error :: "go_error option"

definition op_Respond :: "'d option \<Rightarrow> go_error option \<Rightarrow> 'd OfferPromiseResponse" where
  "op_Respond answer err = \<lparr>or_Answer = answer, or_Error = err\<rparr>"

record 'v InvokeResult =
  ir_Err :: string
  ir_Args :: "'v list"

definition errResult :: "('v, 'd) wamp_ops \<Rightarrow> string \<Rightarrow> 'v InvokeResult" where
  "errResult W msg = \<lparr>ir_Err = ErrProcessingOffer, ir_Args = [wp_String W msg]\<rparr>"

text \<open>What becomes of an offer that is sent to the consumer: it is not received, or received and not answered before the
  timeout, or answered.\<close>

datatype 'd promise_end = Not_received | No_answer | Answer "'d OfferPromiseResponse"

text \<open>\<open>json.Marshal\<close> of a nil answer is \<open>null\<close>.\<close>

definition marshal_answer :: "('v, 'd) wamp_ops \<Rightarrow> 'd option \<Rightarrow> string res" where
  "marshal_answer W answer = (case answer of None \<Rightarrow> Ok ''null'' | Some d \<Rightarrow> wp_Marshal W d)"

definition callHandler ::
  "('v, 'd) wamp_ops \<Rightarrow> ('d OfferPromise \<Rightarrow> 'd promise_end) \<Rightarrow> 'v list \<Rightarrow> 'v InvokeResult res" where
  "callHandler W consumer args =
     (if length args \<noteq> 2
      then Ok (errResult W (''Invocation should contain 2 arguments, not '' @ itoa (int (length args))))
      else
        case wp_AsString W (args ! 0) of
          None \<Rightarrow> Ok (errResult W ''Error reading invocation first argument'')
        | Some from \<Rightarrow>
            (case wp_AsString W (args ! 1) of
               None \<Rightarrow> Ok (errResult W ''Error reading invocation second argument'')
             | Some sdp \<Rightarrow>
                 (case wp_Unmarshal W sdp of
                    Err err \<Rightarrow> Ok (errResult W (''Error parsing invocation SDP: '' @ error_text err))
                  | Panic \<Rightarrow> Panic
                  | Diverge \<Rightarrow> Diverge
                  | Ok offer \<Rightarrow>
                      (case consumer \<lparr>op_From = from, op_Offer = offer\<rparr> of
                         Not_received \<Rightarrow> Diverge
                       | No_answer \<Rightarrow> Ok (errResult W ''Callee TIMEOUT'')
                       | Answer resp \<Rightarrow>
                           (case or_Error resp of
                              Some e \<Rightarrow> Ok (errResult W (error_text e))
                            | None \<Rightarrow>
                                (case marshal_answer W (or_Answer resp) of
                                   Err err \<Rightarrow> Ok (errResult W (''Error parsing answer: '' @ error_text err))
                                 | Panic \<Rightarrow> Panic
                                 | Diverge \<Rightarrow> Diverge
                                 | Ok raw \<Rightarrow> Ok \<lparr>ir_Err = '''', ir_Args = [wp_String W raw]\<rparr>))))))"

text \<open>When the result is not a string, \<open>Offer\<close> returns no answer and no error: \<open>err\<close> is nil there. An empty list of
  results makes the access to the first one panic.\<close>

definition Offer ::
  "('v, 'd) wamp_ops \<Rightarrow> 'v wamp_router \<Rightarrow> string \<Rightarrow> string \<Rightarrow> 'd \<Rightarrow> 'd option res" where
  "Offer W router pubKey target offer =
     bindO (wp_Marshal W offer) (\<lambda>raw.
     bindO (router target [wp_String W pubKey, wp_String W raw]) (\<lambda>args.
     case args of
       [] \<Rightarrow> Panic
     | a # _ \<Rightarrow>
         (case wp_AsString W a of
            None \<Rightarrow> Ok None
          | Some sdp \<Rightarrow> bindO (wp_Unmarshal W sdp) (\<lambda>answer. Ok (Some answer)))))"

text \<open>The trust of the client in the server.\<close>

record tls_ops =
  tls_IsNotExist :: "string \<Rightarrow> bool"
  tls_ReadFile :: "string \<Rightarrow> byte list res"
  tls_AppendCerts :: "byte list \<Rightarrow> bool"
  tls_PemDecode :: "byte list \<Rightarrow> byte list option"
  tls_CommonName :: "byte list \<Rightarrow> string res"

record tls_config =
  tc_InsecureSkipVerify :: bool
  tc_RootCAs :: "byte list option"
  tc_ServerName :: string

definition client_tls :: "tls_ops \<Rightarrow> string \<Rightarrow> bool \<Rightarrow> tls_config res" where
  "client_tls X caFile insecureSkipVerify =
     (let cfg = \<lparr>tc_InsecureSkipVerify = False, tc_RootCAs = None, tc_ServerName = ''''\<rparr> in
      if insecureSkipVerify then Ok (cfg\<lparr>tc_InsecureSkipVerify := True\<rparr>)
      else if tls_IsNotExist X caFile then Ok cfg
      else
        bindO (tls_ReadFile X caFile) (\<lambda>certPEM.
        if \<not> tls_AppendCerts X certPEM then Err (Errorf ''Failed to import certificate to trust'')
        else
          case tls_PemDecode X certPEM of
            None \<Rightarrow> Err (Errorf ''Failed to decode certificate to trust'')
          | Some block \<Rightarrow>
              bindO (tls_CommonName X block) (\<lambda>name.
              Ok (cfg\<lparr>tc_RootCAs := Some certPEM, tc_ServerName := name\<rparr>))))"

record wamp_client =
  wc_pubKey :: string
  wc_routerURL :: string
  wc_tls :: tls_config
  wc_client :: "nat option"

text \<open>\<open>Connect\<close>: the client of the package is a number, and a function says whether it is connected.\<close>

definition wc_Connect :: "(nat \<Rightarrow> bool) \<Rightarrow> (string \<Rightarrow> tls_config \<Rightarrow> nat res) \<Rightarrow> (wamp_client, unit) go" where
  "wc_Connect connected connectNet =
     bindG (getsG id) (\<lambda>c.
     if (case wc_client c of None \<Rightarrow> False | Some n \<Rightarrow> connected n) then okG ()
     else
       bindG (liftO (connectNet (wc_routerURL c) (wc_tls c))) (\<lambda>cli.
       modifyG (\<lambda>c. c\<lparr>wc_client := Some cli\<rparr>)))"

definition NewClient ::
  "tls_ops \<Rightarrow> (nat \<Rightarrow> bool) \<Rightarrow> (string \<Rightarrow> tls_config \<Rightarrow> nat res) \<Rightarrow> string \<Rightarrow> string \<Rightarrow> string \<Rightarrow> bool \<Rightarrow> wamp_client res" where
  "NewClient X connected connectNet server pubKey caFile insecureSkipVerify =
     bindO (client_tls X caFile insecureSkipVerify) (\<lambda>tlscfg.
     case wc_Connect connected connectNet
            \<lparr>wc_pubKey = pubKey, wc_routerURL = ''wss://'' @ server, wc_tls = tlscfg, wc_client = None\<rparr> of
       (Ok _, c) \<Rightarrow> Ok c
     | (Err e, _) \<Rightarrow> Err e
     | (Panic, _) \<Rightarrow> Panic
     | (Diverge, _) \<Rightarrow> Diverge)"

section \<open>Stream layer\<close>

record 'd webrtc_ops =
  wo_NewPeerConnection :: "nat \<Rightarrow> string \<Rightarrow> unit res"
  wo_CreateDataChannel :: "nat \<Rightarrow> unit res"
  wo_SetRemoteDescription :: "nat \<Rightarrow> 'd \<Rightarrow> unit res"
  wo_CreateAnswer :: "nat \<Rightarrow> 'd res"
  wo_CreateOffer :: "nat \<Rightarrow> 'd res"
  wo_SetLocalDescription :: "nat \<Rightarrow> 'd \<Rightarrow> unit res"
  wo_Opened :: "nat \<Rightarrow> int \<Rightarrow> 16 word option"
  wo_Detach :: "nat \<Rightarrow> nat res"

text \<open>Peer connections and data channels are numbered. \<open>wl_created\<close> counts the peer connections; the layer keeps those it
  registered, by peer, and the data channels, by their identifier. The last two fields are what was closed.\<close>

record webRTCStreamLayer =
  wl_created :: nat
  wl_peerConnections :: "(string \<times> nat) list"
  wl_dataChannels :: "(16 word \<times> nat option) list"
  wl_closedConnections :: "nat list"
  wl_closedChannels :: "nat list"

type_synonym 'a wl = "(webRTCStreamLayer, 'a) go"

definition newWebRTCStreamLayer :: webRTCStreamLayer where
  "newWebRTCStreamLayer =
     \<lparr>wl_created = 0, wl_peerConnections = [], wl_dataChannels = [], wl_closedConnections = [], wl_closedChannels = []\<rparr>"

definition newPeerConnection :: "'d webrtc_ops \<Rightarrow> string \<Rightarrow> bool \<Rightarrow> nat wl" where
  "newPeerConnection O' peerIdentity createDataChannel =
     bindG (getsG wl_created) (\<lambda>pc.
     bindG (liftO (wo_NewPeerConnection O' pc peerIdentity)) (\<lambda>_.
     bindG (modifyG (\<lambda>w. w\<lparr>wl_created := pc + 1\<rparr>)) (\<lambda>_.
     bindG (if createDataChannel then liftO (wo_CreateDataChannel O' pc) else okG ()) (\<lambda>_.
     okG pc))))"

definition setPeerConnection :: "string \<Rightarrow> nat \<Rightarrow> unit wl" where
  "setPeerConnection from pc = modifyG (\<lambda>w. w\<lparr>wl_peerConnections := AList.update from pc (wl_peerConnections w)\<rparr>)"

definition setDataChannel :: "16 word \<Rightarrow> nat option \<Rightarrow> unit wl" where
  "setDataChannel i dc = modifyG (\<lambda>w. w\<lparr>wl_dataChannels := AList.update i dc (wl_dataChannels w)\<rparr>)"

text \<open>The callback of \<open>pipeDataChannel\<close> for a channel that opens. An error of \<open>Detach\<close> is only logged: a nil channel is kept
  and wrapped in a connection.\<close>

definition pipe_opened :: "'d webrtc_ops \<Rightarrow> nat \<Rightarrow> 16 word \<Rightarrow> nat option wl" where
  "pipe_opened O' pc i =
     tryG (liftO (wo_Detach O' pc)) (\<lambda>r.
     let raw = (case r of Inl err \<Rightarrow> None | Inr dc \<Rightarrow> Some dc) in
     bindG (setDataChannel i raw) (\<lambda>_. okG raw))"

text \<open>One round of the loop of \<open>listen\<close>: the answer to an offer.\<close>

definition process_offer :: "'d webrtc_ops \<Rightarrow> 'd OfferPromise \<Rightarrow> 'd OfferPromiseResponse wl" where
  "process_offer O' promise =
     bindG (newPeerConnection O' (op_From promise) False) (\<lambda>pc.
     bindG (liftO (wo_SetRemoteDescription O' pc (op_Offer promise))) (\<lambda>_.
     bindG (liftO (wo_CreateAnswer O' pc)) (\<lambda>answer.
     bindG (liftO (wo_SetLocalDescription O' pc answer)) (\<lambda>_.
     bindG (setPeerConnection (op_From promise) pc) (\<lambda>_.
     okG (op_Respond (Some answer) None))))))"

text \<open>\<open>listen\<close> on the offers that arrive: the responses given, and the error with which the loop ended, if it did.\<close>

fun wl_listen :: "'d webrtc_ops \<Rightarrow> 'd OfferPromise list \<Rightarrow> webRTCStreamLayer \<Rightarrow>
    ('d OfferPromiseResponse list \<times> unit res option) \<times> webRTCStreamLayer" where
  "wl_listen O' [] w = (([], None), w)"
| "wl_listen O' (promise # rest) w =
     (case process_offer O' promise w of
        (Ok resp, w') \<Rightarrow> (case wl_listen O' rest w' of ((resps, e), w'') \<Rightarrow> ((resp # resps, e), w''))
      | (Err e, w') \<Rightarrow> (([], Some (Err e)), w')
      | (Panic, w') \<Rightarrow> (([], Some Panic), w')
      | (Diverge, w') \<Rightarrow> (([], Some Diverge), w'))"

definition wl_Dial :: "'d webrtc_ops \<Rightarrow> (string \<Rightarrow> 'd \<Rightarrow> 'd option res) \<Rightarrow> string \<Rightarrow> int \<Rightarrow> nat option wl" where
  "wl_Dial O' offer_to target timeout =
     bindG (newPeerConnection O' target True) (\<lambda>pc.
     bindG (liftO (wo_CreateOffer O' pc)) (\<lambda>offer.
     bindG (liftO (wo_SetLocalDescription O' pc offer)) (\<lambda>_.
     bindG (liftO (offer_to target offer)) (\<lambda>answer.
     case answer of
       None \<Rightarrow> errG (Errorf ''No answer'')
     | Some a \<Rightarrow>
         bindG (liftO (wo_SetRemoteDescription O' pc a)) (\<lambda>_.
         bindG (setPeerConnection target pc) (\<lambda>_.
         case wo_Opened O' pc timeout of
           None \<Rightarrow> errG (Errorf ''Dial timeout'')
         | Some i \<Rightarrow> pipe_opened O' pc i))))))"

definition wl_Close :: "unit wl" where
  "wl_Close =
     bindG (modifyG (\<lambda>w. w\<lparr>wl_closedConnections := wl_closedConnections w @ map snd (wl_peerConnections w)\<rparr>)) (\<lambda>_.
     bindG (getsG wl_dataChannels) (\<lambda>dcs.
     foldG (\<lambda>(i, dc) _. case dc of
       None \<Rightarrow> liftO Panic
     | Some d \<Rightarrow> modifyG (\<lambda>w. w\<lparr>wl_closedChannels := wl_closedChannels w @ [d]\<rparr>)) dcs ()))"

definition wl_AdvertiseAddr :: "string \<Rightarrow> string" where
  "wl_AdvertiseAddr pubKey = pubKey"

section \<open>Exchange of session descriptions\<close>

text \<open>What the parameters promise: a string is read back from a value, a description from its text, and the signalling
  server calls the procedure of the target and passes its result on, or an error.\<close>

definition wamp_laws :: "('v, 'd) wamp_ops \<Rightarrow> bool" where
  "wamp_laws W \<longleftrightarrow> (\<forall>s. wp_AsString W (wp_String W s) = Some s) \<and>
     (\<forall>d raw. wp_Marshal W d = Ok raw \<longrightarrow> wp_Unmarshal W raw = Ok d)"

definition relay :: "'v InvokeResult res \<Rightarrow> 'v list res" where
  "relay r = bindO r (\<lambda>r. if ir_Err r = '''' then Ok (ir_Args r) else Err (Errorf (ir_Err r)))"

text \<open>C29: Signalling composed with the stream layer of the target: when the target accepts the offer, the peer that makes
  the offer gets the answer that the target created, and the target has registered the connection under the identity of
  that peer.\<close>

theorem offer_reaches_target:
  assumes W: "wamp_laws W" and offer: "wp_Marshal W d = Ok raw" and answer: "wp_Marshal W a = Ok raw'"
    and target: "process_offer O' \<lparr>op_From = me, op_Offer = d\<rparr> w = (Ok resp, w')" and a: "or_Answer resp = Some a"
    and router: "router target = (\<lambda>args. relay (callHandler W (\<lambda>p. Answer (if p = \<lparr>op_From = me, op_Offer = d\<rparr> then resp else other p)) args))"
  shows "Offer W router me target d = Ok (Some a) \<and> map_of (wl_peerConnections w') me = Some (wl_created w)"
proof -
  have laws: "wp_AsString W (wp_String W s) = Some s" "wp_Unmarshal W raw = Ok d" "wp_Unmarshal W raw' = Ok a" for s
    using W offer answer by (auto simp: wamp_laws_def)
  have "or_Error resp = None" and reg: "map_of (wl_peerConnections w') me = Some (wl_created w)"
    using target
    by (auto simp: process_offer_def newPeerConnection_def setPeerConnection_def op_Respond_def bindG_eq_Ok go_defs update_conv'
        split: if_splits)
  then have "router target [wp_String W me, wp_String W raw] = Ok [wp_String W raw']"
    by (simp add: router relay_def callHandler_def laws a answer marshal_answer_def bindO_def)
  then show ?thesis using reg by (simp add: Offer_def offer laws bindO_def)
qed

text \<open>A single peer connection at a time, and session descriptions that are numbers.\<close>

definition plain_webrtc :: "nat webrtc_ops" where
  "plain_webrtc =
     \<lparr>wo_NewPeerConnection = (\<lambda>_ _. Ok ()), wo_CreateDataChannel = (\<lambda>_. Ok ()),
      wo_SetRemoteDescription = (\<lambda>_ d. if d = 0 then Err (Errorf ''EOF'') else Ok ()),
      wo_CreateAnswer = (\<lambda>pc. Ok (pc + 100)), wo_CreateOffer = (\<lambda>pc. Ok (pc + 1)), wo_SetLocalDescription = (\<lambda>_ _. Ok ()),
      wo_Opened = (\<lambda>_ _. Some 1), wo_Detach = (\<lambda>pc. Ok pc)\<rparr>"

definition plain_wamp :: "(string, nat) wamp_ops" where
  "plain_wamp = \<lparr>wp_String = id, wp_AsString = Some, wp_Marshal = (\<lambda>d. Ok (replicate d CHR ''x'')), wp_Unmarshal = (\<lambda>s. Ok (length s))\<rparr>"

theorem offer_reaches_target_witness:
  "Offer plain_wamp (\<lambda>_ args. relay (callHandler plain_wamp (\<lambda>p. Answer (if p = \<lparr>op_From = ''me'', op_Offer = 7\<rparr>
       then op_Respond (Some 100) None else op_Respond None None)) args)) ''me'' ''you'' 7 = Ok (Some 100)"
proof -
  have laws: "wamp_laws plain_wamp" by (auto simp: wamp_laws_def plain_wamp_def)
  obtain w' where "process_offer plain_webrtc \<lparr>op_From = ''me'', op_Offer = 7\<rparr> newWebRTCStreamLayer = (Ok (op_Respond (Some 100) None), w')"
    by (simp add: process_offer_def newPeerConnection_def plain_webrtc_def setPeerConnection_def newWebRTCStreamLayer_def bindG_def go_defs)
  from offer_reaches_target [OF laws _ _ this, of "replicate 7 CHR ''x''" 100 "replicate 100 CHR ''x''"
      "\<lambda>_ args. relay (callHandler plain_wamp (\<lambda>p. Answer (if p = \<lparr>op_From = ''me'', op_Offer = 7\<rparr>
       then op_Respond (Some 100) None else op_Respond None None)) args)" "''you''" "\<lambda>_. op_Respond None None"]
  show ?thesis by (simp add: plain_wamp_def op_Respond_def)
qed

section \<open>What one peer can do to another\<close>

lemma wl_listen_append:
  "wl_listen O' good w = ((resps, None), w1) \<Longrightarrow> wl_listen O' rest w1 = ((resps', e), w2) \<Longrightarrow>
   wl_listen O' (good @ rest) w = ((resps @ resps', e), w2)"
proof (induction good arbitrary: w resps)
  case (Cons p good)
  then show ?case by (fastforce split: prod.splits outcome.splits)
qed simp

text \<open>One offer that cannot be applied, from any peer that reaches the signalling server, ends the loop that receives
  offers: however many offers follow, none of them is received, and the node accepts no new WebRTC connections.\<close>

theorem bad_offer_stops_listener:
  assumes "wl_listen O' good w = ((resps, None), w1)"
    and "wo_NewPeerConnection O' (wl_created w1) (op_From bad) = Ok ()"
    and "wo_SetRemoteDescription O' (wl_created w1) (op_Offer bad) = Err e"
  shows "fst (wl_listen O' (good @ bad # rest) w) = (resps, Some (Err e))"
proof -
  have "process_offer O' bad w1 = (Err e, w1\<lparr>wl_created := wl_created w1 + 1\<rparr>)"
    using assms(2,3) by (simp add: process_offer_def newPeerConnection_def bindG_def go_defs)
  then have "wl_listen O' (bad # rest) w1 = (([], Some (Err e)), w1\<lparr>wl_created := wl_created w1 + 1\<rparr>)" by simp
  from wl_listen_append [OF assms(1) this] show ?thesis by simp
qed

theorem bad_offer_stops_listener_witness:
  "fst (wl_listen plain_webrtc [\<lparr>op_From = ''a'', op_Offer = 5\<rparr>, \<lparr>op_From = ''b'', op_Offer = 0\<rparr>, \<lparr>op_From = ''c'', op_Offer = 6\<rparr>]
      newWebRTCStreamLayer) = ([op_Respond (Some 100) None], Some (Err (Errorf ''EOF'')))"
proof -
  obtain w1 where "wl_listen plain_webrtc [\<lparr>op_From = ''a'', op_Offer = 5\<rparr>] newWebRTCStreamLayer = (([op_Respond (Some 100) None], None), w1)"
    by (simp add: process_offer_def newPeerConnection_def plain_webrtc_def setPeerConnection_def newWebRTCStreamLayer_def bindG_def go_defs)
  from bad_offer_stops_listener [OF this, of "\<lparr>op_From = ''b'', op_Offer = 0\<rparr>" "Errorf ''EOF''" "[\<lparr>op_From = ''c'', op_Offer = 6\<rparr>]"]
  show ?thesis by (simp add: plain_webrtc_def)
qed

text \<open>A target that answers an offer with an empty list of results makes the peer that dials it panic.\<close>

theorem empty_result_panics:
  assumes "wo_NewPeerConnection O' (wl_created w) target = Ok ()" and "wo_CreateDataChannel O' (wl_created w) = Ok ()"
    and "wo_CreateOffer O' (wl_created w) = Ok offer" and "wo_SetLocalDescription O' (wl_created w) offer = Ok ()"
    and "wp_Marshal W offer = Ok raw" and "router target [wp_String W me, wp_String W raw] = Ok []"
  shows "fst (wl_Dial O' (Offer W router me) target timeout w) = Panic"
  using assms by (simp add: wl_Dial_def newPeerConnection_def Offer_def bindG_def bindO_def go_defs)

theorem empty_result_panics_witness:
  "fst (wl_Dial plain_webrtc (Offer plain_wamp (\<lambda>_ _. Ok []) ''me'') ''you'' 10 newWebRTCStreamLayer) = Panic"
  by (rule empty_result_panics [of _ _ _ _ plain_wamp])
    (simp_all add: plain_webrtc_def plain_wamp_def)

lemma close_channels_keeps:
  "wl_closedConnections (snd (foldG (\<lambda>(i, dc) _. case dc of
     None \<Rightarrow> liftO Panic
   | Some d \<Rightarrow> modifyG (\<lambda>w. w\<lparr>wl_closedChannels := wl_closedChannels w @ [d]\<rparr>)) dcs () w)) = wl_closedConnections w"
proof (induction dcs arbitrary: w)
  case (Cons p dcs)
  then show ?case by (cases p) (auto simp: bindG_def go_defs split: option.splits)
qed (simp add: go_defs)

text \<open>\<open>Close\<close> is documented to close all peer connections. A second connection to a peer, made when its first one is in use,
  takes its place in the map: \<open>Close\<close> does not close the first one.\<close>

theorem replaced_connection_not_closed:
  assumes "wl_Dial O' offer_to target timeout w = (Ok c1, w1)" and "wl_Dial O' offer_to target timeout w1 = (Ok c2, w2)"
    and "\<forall>pc \<in> snd ` set (wl_peerConnections w). pc < wl_created w"
    and "\<forall>pc \<in> set (wl_closedConnections w). pc < wl_created w"
  shows "wl_created w < wl_created w2 \<and> wl_created w \<notin> set (wl_closedConnections (snd (wl_Close w2)))"
proof -
  have dial: "wl_created b = wl_created a + 1 \<and> wl_closedConnections b = wl_closedConnections a \<and>
      wl_peerConnections b = AList.update target (wl_created a) (wl_peerConnections a)"
    if "wl_Dial O' offer_to target timeout a = (Ok c, b)" for a b c
    using that
    by (auto simp: wl_Dial_def newPeerConnection_def setPeerConnection_def setDataChannel_def pipe_opened_def Let_def bindG_eq_Ok
        tryG_def go_defs split: option.splits outcome.splits)
  let ?al = "AList.update target (wl_created w1) (AList.update target (wl_created w) (wl_peerConnections w))"
  have "?al = AList.update target (wl_created w1) (wl_peerConnections w)" by (simp add: update_last)
  moreover have "snd ` set (AList.update target x al) \<subseteq> insert x (snd ` set al)" for x :: nat and al
    by (induction al) auto
  ultimately have "wl_created w \<notin> snd ` set (wl_peerConnections w2)"
    using dial [OF assms(1)] dial [OF assms(2)] assms(3) by (metis Suc_eq_plus1 image_subset_iff in_mono insertE less_irrefl n_not_Suc_n)
  moreover have "set (wl_closedConnections (snd (wl_Close w2))) = set (wl_closedConnections w2) \<union> snd ` set (wl_peerConnections w2)"
    by (simp add: wl_Close_def bindG_def go_defs close_channels_keeps)
  ultimately show ?thesis using dial [OF assms(1)] dial [OF assms(2)] assms(4) by auto
qed

theorem replaced_connection_not_closed_witness:
  "\<exists>c1 w1 c2 w2. wl_Dial plain_webrtc (\<lambda>_ _. Ok (Some 5)) ''you'' 10 newWebRTCStreamLayer = (Ok c1, w1) \<and>
     wl_Dial plain_webrtc (\<lambda>_ _. Ok (Some 5)) ''you'' 10 w1 = (Ok c2, w2) \<and> 0 \<notin> set (wl_closedConnections (snd (wl_Close w2)))"
proof -
  let ?dial = "wl_Dial plain_webrtc (\<lambda>_ _. Ok (Some 5)) ''you'' 10"
  have "\<exists>c w'. ?dial w = (Ok c, w')" for w
    by (simp add: wl_Dial_def newPeerConnection_def setPeerConnection_def setDataChannel_def pipe_opened_def plain_webrtc_def
        Let_def bindG_def tryG_def go_defs)
  then obtain c1 w1 c2 w2 where d: "?dial newWebRTCStreamLayer = (Ok c1, w1)" "?dial w1 = (Ok c2, w2)" by metis
  from replaced_connection_not_closed [OF d] have "0 \<notin> set (wl_closedConnections (snd (wl_Close w2)))"
    by (simp add: newWebRTCStreamLayer_def)
  with d show ?thesis by blast
qed

text \<open>The client skips the verification of the server's certificate only when it is told to, and with a certificate file it
  trusts that file alone; a file that is not a certificate is an error.\<close>

lemma client_tls_cases:
  assumes "client_tls X caFile insecure = Ok cfg"
  shows "tc_InsecureSkipVerify cfg = insecure"
    and "\<not> insecure \<Longrightarrow> \<not> tls_IsNotExist X caFile \<Longrightarrow>
      \<exists>pem. tls_ReadFile X caFile = Ok pem \<and> tls_AppendCerts X pem \<and> tc_RootCAs cfg = Some pem"
  using assms by (auto simp: client_tls_def Let_def bindO_eq_Ok split: if_splits option.splits)

end
