(* ===== verification/Store_Interface.thy ===== *)
theory Store_Interface
  imports Badger_Store
begin

text \<open>
  \<open>src/src/hashgraph/store.go\<close>: what the two implementations of the interface \<open>Store\<close> promise for the objects they
  keep under a key, whether rounds, blocks, frames or events.

  \<open>store_table\<close>: what is read was stored, and stored last. Both implementations promise that for each kind of object.
  \<open>durable_table\<close>: what was stored can be read, always. The Badger store promises that for blocks and events; its
  rounds and frames are read from the cache only, and the in-memory store evicts.
\<close>

section \<open>Contracts\<close>

datatype ('k, 'v) table_op = Put 'k 'v | Get 'k

text \<open>A run in which every \<open>Put\<close> succeeds.\<close>

fun run_ops :: "('k \<Rightarrow> 'v \<Rightarrow> ('s, unit) go) \<Rightarrow> ('k \<Rightarrow> ('s, 'v) go) \<Rightarrow> ('k, 'v) table_op list \<Rightarrow> 's \<Rightarrow> 's option" where
  "run_ops put get [] s = Some s"
| "run_ops put get (Put k v # ops) s = (case put k v s of (Ok _, s') \<Rightarrow> run_ops put get ops s' | _ \<Rightarrow> None)"
| "run_ops put get (Get k # ops) s = run_ops put get ops (snd (get k s))"

lemma run_Put:
  assumes "run_ops put get (Put k v # ops) s = Some s'"
  obtains s1 where "put k v s = (Ok (), s1)" and "run_ops put get ops s1 = Some s'"
proof -
  obtain r s1 where r: "put k v s = (r, s1)" by fastforce
  with assms that show ?thesis by (cases r) auto
qed

fun map_ops :: "('k \<Rightarrow> 'v option) \<Rightarrow> ('k, 'v) table_op list \<Rightarrow> 'k \<Rightarrow> 'v option" where
  "map_ops m [] = m"
| "map_ops m (Put k v # ops) = map_ops (m(k \<mapsto> v)) ops"
| "map_ops m (Get k # ops) = map_ops m ops"

definition puts_ok :: "('k \<Rightarrow> 'v \<Rightarrow> bool) \<Rightarrow> ('k, 'v) table_op list \<Rightarrow> bool" where
  "puts_ok valid ops \<longleftrightarrow> list_all (\<lambda>x. case x of Put k v \<Rightarrow> valid k v | Get k \<Rightarrow> True) ops"

text \<open>\<open>obs\<close> is what a table keeps of an object, \<open>view\<close> what it holds.\<close>

locale store_table =
  fixes put :: "'k \<Rightarrow> 'v \<Rightarrow> ('s, unit) go"
    and get :: "'k \<Rightarrow> ('s, 'v) go"
    and valid :: "'k \<Rightarrow> 'v \<Rightarrow> bool"
    and obs :: "'v \<Rightarrow> 'o"
    and view :: "'s \<Rightarrow> 'k \<Rightarrow> 'o option"
    and inv :: "'s \<Rightarrow> bool"
  assumes get_keeps: "inv s \<Longrightarrow> get k s = (r, s') \<Longrightarrow> inv s' \<and> view s' = view s"
    and get_sound: "inv s \<Longrightarrow> get k s = (Ok v, s') \<Longrightarrow> view s k = Some (obs v)"
    and put_inv: "inv s \<Longrightarrow> valid k v \<Longrightarrow> put k v s = (Ok (), s') \<Longrightarrow> inv s'"
    and put_sound: "inv s \<Longrightarrow> valid k v \<Longrightarrow> put k v s = (Ok (), s') \<Longrightarrow> view s' k' = Some x \<Longrightarrow>
      (if k' = k then x = obs v else view s k' = Some x)"
begin

lemma run_sound:
  assumes "inv s" and "puts_ok valid ops" and "run_ops put get ops s = Some s'"
    and "\<And>k x. view s k = Some x \<Longrightarrow> \<exists>v. m k = Some v \<and> x = obs v"
  shows "inv s' \<and> (\<forall>k x. view s' k = Some x \<longrightarrow> (\<exists>v. map_ops m ops k = Some v \<and> x = obs v))"
  using assms
proof (induction ops arbitrary: s m)
  case (Cons oper ops)
  show ?case
  proof (cases oper)
    case (Put k v)
    obtain s1 where s1: "put k v s = (Ok (), s1)" "run_ops put get ops s1 = Some s'"
      by (rule run_Put [OF Cons.prems(3) [unfolded Put]])
    have ok: "valid k v" "puts_ok valid ops" using Cons.prems(2) Put by (auto simp: puts_ok_def)
    have "\<exists>w. (m(k \<mapsto> v)) k' = Some w \<and> x = obs w" if "view s1 k' = Some x" for k' x
      using put_sound [OF Cons.prems(1) ok(1) s1(1) that] Cons.prems(4) by (auto split: if_splits)
    from Cons.IH [OF put_inv [OF Cons.prems(1) ok(1) s1(1)] ok(2) s1(2) this] show ?thesis
      unfolding Put map_ops.simps .
  next
    case (Get k)
    have "inv (snd (get k s)) \<and> view (snd (get k s)) = view s"
      using get_keeps [OF Cons.prems(1)] by (metis prod.collapse)
    then show ?thesis using Cons.IH [of "snd (get k s)" m] Cons.prems Get by (simp add: puts_ok_def)
  qed
qed simp

lemma never_stale:
  assumes "inv s" and "view s = (\<lambda>_. None)" and "puts_ok valid ops" and "run_ops put get ops s = Some s1"
    and "get k s1 = (Ok v, s2)"
  shows "\<exists>w. map_ops (\<lambda>_. None) ops k = Some w \<and> obs v = obs w"
proof -
  have "inv s1" and v: "\<forall>k x. view s1 k = Some x \<longrightarrow> (\<exists>v. map_ops (\<lambda>_. None) ops k = Some v \<and> x = obs v)"
    using run_sound [OF assms(1,3,4), of "\<lambda>_. None"] assms(2) by simp_all
  then show ?thesis using get_sound [OF _ assms(5)] by blast
qed

end

locale durable_table = store_table +
  assumes put_holds: "inv s \<Longrightarrow> valid k v \<Longrightarrow> put k v s = (Ok (), s') \<Longrightarrow> view s' = (view s)(k \<mapsto> obs v)"
    and get_holds: "inv s \<Longrightarrow> view s k = Some x \<Longrightarrow> \<exists>v s'. get k s = (Ok v, s') \<and> obs v = x"
begin

lemma run_holds:
  assumes "inv s" and "puts_ok valid ops" and "run_ops put get ops s = Some s'"
    and "view s = (\<lambda>k. map_option obs (m k))"
  shows "inv s' \<and> view s' = (\<lambda>k. map_option obs (map_ops m ops k))"
  using assms
proof (induction ops arbitrary: s m)
  case (Cons oper ops)
  show ?case
  proof (cases oper)
    case (Put k v)
    obtain s1 where s1: "put k v s = (Ok (), s1)" "run_ops put get ops s1 = Some s'"
      by (rule run_Put [OF Cons.prems(3) [unfolded Put]])
    have ok: "valid k v" "puts_ok valid ops" using Cons.prems(2) Put by (auto simp: puts_ok_def)
    have "view s1 = (\<lambda>k'. map_option obs ((m(k \<mapsto> v)) k'))"
      using put_holds [OF Cons.prems(1) ok(1) s1(1)] Cons.prems(4) by auto
    from Cons.IH [OF put_inv [OF Cons.prems(1) ok(1) s1(1)] ok(2) s1(2) this] show ?thesis
      unfolding Put map_ops.simps .
  next
    case (Get k)
    have "inv (snd (get k s)) \<and> view (snd (get k s)) = view s"
      using get_keeps [OF Cons.prems(1)] by (metis prod.collapse)
    then show ?thesis using Cons.IH [of "snd (get k s)" m] Cons.prems Get by (simp add: puts_ok_def)
  qed
qed simp

lemma reads_map:
  assumes "inv s" and "view s = (\<lambda>k. map_option obs (m k))"
  shows "case m k of Some v \<Rightarrow> \<exists>v'. fst (get k s) = Ok v' \<and> obs v' = obs v | None \<Rightarrow> \<not> is_Ok (fst (get k s))"
proof (cases "m k")
  case None
  have "\<not> is_Ok r" if r: "get k s = (r, s')" for r s'
  proof (cases r)
    case (Ok v)
    then show ?thesis using get_sound [OF assms(1), of k v s'] r None assms(2) by simp
  qed simp_all
  then have "\<not> is_Ok (fst (get k s))" by (metis prod.collapse)
  then show ?thesis using None by simp
next
  case (Some v)
  then obtain v' s' where "get k s = (Ok v', s')" "obs v' = obs v"
    using get_holds [OF assms(1), of k "obs v"] assms(2) by auto
  then show ?thesis using Some by simp
qed

end

section \<open>The in-memory store\<close>

lemma lru_add_sound:
  "lru_inv c \<Longrightarrow> lru_lookup (lru_add k v c) k' = Some x \<Longrightarrow> (if k' = k then x = v else lru_lookup c k' = Some x)"
  using lru_lookup_Add_sound [of c k v k' x] by auto

interpretation inmem_rounds: store_table SetRound GetRound "\<lambda>_ _. True" id
    "\<lambda>s. lru_lookup (is_roundCache s)" "\<lambda>s. lru_inv (is_roundCache s)"
  by unfold_locales
    (auto simp: SetRound_def GetRound_def Let_def split_beta lru_inv_Get lru_inv_Add dest: lru_add_sound split: option.splits if_splits)

lemma inmem_SetBlock_run:
  "SetBlock b s = (Ok (), s\<lparr>is_blockCache := lru_add (bl_Index b) b (lru_touch (bl_Index b) (is_blockCache s)),
     is_lastBlock := (if bl_Index b > is_lastBlock s then bl_Index b else is_lastBlock s)\<rparr>)"
  by (auto simp: SetBlock_def GetBlock_def Let_def split_beta tryG_def go_defs split: option.splits)

interpretation inmem_blocks: store_table "\<lambda>_. SetBlock" GetBlock "\<lambda>k b. bl_Index b = k" id
    "\<lambda>s. lru_lookup (is_blockCache s)" "\<lambda>s. lru_inv (is_blockCache s)"
  by unfold_locales
    (auto simp: inmem_SetBlock_run GetBlock_def Let_def split_beta lru_inv_Get lru_inv_Add dest: lru_add_sound [OF lru_inv_Get]
      split: option.splits if_splits)

lemma SetFrame_cache:
  "fst (SetFrame f s) = Ok () \<and>
   is_frameCache (snd (SetFrame f s)) = lru_add (fr_Round f) f (lru_touch (fr_Round f) (is_frameCache s))"
  by (auto simp: SetFrame_def put_frame_def store_GetFrame_def Let_def split_beta tryG_def go_defs
      split: option.splits)

interpretation inmem_frames: store_table "\<lambda>_. SetFrame" store_GetFrame "\<lambda>k f. fr_Round f = k" id
    "\<lambda>s. lru_lookup (is_frameCache s)" "\<lambda>s. lru_inv (is_frameCache s)"
proof unfold_locales
  fix s k v s'
  assume s: "lru_inv (is_frameCache s)" "fr_Round v = k" "SetFrame v s = (Ok (), s')"
  note c = conjunct2 [OF SetFrame_cache [of v s], unfolded s(3) snd_conv s(2)]
  show "lru_inv (is_frameCache s')" using s(1) by (simp add: c lru_inv_Add lru_inv_Get)
  show "if k' = k then x = id v else lru_lookup (is_frameCache s) k' = Some x"
    if "lru_lookup (is_frameCache s') k' = Some x" for k' x
    using lru_add_sound [OF lru_inv_Get [OF s(1), of k], of k v k' x] that by (auto simp: c split: if_splits)
qed (auto simp: store_GetFrame_def Let_def split_beta lru_inv_Get split: option.splits)

section \<open>The Badger store: rounds and frames\<close>

text \<open>These are written to the database as well, but read from the cache only.\<close>

lemma onInmem_eq: "onInmem m s = (r, s') \<longleftrightarrow> (\<exists>i. m (bg_inmem s) = (r, i) \<and> s' = s\<lparr>bg_inmem := i\<rparr>)"
  by (auto simp: onInmem_def split: prod.splits)

lemma unless_maintenance_inmem: "unless_maintenance (db_write D ws) s = (r, s') \<Longrightarrow> bg_inmem s' = bg_inmem s"
  by (auto simp: unless_maintenance_def db_write_def bindG_def go_defs split: if_splits prod.splits)

lemma badger_table:
  fixes D :: "'db badger_ops"
  assumes "store_table put get valid obs view I"
  shows "store_table (\<lambda>k v. bindG (onInmem (put k v)) (\<lambda>_. unless_maintenance (db_write D (ws k v)))) (\<lambda>k. onInmem (get k))
    valid obs (\<lambda>s. view (bg_inmem s)) (\<lambda>s. I (bg_inmem s))"
proof
  fix k v and s s' :: "'db BadgerStore"
  assume s: "I (bg_inmem s)" "valid k v"
    and "bindG (onInmem (put k v)) (\<lambda>_. unless_maintenance (db_write D (ws k v))) s = (Ok (), s')"
  then have i: "put k v (bg_inmem s) = (Ok (), bg_inmem s')"
    by (auto simp: bindG_eq_Ok onInmem_eq dest!: unless_maintenance_inmem)
  show "I (bg_inmem s')" using assms s i by (rule store_table.put_inv)
  show "if k' = k then x = obs v else view (bg_inmem s) k' = Some x" if "view (bg_inmem s') k' = Some x" for k' x
    using assms s i that by (rule store_table.put_sound)
next
  fix k r and s s' :: "'db BadgerStore"
  assume "I (bg_inmem s)" "onInmem (get k) s = (r, s')"
  then show "I (bg_inmem s') \<and> view (bg_inmem s') = view (bg_inmem s)"
    using store_table.get_keeps [OF assms] by (auto simp: onInmem_eq)
next
  fix k v and s s' :: "'db BadgerStore"
  assume "I (bg_inmem s)" "onInmem (get k) s = (Ok v, s')"
  then show "view (bg_inmem s) k = Some (obs v)" using store_table.get_sound [OF assms] by (auto simp: onInmem_eq)
qed

interpretation badger_rounds: store_table "bg_SetRound D" bg_GetRound "\<lambda>_ _. True" id
    "\<lambda>s. lru_lookup (is_roundCache (bg_inmem s))" "\<lambda>s. lru_inv (is_roundCache (bg_inmem s))" for D
  unfolding bg_SetRound_def [abs_def] bg_GetRound_def [abs_def] dbSetRound_def
  by (rule badger_table) (rule inmem_rounds.store_table_axioms)

interpretation badger_frames: store_table "\<lambda>_. bg_SetFrame D" bg_GetFrame "\<lambda>k f. fr_Round f = k" id
    "\<lambda>s. lru_lookup (is_frameCache (bg_inmem s))" "\<lambda>s. lru_inv (is_frameCache (bg_inmem s))" for D
  unfolding bg_SetFrame_def [abs_def] bg_GetFrame_def [abs_def] dbSetFrame_def
  by (rule badger_table) (rule inmem_frames.store_table_axioms)

text \<open>So neither store returns a round, a block or a frame that was overwritten.\<close>

lemmas stores_never_stale =
  inmem_rounds.never_stale inmem_blocks.never_stale inmem_frames.never_stale badger_rounds.never_stale badger_frames.never_stale

section \<open>The Badger store: blocks\<close>

lemma pad9_inj: "pad9 i = pad9 j \<Longrightarrow> i = j"
proof -
  assume eq: "pad9 i = pad9 j"
  let ?parse = "foldl (parse_step 10) (Some 0)" and ?digits = "\<lambda>n k. replicate n (CHR ''0'') @ show_base 10 (nat \<bar>k\<bar>)"
  have zero: "parse_step 10 (Some 0) (CHR ''0'') = Some 0" by code_simp
  have "?parse (replicate n (CHR ''0'')) = Some 0" for n by (induction n) (simp_all add: zero)
  then have parse: "?parse (?digits n k) = Some (nat \<bar>k\<bar>)" for n and k :: int
    by (simp add: foldl_parse_show)
  have pad: "pad9 k = (if k < 0 then CHR ''-'' # ?digits (8 - length (show_base 10 (nat \<bar>k\<bar>))) k
      else ?digits (9 - length (show_base 10 (nat \<bar>k\<bar>))) k)" for k
    by (simp add: pad9_def Let_def)
  have "CHR ''-'' \<notin> set (?digits n k)" for n and k :: int using show_base10_no_dash by auto
  then have "CHR ''-'' \<in> set (pad9 k) \<longleftrightarrow> k < 0" for k unfolding pad [of k] by (auto simp: show_base10_no_dash)
  then have sign: "i < 0 \<longleftrightarrow> j < 0" using eq by metis
  then have "nat \<bar>i\<bar> = nat \<bar>j\<bar>" using eq unfolding pad by (metis list.inject option.inject parse)
  with sign show ?thesis by linarith
qed

definition stored_block :: "Block \<Rightarrow> Block" where
  "stored_block b = b\<lparr>bl_peerSet := NewPeerSet []\<rparr>"

definition db_block :: "'db badger_ops \<Rightarrow> 'db \<Rightarrow> int \<Rightarrow> Block option" where
  "db_block D db k = (case db_Get D db (blockKey k) of Ok (V_Block b) \<Rightarrow> Some (stored_block b) | _ \<Rightarrow> None)"

definition blocks_inv :: "'db badger_ops \<Rightarrow> 'db BadgerStore \<Rightarrow> bool" where
  "blocks_inv D s \<longleftrightarrow> db_ok D \<and> \<not> bg_maintenanceMode s \<and> lru_inv (is_blockCache (bg_inmem s)) \<and>
     (\<forall>k b. lru_lookup (is_blockCache (bg_inmem s)) k = Some b \<longrightarrow> db_block D (bg_db s) k = Some (stored_block b))"

lemma bg_GetBlock_run:
  "\<exists>s'. bg_GetBlock D k s = (case lru_lookup (is_blockCache (bg_inmem s)) k of
       Some b \<Rightarrow> Ok b
     | None \<Rightarrow> (case bindO (db_Get D (bg_db s) (blockKey k)) bl_Unmarshal of
          Ok b \<Rightarrow> Ok b
        | Err e \<Rightarrow> Err (if isDBKeyNotFound D e then NewStoreErr ''Block'' KeyNotFound (blockKey k) else e)
        | Panic \<Rightarrow> Panic
        | Diverge \<Rightarrow> Diverge), s') \<and>
     bg_db s' = bg_db s \<and> bg_maintenanceMode s' = bg_maintenanceMode s \<and>
     is_blockCache (bg_inmem s') = lru_touch k (is_blockCache (bg_inmem s))"
  by (auto simp: bg_GetBlock_def mapError_def or_else_def onInmem_def GetBlock_def dbGetBlock_def db_read_def isDBKeyNotFound_def
      tryG_def bindG_def bindO_def go_defs Let_def split_beta split: option.splits outcome.splits)

lemma bg_GetBlock_hit:
  "bg_GetBlock D k s = (Ok v, s') \<Longrightarrow> lru_lookup (is_blockCache (bg_inmem s)) k = Some b \<Longrightarrow> v = b"
  using bg_GetBlock_run [of D k s] by auto

lemma bg_GetBlock_miss:
  assumes "bg_GetBlock D k s = (Ok v, s')" and "lru_lookup (is_blockCache (bg_inmem s)) k = None"
  shows "db_Get D (bg_db s) (blockKey k) = Ok (V_Block v)"
proof -
  have "Ok v = (case bindO (db_Get D (bg_db s) (blockKey k)) bl_Unmarshal of
      Ok b \<Rightarrow> Ok b
    | Err e \<Rightarrow> Err (if isDBKeyNotFound D e then NewStoreErr ''Block'' KeyNotFound (blockKey k) else e)
    | Panic \<Rightarrow> Panic
    | Diverge \<Rightarrow> Diverge)"
    using bg_GetBlock_run [of D k s] assms by auto
  then show ?thesis
    by (cases "db_Get D (bg_db s) (blockKey k)") (auto simp: bindO_def bl_Unmarshal_def split: db_value.splits)
qed

lemma bg_GetBlock_found:
  assumes "lru_lookup (is_blockCache (bg_inmem s)) k = None" and "db_block D (bg_db s) k = Some x"
  shows "\<exists>v s'. bg_GetBlock D k s = (Ok v, s') \<and> stored_block v = x"
proof -
  obtain b where b: "db_Get D (bg_db s) (blockKey k) = Ok (V_Block b)" "x = stored_block b"
    using assms(2) by (auto simp: db_block_def split: outcome.splits db_value.splits)
  then show ?thesis using bg_GetBlock_run [of D k s] assms(1) by (auto simp: bindO_def bl_Unmarshal_def)
qed

lemma bg_SetBlock_run:
  assumes inv: "blocks_inv D s" and run: "bg_SetBlock D b s = (Ok (), s')"
  shows "db_block D (bg_db s') = (db_block D (bg_db s))(bl_Index b \<mapsto> stored_block b)" and "blocks_inv D s'"
proof -
  obtain i where i: "SetBlock b (bg_inmem s) = (Ok (), i)"
    and w: "db_write D [(blockKey (bl_Index b), bl_Marshal b)] (s\<lparr>bg_inmem := i\<rparr>) = (Ok (), s')"
    using run inv
    by (auto simp: bg_SetBlock_def bindG_eq_Ok onInmem_eq unless_maintenance_def dbSetBlock_def go_defs blocks_inv_def)
  note w = db_write_get [OF _ w]
  have D: "db_ok D" using inv by (simp add: blocks_inv_def)
  have "blockKey k = blockKey (bl_Index b) \<longleftrightarrow> k = bl_Index b" for k by (auto simp: blockKey_def dest: pad9_inj)
  then show view: "db_block D (bg_db s') = (db_block D (bg_db s))(bl_Index b \<mapsto> stored_block b)"
    by (intro ext) (auto simp: db_block_def w(3) [OF D] bl_Marshal_def stored_block_def)
  have cache: "is_blockCache (bg_inmem s') = lru_add (bl_Index b) b (lru_touch (bl_Index b) (is_blockCache (bg_inmem s)))"
    using arg_cong [of _ _ "is_blockCache \<circ> snd", OF i] w(1) [OF D] by (simp add: inmem_SetBlock_run)
  have "db_block D (bg_db s') k = Some (stored_block c)" if "lru_lookup (is_blockCache (bg_inmem s')) k = Some c" for k c
  proof -
    have "lru_inv (lru_touch (bl_Index b) (is_blockCache (bg_inmem s)))" using inv by (simp add: blocks_inv_def lru_inv_Get)
    from lru_add_sound [OF this, of "bl_Index b" b k c] that inv show ?thesis
      by (auto simp: cache view blocks_inv_def split: if_splits)
  qed
  then show "blocks_inv D s'" using inv w(2) [OF D] by (simp add: blocks_inv_def cache lru_inv_Add lru_inv_Get)
qed

interpretation badger_blocks: durable_table "\<lambda>_. bg_SetBlock D" "bg_GetBlock D" "\<lambda>k b. bl_Index b = k" stored_block
    "\<lambda>s. db_block D (bg_db s)" "blocks_inv D" for D
proof unfold_locales
  fix k r and s s' :: "'a BadgerStore"
  assume "blocks_inv D s" "bg_GetBlock D k s = (r, s')"
  then show "blocks_inv D s' \<and> db_block D (bg_db s') = db_block D (bg_db s)"
    using bg_GetBlock_run [of D k s] by (auto simp: blocks_inv_def lru_inv_Get)
next
  fix k v and s s' :: "'a BadgerStore"
  assume inv: "blocks_inv D s" and get: "bg_GetBlock D k s = (Ok v, s')"
  show "db_block D (bg_db s) k = Some (stored_block v)"
  proof (cases "lru_lookup (is_blockCache (bg_inmem s)) k")
    case None
    then show ?thesis using bg_GetBlock_miss [OF get] by (simp add: db_block_def)
  next
    case (Some b)
    then show ?thesis using bg_GetBlock_hit [OF get Some] inv by (simp add: blocks_inv_def)
  qed
next
  fix k v and s s' :: "'a BadgerStore"
  assume s: "blocks_inv D s" "bl_Index v = k" "bg_SetBlock D v s = (Ok (), s')"
  note run = bg_SetBlock_run [OF s(1,3), unfolded s(2)]
  show "blocks_inv D s'" "db_block D (bg_db s') = (db_block D (bg_db s))(k \<mapsto> stored_block v)" by (rule run)+
  show "if k' = k then x = stored_block v else db_block D (bg_db s) k' = Some x" if "db_block D (bg_db s') k' = Some x" for k' x
    using that run(1) by auto
next
  fix k x and s :: "'a BadgerStore"
  assume inv: "blocks_inv D s" and x: "db_block D (bg_db s) k = Some x"
  show "\<exists>v s'. bg_GetBlock D k s = (Ok v, s') \<and> stored_block v = x"
  proof (cases "lru_lookup (is_blockCache (bg_inmem s)) k")
    case None
    then show ?thesis using x by (rule bg_GetBlock_found)
  next
    case (Some b)
    then have "stored_block b = x" using inv x by (simp add: blocks_inv_def)
    moreover have "\<exists>s'. bg_GetBlock D k s = (Ok b, s')" using bg_GetBlock_run [of D k s] Some by auto
    ultimately show ?thesis by blast
  qed
qed

section \<open>The Badger store: events\<close>

definition events_view :: "'db badger_ops \<Rightarrow> 'db \<Rightarrow> string \<Rightarrow> Event option" where
  "events_view D db k = map_option without_consensus (db_event D db k)"

definition events_inv :: "'db badger_ops \<Rightarrow> crypto \<Rightarrow> 'db BadgerStore \<Rightarrow> bool" where
  "events_inv D P s \<longleftrightarrow> db_ok D \<and> bg_inv D P s \<and> (\<forall>k. db_event D (bg_db s) k \<noteq> None \<longrightarrow> (\<exists>f. k = Hex P f))"

lemma bg_GetEvent_state:
  assumes "bg_GetEvent D k s = (r, s')"
  shows "bg_db s' = bg_db s \<and> bg_maintenanceMode s' = bg_maintenanceMode s \<and>
    is_eventCache (bg_inmem s') = lru_touch k (is_eventCache (bg_inmem s))"
  using assms
  by (auto simp: bg_GetEvent_def mapError_def or_else_def onInmem_def GetEvent_def dbGetEvent_def db_read_def
      tryG_def bindG_def go_defs Let_def split_beta split: option.splits outcome.splits if_splits)

lemma bg_GetEvent_hit:
  "bg_GetEvent D k s = (Ok v, s') \<Longrightarrow> lru_lookup (is_eventCache (bg_inmem s)) k = Some e \<Longrightarrow> v = e"
  by (simp add: bg_GetEvent_def mapError_def or_else_def onInmem_def GetEvent_def tryG_def go_defs Let_def split_beta)

lemma bg_GetEvent_miss:
  assumes "bg_GetEvent D k s = (Ok v, s')" and "lru_lookup (is_eventCache (bg_inmem s)) k = None"
  shows "db_event D (bg_db s) k = Some v"
proof (cases "db_Get D (bg_db s) k")
  case (Ok w)
  then show ?thesis using assms
    by (cases w) (auto simp: bg_GetEvent_def mapError_def or_else_def onInmem_def GetEvent_def dbGetEvent_def db_read_def
        ev_Unmarshal_def db_event_def tryG_def bindG_def go_defs Let_def split_beta split: if_splits)
qed (use assms in \<open>auto simp: bg_GetEvent_def mapError_def or_else_def onInmem_def GetEvent_def dbGetEvent_def db_read_def
    tryG_def bindG_def go_defs Let_def split_beta split: if_splits\<close>)

lemma bg_SetEvent_view:
  assumes inv: "events_inv D P s" and run: "bg_SetEvent D P e s = (Ok (), s')"
  shows "events_view D (bg_db s') = (events_view D (bg_db s))(Hex P e \<mapsto> without_consensus e)" and "events_inv D P s'"
proof -
  have D: "db_ok D" and bg: "bg_inv D P s" using inv by (simp_all add: events_inv_def)
  note set_e = bg_SetEvent_Ok [OF D bg run]
  obtain i where w: "db_write D (event_writes D P (bg_db s) e []) (s\<lparr>bg_inmem := i\<rparr>) = (Ok (), s')"
    using run bg
    by (auto simp: bg_SetEvent_def bindG_eq_Ok onInmem_eq unless_maintenance_def dbSetEvents_def go_defs bg_inv_def)
  have none: "db_event D (bg_db s') k = None" if k: "\<nexists>f. k = Hex P f" for k
  proof -
    have "k \<noteq> Hex P e" "db_event D (bg_db s) k = None" using inv k by (auto simp: events_inv_def)
    then show ?thesis by (auto simp: db_event_def db_write_get(3) [OF D w] event_writes_def Let_def)
  qed
  have "\<exists>f. k = Hex P f" if "db_event D (bg_db s') k \<noteq> None" for k
    using none [of k] that by (rule contrapos_np [rotated])
  then show "events_inv D P s'" using D set_e(1) by (simp add: events_inv_def)
  show "events_view D (bg_db s') = (events_view D (bg_db s))(Hex P e \<mapsto> without_consensus e)"
  proof
    fix k
    show "events_view D (bg_db s') k = ((events_view D (bg_db s))(Hex P e \<mapsto> without_consensus e)) k"
    proof (cases "\<exists>f. k = Hex P f")
      case True
      then obtain f where f: "k = Hex P f" by (rule exE)
      show ?thesis using set_e(2) [of f] unfolding f by (simp add: events_view_def without_consensus_def)
    next
      case False
      then have "db_event D (bg_db s) k = None" "k \<noteq> Hex P e" using inv by (auto simp: events_inv_def)
      then show ?thesis using none [OF False] by (simp add: events_view_def)
    qed
  qed
qed

interpretation badger_events: durable_table "\<lambda>_. bg_SetEvent D P" "bg_GetEvent D" "\<lambda>k e. Hex P e = k" without_consensus
    "\<lambda>s. events_view D (bg_db s)" "events_inv D P" for D P
proof unfold_locales
  fix k r and s s' :: "'a BadgerStore"
  assume "events_inv D P s" "bg_GetEvent D k s = (r, s')"
  then show "events_inv D P s' \<and> events_view D (bg_db s') = events_view D (bg_db s)"
    using bg_GetEvent_state [of D k s r s'] by (simp add: events_inv_def bg_inv_def lru_inv_Get)
next
  fix k v and s s' :: "'a BadgerStore"
  assume inv: "events_inv D P s" and get: "bg_GetEvent D k s = (Ok v, s')"
  show "events_view D (bg_db s) k = Some (without_consensus v)"
  proof (cases "lru_lookup (is_eventCache (bg_inmem s)) k")
    case None
    then show ?thesis using bg_GetEvent_miss [OF get] by (simp add: events_view_def)
  next
    case (Some e)
    then show ?thesis using bg_GetEvent_hit [OF get Some] inv
      by (simp add: events_inv_def bg_inv_def events_view_def without_consensus_def)
  qed
next
  fix k v and s s' :: "'a BadgerStore"
  assume s: "events_inv D P s" "Hex P v = k" "bg_SetEvent D P v s = (Ok (), s')"
  note run = bg_SetEvent_view [OF s(1,3), unfolded s(2)]
  show "events_inv D P s'" "events_view D (bg_db s') = (events_view D (bg_db s))(k \<mapsto> without_consensus v)" by (rule run)+
  show "if k' = k then x = without_consensus v else events_view D (bg_db s) k' = Some x"
    if "events_view D (bg_db s') k' = Some x" for k' x
    using that run(1) by auto
next
  fix k x and s :: "'a BadgerStore"
  assume inv: "events_inv D P s" and x: "events_view D (bg_db s) k = Some x"
  then obtain e where "db_event D (bg_db s) k = Some e" "x = without_consensus e" by (auto simp: events_view_def)
  then show "\<exists>v s'. bg_GetEvent D k s = (Ok v, s') \<and> without_consensus v = x"
    using bg_GetEvent_run [of D P s k e] inv by (auto simp: events_inv_def)
qed

section \<open>Restarts\<close>

text \<open>A store that is opened on a database starts with an empty cache.\<close>

lemma lru_lookup_New: "lru_lookup (NewLRU n) k = None"
  by (simp add: lru_lookup_def NewLRU_def)

lemma opened_store:
  assumes "NewBadgerStore n (Ok db) False = Ok s"
  shows "bg_db s = db" and "db_ok D \<Longrightarrow> blocks_inv D s"
    and "db_ok D \<Longrightarrow> (\<And>k. db_event D db k \<noteq> None \<Longrightarrow> \<exists>f. k = Hex P f) \<Longrightarrow> events_inv D P s"
  using assms
  by (auto simp: NewBadgerStore_def bindO_def blocks_inv_def events_inv_def bg_inv_def NewInmemStore_def lru_inv_New lru_lookup_New)

text \<open>C18: The events that were stored survive a restart. After any sequence of reads and successful writes, a store that is
  opened on the same database, with a cache of any size, returns for every hash the event that was stored last under
  it, with all its fields but the ones that consensus sets, and nothing for other hashes.\<close>

theorem events_survive_restart:
  assumes "events_inv D P s0" and "events_view D (bg_db s0) = (\<lambda>_. None)" and "puts_ok (\<lambda>k e. Hex P e = k) ops"
    and "run_ops (\<lambda>_. bg_SetEvent D P) (bg_GetEvent D) ops s0 = Some s1"
    and "NewBadgerStore n (Ok (bg_db s1)) False = Ok s2"
  shows "case map_ops (\<lambda>_. None) ops k of
      Some e \<Rightarrow> \<exists>e'. fst (bg_GetEvent D k s2) = Ok e' \<and> without_consensus e' = without_consensus e
    | None \<Rightarrow> \<not> is_Ok (fst (bg_GetEvent D k s2))"
proof -
  have run: "events_inv D P s1" "events_view D (bg_db s1) = (\<lambda>k. map_option without_consensus (map_ops (\<lambda>_. None) ops k))"
    using badger_events.run_holds [OF assms(1,3,4), of "\<lambda>_. None"] assms(2) by simp_all
  have inv: "events_inv D P s2" and db: "bg_db s2 = bg_db s1"
    using opened_store(1) [OF assms(5)] opened_store(3) [OF assms(5), of D P] run(1) by (auto simp: events_inv_def)
  show ?thesis using badger_events.reads_map [OF inv, of "map_ops (\<lambda>_. None) ops" k] db run(2) by simp
qed

text \<open>C19: The same holds for blocks, with all their fields but the peer-set that is attached to a block in memory.\<close>

theorem blocks_survive_restart:
  assumes "blocks_inv D s0" and "db_block D (bg_db s0) = (\<lambda>_. None)" and "puts_ok (\<lambda>k b. bl_Index b = k) ops"
    and "run_ops (\<lambda>_. bg_SetBlock D) (bg_GetBlock D) ops s0 = Some s1"
    and "NewBadgerStore n (Ok (bg_db s1)) False = Ok s2"
  shows "case map_ops (\<lambda>_. None) ops k of
      Some b \<Rightarrow> \<exists>b'. fst (bg_GetBlock D k s2) = Ok b' \<and> stored_block b' = stored_block b
    | None \<Rightarrow> \<not> is_Ok (fst (bg_GetBlock D k s2))"
proof -
  have run: "blocks_inv D s1" "db_block D (bg_db s1) = (\<lambda>k. map_option stored_block (map_ops (\<lambda>_. None) ops k))"
    using badger_blocks.run_holds [OF assms(1,3,4), of "\<lambda>_. None"] assms(2) by simp_all
  have inv: "blocks_inv D s2" and db: "bg_db s2 = bg_db s1"
    using opened_store(1) [OF assms(5)] opened_store(2) [OF assms(5), of D] run(1) by (auto simp: blocks_inv_def)
  show ?thesis using badger_blocks.reads_map [OF inv, of "map_ops (\<lambda>_. None) ops" k] db run(2) by simp
qed

lemma list_db_no_events:
  "list_all (\<lambda>(k, v). case v of V_Event _ \<Rightarrow> False | _ \<Rightarrow> True) db \<Longrightarrow> db_event list_db db k = None"
  by (auto simp: db_event_def list_db_def list_all_iff split: option.splits outcome.splits db_value.splits dest!: map_of_SomeD)

theorem events_survive_restart_witness:
  "\<exists>s1 s2 e'. run_ops (\<lambda>_. bg_SetEvent list_db sample_crypto) (bg_GetEvent list_db)
       [Put (Hex sample_crypto sample_e1) sample_e1, Put (Hex sample_crypto sample_e2) sample_e2] small_store = Some s1 \<and>
     NewBadgerStore 1 (Ok (bg_db s1)) False = Ok s2 \<and>
     fst (bg_GetEvent list_db (Hex sample_crypto sample_e1) s2) = Ok e' \<and> without_consensus e' = without_consensus sample_e1"
proof -
  let ?ops = "[Put (Hex sample_crypto sample_e1) sample_e1, Put (Hex sample_crypto sample_e2) sample_e2]"
  have "run_ops (\<lambda>_. bg_SetEvent list_db sample_crypto) (bg_GetEvent list_db) ?ops small_store \<noteq> None" by code_simp
  then obtain s1 where s1: "run_ops (\<lambda>_. bg_SetEvent list_db sample_crypto) (bg_GetEvent list_db) ?ops small_store = Some s1" by blast
  obtain s2 where s2: "NewBadgerStore 1 (Ok (bg_db s1)) False = Ok s2" by (simp add: NewBadgerStore_def bindO_def)
  have "list_all (\<lambda>(k, v). case v of V_Event _ \<Rightarrow> False | _ \<Rightarrow> True) (bg_db small_store)" by code_simp
  then have none: "db_event list_db (bg_db small_store) k = None" for k by (rule list_db_no_events)
  have view: "events_view list_db (bg_db small_store) = (\<lambda>_. None)" by (rule ext) (simp add: events_view_def none)
  have "\<not> bg_maintenanceMode small_store" "lru_evictList (is_eventCache (bg_inmem small_store)) = []" by code_simp+
  then have inv: "events_inv list_db sample_crypto small_store"
    using none by (simp add: events_inv_def bg_inv_def lru_inv_def lru_lookup_def list_db_ok)
  have puts: "puts_ok (\<lambda>k e. Hex sample_crypto e = k) ?ops" by (simp add: puts_ok_def)
  have "Hex sample_crypto sample_e2 \<noteq> Hex sample_crypto sample_e1" by code_simp
  then have m: "map_ops (\<lambda>_. None) ?ops (Hex sample_crypto sample_e1) = Some sample_e1" by simp
  from events_survive_restart [OF inv view puts s1 s2, of "Hex sample_crypto sample_e1", unfolded m option.case]
  obtain e' where "fst (bg_GetEvent list_db (Hex sample_crypto sample_e1) s2) = Ok e'"
    "without_consensus e' = without_consensus sample_e1" by (elim exE conjE)
  with s1 s2 show ?thesis by (intro exI conjI)
qed

definition numbered_block :: "int \<Rightarrow> Block" where
  "numbered_block i =
     \<lparr>bl_Body = \<lparr>bb_Index = i, bb_RoundReceived = i + 1, bb_Timestamp = 0, bb_StateHash = [], bb_FrameHash = [], bb_PeersHash = [],
        bb_Transactions = [], bb_InternalTransactions = [], bb_InternalTransactionReceipts = []\<rparr>,
      bl_Signatures = [], bl_peerSet = sample_peers\<rparr>"

definition empty_store :: "(string \<times> db_value) list BadgerStore" where
  "empty_store = \<lparr>bg_inmem = NewInmemStore 1, bg_db = [], bg_maintenanceMode = False\<rparr>"

theorem blocks_survive_restart_witness:
  "\<exists>s1 s2 b. run_ops (\<lambda>_. bg_SetBlock list_db) (bg_GetBlock list_db) [Put 0 (numbered_block 0), Put 1 (numbered_block 1)] empty_store = Some s1 \<and>
     NewBadgerStore 1 (Ok (bg_db s1)) False = Ok s2 \<and> fst (bg_GetBlock list_db 0 s2) = Ok b \<and> bl_Index b = 0"
proof -
  let ?ops = "[Put 0 (numbered_block 0), Put 1 (numbered_block 1)]"
  have "run_ops (\<lambda>_. bg_SetBlock list_db) (bg_GetBlock list_db) ?ops empty_store \<noteq> None" by code_simp
  then obtain s1 where s1: "run_ops (\<lambda>_. bg_SetBlock list_db) (bg_GetBlock list_db) ?ops empty_store = Some s1" by blast
  obtain s2 where s2: "NewBadgerStore 1 (Ok (bg_db s1)) False = Ok s2" by (simp add: NewBadgerStore_def bindO_def)
  have "NewBadgerStore 1 (Ok []) False = Ok empty_store" by (simp add: NewBadgerStore_def bindO_def empty_store_def)
  then have inv: "blocks_inv list_db empty_store" by (rule opened_store(2) [OF _ list_db_ok])
  have none: "db_block list_db (bg_db empty_store) = (\<lambda>_. None)" by (rule ext) (simp add: empty_store_def db_block_def list_db_def)
  have puts: "puts_ok (\<lambda>k b. bl_Index b = k) ?ops" by (simp add: puts_ok_def numbered_block_def)
  have "bl_Index b = 0" if "stored_block b = stored_block (numbered_block 0)" for b
    using that by (cases b) (auto simp: stored_block_def numbered_block_def)
  moreover have m: "map_ops (\<lambda>_. None) ?ops (0 :: int) = Some (numbered_block 0)" by simp
  from blocks_survive_restart [OF inv none puts s1 s2, of 0, unfolded m option.case]
  obtain b where "fst (bg_GetBlock list_db 0 s2) = Ok b" "stored_block b = stored_block (numbered_block 0)" by (elim exE conjE)
  ultimately show ?thesis using s1 s2 by (intro exI conjI)
qed

end
