(* ===== verification/Self_Events.thy ===== *)
theory Self_Events
  imports Membership
begin

text \<open>
  The creation of events by the node itself (\<open>addSelfEvent\<close> of \<open>src/src/node/core.go\<close>), when the consensus pass after the
  insertion fails.

  The core keeps the hash of its last event in \<open>head\<close>, and updates it when \<open>InsertEventAndRunConsensus\<close> returns without
  an error. That method inserts the event first. An error of the consensus methods thus leaves an event in the store that
  is the last one of the validator, while \<open>head\<close> is the one before.
\<close>

definition last_known :: "string \<Rightarrow> 'd core_scheme \<Rightarrow> string res" where
  "last_known me c = pec_GetLast (is_participantEventsCache (h_Store c)) me"

lemma checkSelfParent_behind:
  assumes "SelfParent e = Ok sp" and "last_known (Creator e) c = Ok x" and "x \<noteq> sp"
  shows "checkSelfParent e c = (Err (SelfParentErr ''Self-parent not last known event by creator'' True), c)"
  using assms
  by (simp add: checkSelfParent_def last_known_def onStore_def LastEventFrom_def tryG_def bindG_def go_defs)

lemma InsertEvent_behind:
  assumes "SelfParent e = Ok sp" and "last_known (Creator e) c = Ok x" and "x \<noteq> sp"
  shows "\<not> is_Ok (fst (InsertEvent P e w c)) \<and> snd (InsertEvent P e w c) = c"
  using checkSelfParent_behind [OF assms] assms(1)
  by (cases "ev_Verify P e") (auto simp: InsertEvent_def bindG_def go_defs)

text \<open>The event that \<open>addSelfEvent\<close> builds.\<close>

definition next_self_event :: "crypto \<Rightarrow> (int \<Rightarrow> int) \<Rightarrow> string \<Rightarrow> 'd core_scheme \<Rightarrow> Event" where
  "next_self_event P now otherHead c =
     ev_Sign P (v_Key (c_validator c))
       (NewEvent (c_transactionPool c) (c_internalTransactionPool c) (sp_Slice (c_selfBlockSignatures c))
          [c_head c, otherHead] (v_PublicKeyBytes (c_validator c)) (c_seq c + 1) (now (c_seq c + 1)))"

lemma next_self_event_facts:
  "SelfParent (next_self_event P now otherHead c) = Ok (c_head c)"
  "Creator (next_self_event P now otherHead c) = v_PublicKeyHex (c_validator c)"
  by (simp_all add: next_self_event_def ev_Sign_def NewEvent_def SelfParent_def Creator_def v_PublicKeyHex_def)

definition too_early :: "'d core_scheme \<Rightarrow> bool" where
  "too_early c \<longleftrightarrow> is_lastRound (h_Store c) < c_acceptedRound c"

lemma addSelfEvent_run:
  "\<not> too_early c \<Longrightarrow>
   addSelfEvent P app now otherHead c =
     bindG (insertEventAndRunConsensus P app (next_self_event P now otherHead c) True) (\<lambda>_.
     modifyG (\<lambda>c'. c'\<lparr>c_transactionPool := drop (length (c_transactionPool c)) (c_transactionPool c'),
       c_internalTransactionPool := drop (length (c_internalTransactionPool c)) (c_internalTransactionPool c'),
       c_selfBlockSignatures := RemoveSlice (sp_Slice (c_selfBlockSignatures c)) (c_selfBlockSignatures c')\<rparr>)) c"
  by (simp add: addSelfEvent_def signAndInsertSelfEvent_def next_self_event_def too_early_def Let_def bindG_def go_defs)

lemma addSelfEvent_behind:
  assumes "\<not> too_early c" and "last_known (v_PublicKeyHex (c_validator c)) c = Ok x" and "x \<noteq> c_head c"
  shows "\<not> is_Ok (fst (addSelfEvent P app now otherHead c)) \<and> snd (addSelfEvent P app now otherHead c) = c"
proof -
  have "\<not> is_Ok (fst (InsertEvent P (next_self_event P now otherHead c) True c)) \<and>
      snd (InsertEvent P (next_self_event P now otherHead c) True c) = c"
    using assms(2,3) by (intro InsertEvent_behind) (simp_all add: next_self_event_facts)
  then show ?thesis unfolding addSelfEvent_run [OF assms(1)] insertEventAndRunConsensus_def InsertEventAndRunConsensus_def
    by (cases "InsertEvent P (next_self_event P now otherHead c) True c")
      (auto simp: bindG_def split: outcome.splits)
qed

text \<open>C15: When the last event that the store has of a validator is not the head of its core, the node cannot create
  events any more: however often \<open>addSelfEvent\<close> is called, with whatever other-parents, every call fails, or returns
  because it is too early, and nothing changes, so that the submitted transactions stay in the pool.\<close>

theorem head_behind_blocks_self_events:
  assumes "last_known (v_PublicKeyHex (c_validator c)) c = Ok x" and "x \<noteq> c_head c"
  shows "let results = map (\<lambda>otherHead. fst (addSelfEvent P app now otherHead c)) otherHeads;
             c' = fold (\<lambda>otherHead c. snd (addSelfEvent P app now otherHead c)) otherHeads c in
    c' = c \<and> (too_early c \<or> list_all (\<lambda>r. \<not> is_Ok r) results)"
proof -
  have same: "snd (addSelfEvent P app now otherHead c) = c" for otherHead
    using addSelfEvent_behind [OF _ assms] by (cases "too_early c") (auto simp: addSelfEvent_def too_early_def bindG_def go_defs)
  have "fold (\<lambda>otherHead c. snd (addSelfEvent P app now otherHead c)) otherHeads c = c"
    by (induction otherHeads) (simp_all add: same)
  moreover have "list_all (\<lambda>r. \<not> is_Ok r) (map (\<lambda>otherHead. fst (addSelfEvent P app now otherHead c)) otherHeads)"
    if "\<not> too_early c"
    using addSelfEvent_behind [OF that assms] by (simp add: list_all_iff)
  ultimately show ?thesis by (auto simp: Let_def)
qed

text \<open>How a node gets there: the cache of the in-memory store has room for one event only. The second event is inserted and
  evicts the first one, which the consensus pass then does not find.\<close>

definition lone_core :: core where
  "lone_core =
     newCore \<lparr>v_Key = [1], v_Moniker = ''a''\<rparr> (NewPeerSet [sample_peer 1]) (NewPeerSet [sample_peer 1]) (NewInmemStore 1) False"

definition lone_app :: app where
  "lone_app b = Err (Errorf '''')"

definition lone_step :: "core \<Rightarrow> unit res \<times> core" where
  "lone_step = addSelfEvent sample_crypto lone_app (\<lambda>_. 0) ''''"

lemma lone_core_run:
  "let c1 = lone_step lone_core; c2 = lone_step (snd c1); c = snd c2 in
   is_Ok (fst c1) \<and> fst c2 = Err (NewStoreErr ''EventCache'' KeyNotFound ''0X0001'') \<and>
   last_known (v_PublicKeyHex (c_validator c)) c = Ok ''0X0101'' \<and> c_head c = ''0X0001'' \<and> \<not> too_early c"
  by code_simp

theorem head_behind_blocks_self_events_witness:
  "let c = snd (lone_step (snd (lone_step lone_core))) in
   is_Ok (fst (lone_step lone_core)) \<and>
   last_known (v_PublicKeyHex (c_validator c)) c = Ok ''0X0101'' \<and> ''0X0101'' \<noteq> c_head c \<and>
   snd (lone_step (snd (lone_step c))) = c \<and> \<not> is_Ok (fst (lone_step c))"
proof -
  let ?c = "snd (lone_step (snd (lone_step lone_core)))"
  have run: "is_Ok (fst (lone_step lone_core))" "last_known (v_PublicKeyHex (c_validator ?c)) ?c = Ok ''0X0101''"
      "c_head ?c = ''0X0001''" "\<not> too_early ?c"
    using lone_core_run by (simp_all add: Let_def)
  then show ?thesis
    using head_behind_blocks_self_events [OF run(2), of sample_crypto lone_app "\<lambda>_. 0" "['''', '''']"]
    by (simp add: Let_def lone_step_def)
qed

end
